(* ===== verification/Reir_Prelude.thy ===== *)
theory Reir_Prelude
  imports Main "HOL-Library.Word" "HOL-Library.Sublist"
begin

text \<open>
  The shared vocabulary of the development: C++ failures as values of a sum type, the
  bind of that type, byte buffers (a \<open>char*\<close> region is a list of \<open>char\<close>, which
  in HOL is exactly one byte), little-endian words in such buffers, decimal output of
  \<open>std::ostream\<close>, the decimal input of \<open>std::stoi\<close> and \<open>std::stoll\<close>, and
  \<open>std::unordered_map::operator[]\<close>.
\<close>

named_theorems res_simps \<comment> \<open>computation rules of the result monad\<close>
named_theorems bytes_simps \<comment> \<open>byte-level encoding facts\<close>

section \<open>Failures\<close>

text \<open>
  How a call can fail to return a value: \<open>std::runtime_error\<close> with its message, the two
  exceptions of \<open>std::stoi\<close>, \<open>abort()\<close>, a failed \<open>assert\<close>, undefined
  behaviour (a null or indeterminate pointer followed, a buffer left), and the
  \<open>boost::bad_get\<close> of a variant read as another type. \<open>OutOfFuel\<close> is
  no behaviour of the code: it marks a model whose recursion bound was too small, and the
  development proves where it cannot occur.
\<close>

datatype err =
    RuntimeError string
  | InvalidArgument
  | OutOfRange
  | Abort
  | AssertFailed
  | Undefined
  | BadGet
  | OutOfFuel

type_synonym 'a res = "err + 'a"

definition bindE :: "'a res \<Rightarrow> ('a \<Rightarrow> 'b res) \<Rightarrow> 'b res" where
  "bindE m f = (case m of Inl e \<Rightarrow> Inl e | Inr x \<Rightarrow> f x)"

definition guardE :: "bool \<Rightarrow> err \<Rightarrow> unit res" where
  "guardE b e = (if b then Inr () else Inl e)"

lemma bindE_Inl [simp, res_simps]: "bindE (Inl e) f = Inl e"
  by (simp add: bindE_def)

lemma bindE_Inr [simp, res_simps]: "bindE (Inr x) f = f x"
  by (simp add: bindE_def)

lemma bindE_eq_Inr_iff: "bindE m f = Inr y \<longleftrightarrow> (\<exists>x. m = Inr x \<and> f x = Inr y)"
  by (cases m) simp_all

lemma bindE_eq_Inl_iff:
  "bindE m f = Inl e \<longleftrightarrow> m = Inl e \<or> (\<exists>x. m = Inr x \<and> f x = Inl e)"
  by (cases m) simp_all

lemma bindE_InrE:
  assumes "bindE m f = Inr y"
  obtains x where "m = Inr x" and "f x = Inr y"
  using assms by (auto simp: bindE_eq_Inr_iff)

lemma bindE_assoc: "bindE (bindE m f) g = bindE m (\<lambda>x. bindE (f x) g)"
  by (cases m) simp_all

lemma bindE_cong [fundef_cong]:
  "m = m' \<Longrightarrow> (\<And>x. m' = Inr x \<Longrightarrow> f x = f' x) \<Longrightarrow> bindE m f = bindE m' f'"
  by (cases m') (simp_all add: bindE_def)

lemma bindE_not_Inl:
  "m \<noteq> Inl e \<Longrightarrow> (\<And>x. m = Inr x \<Longrightarrow> f x \<noteq> Inl e) \<Longrightarrow> bindE m f \<noteq> Inl e"
  by (cases m) simp_all

lemma guardE_simps [simp, res_simps]:
  "guardE True e = Inr ()" "guardE False e = Inl e"
  by (simp_all add: guardE_def)

lemma guardE_eq_Inr [simp]: "guardE b e = Inr u \<longleftrightarrow> b"
  by (simp add: guardE_def)

lemma guardE_eq_Inl [simp]: "guardE b e = Inl e' \<longleftrightarrow> \<not> b \<and> e' = e"
  by (auto simp: guardE_def)

section \<open>Byte buffers\<close>

text \<open>
  \<open>memcpy(&buf[off], data, n)\<close> and reads of \<open>n\<close> bytes at \<open>&buf[off]\<close>. Leaving
  the buffer is undefined behaviour.
\<close>

definition buf_write :: "string \<Rightarrow> nat \<Rightarrow> string \<Rightarrow> string res" where
  "buf_write buf off data =
     (if off + length data \<le> length buf
      then Inr (take off buf @ data @ drop (off + length data) buf)
      else Inl Undefined)"

definition buf_read :: "string \<Rightarrow> nat \<Rightarrow> nat \<Rightarrow> string res" where
  "buf_read buf off n =
     (if off + n \<le> length buf then Inr (take n (drop off buf)) else Inl Undefined)"

lemma buf_write_length: "buf_write buf off data = Inr buf' \<Longrightarrow> length buf' = length buf"
  by (auto simp: buf_write_def split: if_splits)

lemma buf_write_ok: "off + length data \<le> length buf \<Longrightarrow> \<exists>buf'. buf_write buf off data = Inr buf'"
  by (simp add: buf_write_def)

lemma buf_read_write_same:
  "buf_write buf off data = Inr buf' \<Longrightarrow> buf_read buf' off (length data) = Inr data"
  by (auto simp: buf_write_def buf_read_def split: if_splits)

lemma buf_read_write_disjoint:
  assumes "buf_write buf off data = Inr buf'"
    and "i + n \<le> off \<or> off + length data \<le> i"
  shows "buf_read buf' i n = buf_read buf i n"
proof -
  from assms(1) have buf': "buf' = take off buf @ data @ drop (off + length data) buf"
    and le: "off + length data \<le> length buf"
    by (auto simp: buf_write_def split: if_splits)
  have len: "length buf' = length buf" using buf' le by simp
  have "take n (drop i buf') = take n (drop i buf)" if "i + n \<le> length buf"
    using assms(2) le that unfolding buf' by (auto intro!: nth_equalityI simp: nth_append)
  then show ?thesis by (simp add: buf_read_def len)
qed

section \<open>Little-endian words\<close>

fun le_bytes :: "nat \<Rightarrow> nat \<Rightarrow> string" where
  "le_bytes 0 n = []"
| "le_bytes (Suc k) n = char_of (n mod 256) # le_bytes k (n div 256)"

fun le_nat :: "string \<Rightarrow> nat" where
  "le_nat [] = 0"
| "le_nat (c # cs) = of_char c + 256 * le_nat cs"

definition bytes_of_u64 :: "64 word \<Rightarrow> string" where
  "bytes_of_u64 w = le_bytes 8 (unat w)"

definition u64_of_bytes :: "string \<Rightarrow> 64 word" where
  "u64_of_bytes bs = of_nat (le_nat bs)"

lemma length_le_bytes [simp, bytes_simps]: "length (le_bytes k n) = k"
  by (induction k arbitrary: n) simp_all

lemma le_bytes_numeral [simp]:
  "le_bytes (numeral k) n = char_of (n mod 256) # le_bytes (pred_numeral k) (n div 256)"
  by (simp only: numeral_eq_Suc [of k] le_bytes.simps)

lemma le_nat_le_bytes: "le_nat (le_bytes k n) = n mod 256 ^ k"
proof (induction k arbitrary: n)
  case 0
  show ?case by simp
next
  case (Suc k)
  have "n mod 256 ^ Suc k = n mod 256 + 256 * (n div 256 mod 256 ^ k)"
    by (simp add: mod_mult2_eq)
  with Suc show ?case by (simp add: of_char_of)
qed

lemma unat_of_nat_u64: "n < 2 ^ 64 \<Longrightarrow> unat (of_nat n :: 64 word) = n"
  by (simp add: unsigned_of_nat take_bit_nat_eq_self)

lemma length_bytes_of_u64 [simp, bytes_simps]: "length (bytes_of_u64 w) = 8"
  by (simp add: bytes_of_u64_def)

lemma u64_of_bytes_of_u64 [simp, bytes_simps]: "u64_of_bytes (bytes_of_u64 w) = w"
proof -
  have "unat w < 256 ^ 8" using unsigned_less [of w] by simp
  then show ?thesis
    by (simp add: u64_of_bytes_def bytes_of_u64_def le_nat_le_bytes)
qed

section \<open>Decimal numbers\<close>

definition digit_char :: "nat \<Rightarrow> char" where
  "digit_char d = char_of (48 + d)"

definition is_digit :: "char \<Rightarrow> bool" where
  "is_digit c \<longleftrightarrow> 48 \<le> (of_char c :: nat) \<and> (of_char c :: nat) \<le> 57"

definition digit_val :: "char \<Rightarrow> nat" where
  "digit_val c = of_char c - 48"

text \<open>\<open>std::ostream << n\<close> on an unsigned and on a signed number.\<close>

fun show_nat :: "nat \<Rightarrow> string" where
  "show_nat n =
     (if n < 10 then [digit_char n] else show_nat (n div 10) @ [digit_char (n mod 10)])"

declare show_nat.simps [simp del]

definition show_int :: "int \<Rightarrow> string" where
  "show_int i = (if i < 0 then CHR ''-'' # show_nat (nat (- i)) else show_nat (nat i))"

definition dec_val :: "string \<Rightarrow> nat" where
  "dec_val s = foldl (\<lambda>a c. 10 * a + digit_val c) 0 s"

text \<open>
  \<open>std::strtoll\<close>, as \<open>std::stoi\<close> and \<open>std::stoll\<close> use it: leading white space,
  an optional sign, then the longest run of digits; no digit is
  \<open>std::invalid_argument\<close>, a value outside the type is \<open>std::out_of_range\<close>.
\<close>

definition is_space :: "char \<Rightarrow> bool" where
  "is_space c \<longleftrightarrow> c = CHR '' '' \<or> (9 \<le> (of_char c :: nat) \<and> (of_char c :: nat) \<le> 13)"

definition strtoll :: "string \<Rightarrow> int option" where
  "strtoll s =
     (let t = dropWhile is_space s;
          neg = (t \<noteq> [] \<and> hd t = CHR ''-'');
          u = (if t \<noteq> [] \<and> (hd t = CHR ''-'' \<or> hd t = CHR ''+'') then tl t else t);
          ds = takeWhile is_digit u
      in if ds = [] then None
         else Some (if neg then - int (dec_val ds) else int (dec_val ds)))"

definition sto_range :: "int \<Rightarrow> int \<Rightarrow> string \<Rightarrow> int res" where
  "sto_range lo hi s =
     (case strtoll s of
        None \<Rightarrow> Inl InvalidArgument
      | Some v \<Rightarrow> if lo \<le> v \<and> v \<le> hi then Inr v else Inl OutOfRange)"

definition stoi :: "string \<Rightarrow> int res" where
  "stoi s = sto_range (- (2 ^ 31)) (2 ^ 31 - 1) s"

definition stoll :: "string \<Rightarrow> int res" where
  "stoll s = sto_range (- (2 ^ 63)) (2 ^ 63 - 1) s"

lemma is_digit_digit_char: "d < 10 \<Longrightarrow> is_digit (digit_char d)"
  by (simp add: is_digit_def digit_char_def of_char_of)

lemma digit_val_digit_char: "d < 10 \<Longrightarrow> digit_val (digit_char d) = d"
  by (simp add: digit_val_def digit_char_def of_char_of)

lemma dec_val_snoc: "dec_val (s @ [c]) = 10 * dec_val s + digit_val c"
  by (simp add: dec_val_def)

lemma show_nat_digits: "list_all is_digit (show_nat n)"
proof (induction n rule: show_nat.induct)
  case (1 n)
  then show ?case
    by (subst show_nat.simps) (auto simp: is_digit_digit_char)
qed

lemma show_nat_nonempty [simp]: "show_nat n \<noteq> []"
  by (subst show_nat.simps) simp

lemma dec_val_show_nat [simp]: "dec_val (show_nat n) = n"
proof (induction n rule: show_nat.induct)
  case (1 n)
  show ?case
  proof (cases "n < 10")
    case True
    then show ?thesis
      by (subst show_nat.simps) (simp add: dec_val_def digit_val_digit_char)
  next
    case False
    with 1 show ?thesis
      by (subst show_nat.simps) (simp add: dec_val_snoc digit_val_digit_char)
  qed
qed

lemma digit_not_space: "is_digit c \<Longrightarrow> \<not> is_space c"
  by (auto simp: is_digit_def is_space_def)

lemma digit_not_sign: "is_digit c \<Longrightarrow> c \<noteq> CHR ''-'' \<and> c \<noteq> CHR ''+''"
  by (auto simp: is_digit_def)

lemma strtoll_digits:
  assumes "list_all is_digit ds" "ds \<noteq> []" "list_all is_space sp"
  shows "strtoll (sp @ ds) = Some (int (dec_val ds))"
proof -
  from assms(1,2) have hd: "is_digit (hd ds)" by (cases ds) auto
  have "dropWhile is_space ds = ds"
    using assms(2) digit_not_space [OF hd] by (cases ds) auto
  then have drop: "dropWhile is_space (sp @ ds) = ds"
    using assms(3) by (simp add: dropWhile_append2 list_all_iff)
  have all: "takeWhile is_digit ds = ds"
    using assms(1) by (simp add: list_all_iff)
  from digit_not_sign [OF hd] assms(2) show ?thesis
    unfolding strtoll_def Let_def drop by (simp add: all)
qed

lemma sto_range_show_nat:
  "list_all is_space sp \<Longrightarrow> lo \<le> int n \<Longrightarrow> int n \<le> hi \<Longrightarrow> sto_range lo hi (sp @ show_nat n) = Inr (int n)"
  by (simp add: sto_range_def strtoll_digits show_nat_digits)

lemma stoll_show_nat: "int n < 2 ^ 63 \<Longrightarrow> stoll (show_nat n) = Inr (int n)"
  using sto_range_show_nat [of "[]"] by (simp add: stoll_def)

lemma stoll_space_show_nat: "int n < 2 ^ 63 \<Longrightarrow> stoll (CHR '' '' # show_nat n) = Inr (int n)"
  using sto_range_show_nat [of "[CHR '' '']"] by (simp add: stoll_def is_space_def)

lemma stoi_show_nat: "int n < 2 ^ 31 \<Longrightarrow> stoi (show_nat n) = Inr (int n)"
  using sto_range_show_nat [of "[]"] by (simp add: stoi_def)

section \<open>unordered_map\<close>

text \<open>
  A map of pointers: \<open>None\<close> is an absent key, \<open>Some None\<close> a key bound to
  \<open>nullptr\<close>. \<open>operator[]\<close> inserts a null pointer under an absent key.
\<close>

type_synonym ('k, 'v) pmap = "'k \<rightharpoonup> 'v option"

definition pmap_index :: "('k, 'v) pmap \<Rightarrow> 'k \<Rightarrow> 'v option \<times> ('k, 'v) pmap" where
  "pmap_index m k = (case m k of None \<Rightarrow> (None, m(k \<mapsto> None)) | Some p \<Rightarrow> (p, m))"

end
