(* ===== verification/Reir_Token.thy ===== *)
theory Reir_Token
  imports Reir_Prelude
begin

text \<open>
  The tokens of \<^verbatim>\<open>src/reir/exec/token.hpp\<close>: the enumeration, its printed names, the
  reserved words (matched after clearing bit 5 of every byte), the symbol and operator
  tables, and \<open>TokenStream\<close>, the cursor the parser moves. The last section states what
  the parser relies on: a successful parser leaves the token list alone and moves the
  cursor forward, never past the end.
\<close>

section \<open>Token types\<close>

datatype token_type =
    TK_IDENTIFIER
  | TK_STRING_LITERAL
  | TK_RESERVED
  | TK_NUMBER
  | TK_FLOAT
  | TK_OPEN_BRACE
  | TK_CLOSE_BRACE
  | TK_OPEN_PAREN
  | TK_CLOSE_PAREN
  | TK_OPEN_BRACKET
  | TK_CLOSE_BRACKET
  | TK_OPEN_ANGLE
  | TK_CLOSE_ANGLE
  | TK_COMMA
  | TK_ASTERISK
  | TK_SLASH
  | TK_PLUS
  | TK_MINUS
  | TK_COLON
  | TK_SEMICOLON
  | TK_PERIOD
  | TK_EQUAL
  | TK_AND
  | TK_PERCENT
  | TK_EQUAL_EQUAL
  | TK_EXCLAMATION_MARK_EQUAL
  | TK_OPEN_ANGLE_EQUAL
  | TK_CLOSE_ANGLE_EQUAL
  | TK_PLUS_EQUAL
  | TK_MINUS_EQUAL
  | TK_ASTERISK_EQUAL
  | TK_SLASH_EQUAL
  | TK_PERCENT_EQUAL
  | TK_AND_AND
  | TK_OR_OR
  | TK_reserved_splitter
  | TK_TYPE
  | TK_INT
  | TK_DEFINE
  | TK_LET
  | TK_TRANSACTION
  | TK_SERIALIZABLE
  | TK_IF
  | TK_ELSE
  | TK_FOR
  | TK_EMIT
  | TK_INSERT
  | TK_SCAN
  | TK_BREAK
  | TK_CONTINUE
  | TK_TUPLE
  | TK_INVALID

text \<open>\<open>strs[]\<close>, indexed by the enumeration.\<close>

fun token_type_str :: "token_type \<Rightarrow> string" where
  "token_type_str TK_IDENTIFIER = ''IDENTIFIER''"
| "token_type_str TK_STRING_LITERAL = ''STRING_LITERAL''"
| "token_type_str TK_RESERVED = ''RESERVED''"
| "token_type_str TK_NUMBER = ''NUMBER''"
| "token_type_str TK_FLOAT = ''FLOAT''"
| "token_type_str TK_OPEN_BRACE = ''OPEN_BRACE''"
| "token_type_str TK_CLOSE_BRACE = ''CLOSE_BRACE''"
| "token_type_str TK_OPEN_PAREN = ''OPEN_PAREN''"
| "token_type_str TK_CLOSE_PAREN = ''CLOSE_PAREN''"
| "token_type_str TK_OPEN_BRACKET = ''OPEN_BRACKET''"
| "token_type_str TK_CLOSE_BRACKET = ''CLOSE_BRACKET''"
| "token_type_str TK_OPEN_ANGLE = ''OPEN_ANGLE''"
| "token_type_str TK_CLOSE_ANGLE = ''CLOSE_ANGLE''"
| "token_type_str TK_COMMA = ''COMMA''"
| "token_type_str TK_ASTERISK = ''ASTERISK''"
| "token_type_str TK_SLASH = ''SLASH''"
| "token_type_str TK_PLUS = ''PLUS''"
| "token_type_str TK_MINUS = ''MINUS''"
| "token_type_str TK_COLON = ''COLON''"
| "token_type_str TK_SEMICOLON = ''SEMICOLON''"
| "token_type_str TK_PERIOD = ''PERIOD''"
| "token_type_str TK_EQUAL = ''EQUAL''"
| "token_type_str TK_AND = ''AND''"
| "token_type_str TK_PERCENT = ''PERCENT''"
| "token_type_str TK_EQUAL_EQUAL = ''EQUAL_EQUAL''"
| "token_type_str TK_EXCLAMATION_MARK_EQUAL = ''EXCLAMATION_MARK_EQUAL''"
| "token_type_str TK_OPEN_ANGLE_EQUAL = ''OPEN_ANGLE_EQUAL''"
| "token_type_str TK_CLOSE_ANGLE_EQUAL = ''CLOSE_ANGLE_EQUAL''"
| "token_type_str TK_PLUS_EQUAL = ''PLUS_EQUAL''"
| "token_type_str TK_MINUS_EQUAL = ''MINUS_EQUAL''"
| "token_type_str TK_ASTERISK_EQUAL = ''ASTERISK_EQUAL''"
| "token_type_str TK_SLASH_EQUAL = ''SLASH_EQUAL''"
| "token_type_str TK_PERCENT_EQUAL = ''PERCENT_EQUAL''"
| "token_type_str TK_AND_AND = ''AND_AND''"
| "token_type_str TK_OR_OR = ''OR_OR''"
| "token_type_str TK_reserved_splitter = ''reserved_splitter''"
| "token_type_str TK_TYPE = ''TYPE''"
| "token_type_str TK_INT = ''INT''"
| "token_type_str TK_DEFINE = ''DEFINE''"
| "token_type_str TK_LET = ''LET''"
| "token_type_str TK_TRANSACTION = ''TRANSACTION''"
| "token_type_str TK_SERIALIZABLE = ''SERIALIZABLE''"
| "token_type_str TK_IF = ''IF''"
| "token_type_str TK_ELSE = ''ELSE''"
| "token_type_str TK_FOR = ''FOR''"
| "token_type_str TK_EMIT = ''EMIT''"
| "token_type_str TK_INSERT = ''INSERT''"
| "token_type_str TK_SCAN = ''SCAN''"
| "token_type_str TK_BREAK = ''BREAK''"
| "token_type_str TK_CONTINUE = ''CONTINUE''"
| "token_type_str TK_TUPLE = ''TUPLE''"
| "token_type_str TK_INVALID = ''INVALID''"

text \<open>The indices \<open>from .. to - 1\<close> of the enumeration.\<close>

definition reserved_words :: "token_type list" where
  "reserved_words =
     [TK_TYPE, TK_INT, TK_DEFINE, TK_LET, TK_TRANSACTION,
      TK_SERIALIZABLE, TK_IF, TK_ELSE, TK_FOR, TK_EMIT,
      TK_INSERT, TK_SCAN, TK_BREAK, TK_CONTINUE, TK_TUPLE]"

text \<open>\<open>w[i] &= ~0x20\<close>: bit 5 of the byte is cleared.\<close>

definition clear_bit5 :: "char \<Rightarrow> char" where
  "clear_bit5 c =
     Char (digit0 c) (digit1 c) (digit2 c) (digit3 c) (digit4 c) False (digit6 c) (digit7 c)"

definition as_reserved :: "string \<Rightarrow> token_type" where
  "as_reserved word =
     (let w = map clear_bit5 word
      in case List.find (\<lambda>t. w = token_type_str t) reserved_words of
           Some t \<Rightarrow> t
         | None \<Rightarrow> TK_INVALID)"

definition symbols :: string where
  "symbols = ''{}()[],:;''"

definition numbers :: string where
  "numbers = ''1234567890''"

definition operator_tokens :: string where
  "operator_tokens = ''+-*/%=!<>.&|''"

definition symbol_token :: "char \<Rightarrow> token_type res" where
  "symbol_token c =
     (if c = CHR ''{'' then Inr TK_OPEN_BRACE
      else if c = CHR ''}'' then Inr TK_CLOSE_BRACE
      else if c = CHR ''('' then Inr TK_OPEN_PAREN
      else if c = CHR '')'' then Inr TK_CLOSE_PAREN
      else if c = CHR ''['' then Inr TK_OPEN_BRACKET
      else if c = CHR '']'' then Inr TK_CLOSE_BRACKET
      else if c = CHR ''<'' then Inr TK_OPEN_ANGLE
      else if c = CHR ''>'' then Inr TK_CLOSE_ANGLE
      else if c = CHR '','' then Inr TK_COMMA
      else if c = CHR ''*'' then Inr TK_ASTERISK
      else if c = CHR ''/'' then Inr TK_SLASH
      else if c = CHR ''+'' then Inr TK_PLUS
      else if c = CHR ''-'' then Inr TK_MINUS
      else if c = CHR '':'' then Inr TK_COLON
      else if c = CHR '';'' then Inr TK_SEMICOLON
      else if c = CHR ''.'' then Inr TK_PERIOD
      else if c = CHR ''='' then Inr TK_EQUAL
      else if c = CHR ''&'' then Inr TK_AND
      else if c = CHR ''%'' then Inr TK_PERCENT
      else Inl Abort)"

definition operator_token_list :: "(string \<times> token_type) list" where
  "operator_token_list =
     [(''=='', TK_EQUAL_EQUAL),
      (''!='', TK_EXCLAMATION_MARK_EQUAL),
      (''<='', TK_OPEN_ANGLE_EQUAL),
      (''>='', TK_CLOSE_ANGLE_EQUAL),
      (''+='', TK_PLUS_EQUAL),
      (''-='', TK_MINUS_EQUAL),
      (''*='', TK_ASTERISK_EQUAL),
      (''/='', TK_SLASH_EQUAL),
      (''%='', TK_PERCENT_EQUAL),
      (''&&'', TK_AND_AND),
      (''||'', TK_OR_OR)]"

definition operator_token :: "string \<Rightarrow> token_type res" where
  "operator_token img =
     (if length img = 1 then symbol_token (hd img)
      else case map_of operator_token_list img of
             Some t \<Rightarrow> Inr t
           | None \<Rightarrow> Inr TK_INVALID)"

section \<open>Tokens and the token stream\<close>

record token =
  tk_type :: token_type
  tk_text :: string
  tk_row :: int
  tk_col :: int

text \<open>\<open>operator<<\<close> of \<open>Token\<close>.\<close>

definition show_token :: "token \<Rightarrow> string" where
  "show_token t =
     ''['' @ token_type_str (tk_type t) @ '']'' @
     (if tk_type t \<in> {TK_IDENTIFIER, TK_STRING_LITERAL, TK_RESERVED, TK_NUMBER, TK_FLOAT}
      then ''('' @ tk_text t @ '')'' else [])"

record token_stream =
  ts_tokens :: "token list"
  ts_idx :: nat

definition token_stream_new :: "token list \<Rightarrow> token_stream" where
  "token_stream_new ts = \<lparr>ts_tokens = ts, ts_idx = 0\<rparr>"

definition ts_get :: "token_stream \<Rightarrow> token res" where
  "ts_get s =
     (if length (ts_tokens s) \<le> ts_idx s then Inl (RuntimeError ''reached EOF of tokens'')
      else Inr (ts_tokens s ! ts_idx s))"

definition ts_next :: "token_stream \<Rightarrow> token_stream" where
  "ts_next s = s\<lparr>ts_idx := ts_idx s + 1\<rparr>"

definition ts_pos :: "token_stream \<Rightarrow> nat" where
  "ts_pos s = ts_idx s"

definition ts_size :: "token_stream \<Rightarrow> nat" where
  "ts_size s = length (ts_tokens s)"

definition ts_has_next :: "token_stream \<Rightarrow> bool" where
  "ts_has_next s \<longleftrightarrow> ts_idx s \<noteq> length (ts_tokens s)"

text \<open>A token without its position.\<close>

definition token_lexeme :: "token \<Rightarrow> token_type \<times> string" where
  "token_lexeme t = (tk_type t, tk_text t)"

section \<open>Cursor movement\<close>

definition remaining :: "token_stream \<Rightarrow> nat" where
  "remaining s = length (ts_tokens s) - ts_idx s"

definition moves :: "token_stream \<Rightarrow> token_stream \<Rightarrow> bool" where
  "moves s s' \<longleftrightarrow> ts_tokens s' = ts_tokens s \<and> ts_idx s \<le> ts_idx s' \<and> ts_idx s' \<le> length (ts_tokens s)"

definition advances :: "token_stream \<Rightarrow> token_stream \<Rightarrow> bool" where
  "advances s s' \<longleftrightarrow> ts_tokens s' = ts_tokens s \<and> ts_idx s < ts_idx s' \<and> ts_idx s' \<le> length (ts_tokens s)"

section \<open>Facts\<close>

lemma ts_get_Inr_iff:
  "ts_get s = Inr t \<longleftrightarrow> ts_idx s < length (ts_tokens s) \<and> t = ts_tokens s ! ts_idx s"
  by (auto simp: ts_get_def)

lemma ts_get_not_OutOfFuel [simp]: "ts_get s \<noteq> Inl OutOfFuel"
  by (simp add: ts_get_def)

lemma ts_next_sel [simp]:
  "ts_tokens (ts_next s) = ts_tokens s" "ts_idx (ts_next s) = Suc (ts_idx s)"
  by (simp_all add: ts_next_def)

lemma ts_get_advances: "ts_get s = Inr t \<Longrightarrow> advances s (ts_next s)"
  by (auto simp: advances_def ts_get_Inr_iff)

lemma advances_moves: "advances s s' \<Longrightarrow> moves s s'"
  by (simp add: advances_def moves_def)

lemma moves_refl_get: "ts_get s = Inr t \<Longrightarrow> moves s s"
  by (auto simp: moves_def ts_get_Inr_iff)

lemma moves_refl: "ts_idx s \<le> length (ts_tokens s) \<Longrightarrow> moves s s"
  by (simp add: moves_def)

lemma advances_trans: "advances s s' \<Longrightarrow> advances s' s'' \<Longrightarrow> advances s s''"
  by (auto simp: advances_def)

lemma advances_moves_trans: "advances s s' \<Longrightarrow> moves s' s'' \<Longrightarrow> advances s s''"
  by (auto simp: advances_def moves_def)

lemma moves_advances_trans: "moves s s' \<Longrightarrow> advances s' s'' \<Longrightarrow> advances s s''"
  by (auto simp: advances_def moves_def)

lemma moves_trans: "moves s s' \<Longrightarrow> moves s' s'' \<Longrightarrow> moves s s''"
  by (auto simp: moves_def)

lemma advances_remaining: "advances s s' \<Longrightarrow> remaining s' < remaining s"
  by (auto simp: advances_def remaining_def)

lemma moves_remaining: "moves s s' \<Longrightarrow> remaining s' \<le> remaining s"
  by (auto simp: moves_def remaining_def)

lemma ts_get_remaining: "ts_get s = Inr t \<Longrightarrow> remaining s = Suc (remaining (ts_next s))"
  by (auto simp: remaining_def ts_get_Inr_iff)

lemmas cursor_trans =
  advances_trans advances_moves_trans moves_advances_trans moves_trans

end
