(* ===== verification/Reir_Codec.thy ===== *)
theory Reir_Codec
  imports Reir_Prelude
begin

text \<open>
  The contract of an encoder and its decoder on byte buffers, as the layers of
  \<^verbatim>\<open>src/reir/db\<close> rely on it: a value has a byte image, encoding writes that image at
  the given offset and nothing else, decoding reads it back. The facts every layer needs
  (round trip, independence of disjoint cells, the exact room that is needed) are proved
  here once and used through interpretations on the model's own encoders.
\<close>

lemma buf_write_append:
  "bindE (buf_write buf off a) (\<lambda>buf. buf_write buf (off + length a) b) = buf_write buf off (a @ b)"
proof (cases "off + length a \<le> length buf")
  case True
  then have "take off buf @ a @ drop (off + length a) buf = (take off buf @ a) @ drop (off + length a) buf"
    and "length (take off buf @ a) = off + length a"
    by simp_all
  with True show ?thesis by (simp add: buf_write_def add.commute add.left_commute)
qed (simp add: buf_write_def)

lemma buf_read_append:
  assumes "buf_read buf off (length a + length b) = Inr (a @ b)"
  shows "buf_read buf off (length a) = Inr a" and "buf_read buf (off + length a) (length b) = Inr b"
proof -
  from assms have le: "off + (length a + length b) \<le> length buf"
    and eq: "take (length a + length b) (drop off buf) = a @ b"
    by (auto simp: buf_read_def split: if_splits)
  have "take (length a) (drop off buf) = take (length a) (take (length a + length b) (drop off buf))"
    by (simp add: min_def)
  also have "\<dots> = a" by (simp add: eq)
  finally show "buf_read buf off (length a) = Inr a" using le by (simp add: buf_read_def)
  have "take (length b) (drop (off + length a) buf) =
        drop (length a) (take (length a + length b) (drop off buf))"
    by (simp add: drop_take add.commute)
  also have "\<dots> = b" by (simp add: eq)
  finally show "buf_read buf (off + length a) (length b) = Inr b" using le by (simp add: buf_read_def)
qed

locale codec =
  fixes ok :: "'a \<Rightarrow> bool"
    and bytes :: "'a \<Rightarrow> string"
    and enc :: "'a \<Rightarrow> string \<Rightarrow> nat \<Rightarrow> string res"
    and dec :: "string \<Rightarrow> nat \<Rightarrow> 'a res"
  assumes enc_bytes: "ok x \<Longrightarrow> enc x buf off = buf_write buf off (bytes x)"
    and dec_bytes: "ok x \<Longrightarrow> buf_read buf off (length (bytes x)) = Inr (bytes x) \<Longrightarrow> dec buf off = Inr x"
begin

lemma enc_fits_iff: "ok x \<Longrightarrow> (\<exists>buf'. enc x buf off = Inr buf') \<longleftrightarrow> off + length (bytes x) \<le> length buf"
  by (simp add: enc_bytes buf_write_def)

lemma enc_overflow: "ok x \<Longrightarrow> length buf < off + length (bytes x) \<Longrightarrow> enc x buf off = Inl Undefined"
  by (simp add: enc_bytes buf_write_def)

lemma enc_length: "ok x \<Longrightarrow> enc x buf off = Inr buf' \<Longrightarrow> length buf' = length buf"
  by (simp add: enc_bytes buf_write_length)

lemma enc_dec: "ok x \<Longrightarrow> enc x buf off = Inr buf' \<Longrightarrow> dec buf' off = Inr x"
  by (simp add: enc_bytes buf_read_write_same dec_bytes)

lemma enc_frame:
  "ok x \<Longrightarrow> enc x buf off = Inr buf' \<Longrightarrow> i + n \<le> off \<or> off + length (bytes x) \<le> i \<Longrightarrow>
   buf_read buf' i n = buf_read buf i n"
  by (simp add: enc_bytes buf_read_write_disjoint)

lemma enc_keeps_cell:
  assumes "ok x" "enc x buf off = Inr buf'" "ok y" "buf_read buf i (length (bytes y)) = Inr (bytes y)"
    and "i + length (bytes y) \<le> off \<or> off + length (bytes x) \<le> i"
  shows "dec buf' i = Inr y"
  using assms by (intro dec_bytes) (simp_all add: enc_frame)

lemma bytes_determine: "ok x \<Longrightarrow> ok y \<Longrightarrow> bytes x = bytes y \<Longrightarrow> x = y"
proof -
  assume "ok x" "ok y" and eq: "bytes x = bytes y"
  have "buf_read (bytes x) 0 (length (bytes x)) = Inr (bytes x)" by (simp add: buf_read_def)
  with \<open>ok x\<close> \<open>ok y\<close> have "dec (bytes x) 0 = Inr x" "dec (bytes x) 0 = Inr y"
    using eq by (auto intro!: dec_bytes)
  then show "x = y" by simp
qed

end

end
