(* ===== verification/Reir_Value.thy ===== *)
theory Reir_Value
  imports Reir_Codec
begin

text \<open>
  The cell values of \<^verbatim>\<open>src/reir/db/value.hpp\<close>, \<^verbatim>\<open>value.cpp\<close> and
  \<^verbatim>\<open>maybe_value.hpp\<close>: \<open>ValueImpl\<close> with its type tag and its
  \<open>boost::variant\<close>, its byte image, \<open>MaybeValue\<close> with the existence byte, and the
  store of shared \<open>ValueImpl\<close> objects behind \<open>Value\<close>'s \<open>shared_ptr\<close>. A
  \<open>double\<close> is its 64 bits; \<open>int64_t\<close> is a \<open>64 word\<close> read by \<open>sint\<close>.
\<close>

section \<open>Doubles\<close>

text \<open>
  IEEE-754 binary64 on the bit pattern: the comparison \<open>==\<close> (no NaN equals anything,
  the two zeros are equal) and the output of \<open>std::ostream\<close> at its default precision
  of six significant digits (\<open>%g\<close>).
\<close>

definition double_sign :: "64 word \<Rightarrow> bool" where
  "double_sign w \<longleftrightarrow> 2 ^ 63 \<le> unat w"

definition double_exponent :: "64 word \<Rightarrow> nat" where
  "double_exponent w = unat w div 2 ^ 52 mod 2048"

definition double_mantissa :: "64 word \<Rightarrow> nat" where
  "double_mantissa w = unat w mod 2 ^ 52"

definition double_is_nan :: "64 word \<Rightarrow> bool" where
  "double_is_nan w \<longleftrightarrow> double_exponent w = 2047 \<and> double_mantissa w \<noteq> 0"

definition double_is_zero :: "64 word \<Rightarrow> bool" where
  "double_is_zero w \<longleftrightarrow> double_exponent w = 0 \<and> double_mantissa w = 0"

definition double_eq :: "64 word \<Rightarrow> 64 word \<Rightarrow> bool" where
  "double_eq a b \<longleftrightarrow>
     \<not> double_is_nan a \<and> \<not> double_is_nan b \<and>
     (a = b \<or> double_is_zero a \<and> double_is_zero b)"

text \<open>The magnitude as a fraction \<open>num / den\<close>.\<close>

definition double_fraction :: "64 word \<Rightarrow> nat \<times> nat" where
  "double_fraction w =
     (let e = double_exponent w; m = double_mantissa w;
          sig = (if e = 0 then m else 2 ^ 52 + m);
          x = (if e = 0 then 1 else e)
      in if 1075 \<le> x then (sig * 2 ^ (x - 1075), 1) else (sig, 2 ^ (1075 - x)))"

definition round_half_even :: "nat \<Rightarrow> nat \<Rightarrow> nat" where
  "round_half_even a b =
     (let q = a div b; r = a mod b
      in if 2 * r < b then q else if b < 2 * r then q + 1
         else if even q then q else q + 1)"

definition scale_fraction :: "nat \<Rightarrow> nat \<Rightarrow> int \<Rightarrow> nat \<times> nat" where
  "scale_fraction a b k = (if 0 \<le> k then (a * 10 ^ nat k, b) else (a, b * 10 ^ nat (- k)))"

text \<open>\<open>x\<close> with \<open>10\<^sup>x \<le> a / b < 10\<^sup>x\<^sup>+\<^sup>1\<close>, searched downwards from \<open>308\<close>.\<close>

fun decimal_exponent :: "nat \<Rightarrow> nat \<Rightarrow> nat \<Rightarrow> int \<Rightarrow> int" where
  "decimal_exponent 0 a b x = x"
| "decimal_exponent (Suc n) a b x =
     (case scale_fraction a b (- x) of (p, q) \<Rightarrow>
        if q \<le> p then x else decimal_exponent n a b (x - 1))"

definition strip_zeros :: "string \<Rightarrow> string" where
  "strip_zeros s = rev (dropWhile (\<lambda>c. c = CHR ''0'') (rev s))"

definition with_point :: "string \<Rightarrow> string \<Rightarrow> string" where
  "with_point i f = (if strip_zeros f = [] then i else i @ ''.'' @ strip_zeros f)"

definition show_double :: "64 word \<Rightarrow> string" where
  "show_double w =
     (if double_sign w then ''-'' else []) @
     (if double_is_nan w then ''nan''
      else if double_exponent w = 2047 then ''inf''
      else if double_is_zero w then ''0''
      else case double_fraction w of (a, b) \<Rightarrow>
        let x0 = decimal_exponent 640 a b 308;
            d0 = (case scale_fraction a b (5 - x0) of (p, q) \<Rightarrow> round_half_even p q);
            x = (if d0 = 10 ^ 6 then x0 + 1 else x0);
            d = show_nat (if d0 = 10 ^ 6 then 10 ^ 5 else d0)
        in if x < - 4 \<or> 6 \<le> x
           then with_point (take 1 d) (drop 1 d) @ ''e'' @
                (if x < 0 then ''-'' else ''+'') @
                (if nat \<bar>x\<bar> < 10 then ''0'' else []) @ show_nat (nat \<bar>x\<bar>)
           else if 0 \<le> x then with_point (take (nat x + 1) d) (drop (nat x + 1) d)
           else with_point ''0'' (replicate (nat (- x) - 1) (CHR ''0'') @ d))"

section \<open>ValueImpl\<close>

datatype val_type = VT_INT | VT_VARCHAR | VT_FLOAT | VT_UNKNWON

text \<open>\<open>boost::variant<int64_t, std::string, double>\<close>.\<close>

datatype val_variant = VInt "64 word" | VStr string | VDouble "64 word"

record value_impl =
  vi_type :: val_type
  vi_value :: val_variant

definition ValueImpl_slice :: "string \<Rightarrow> value_impl" where
  "ValueImpl_slice s = \<lparr>vi_type = VT_VARCHAR, vi_value = VStr s\<rparr>"

definition ValueImpl_int :: "64 word \<Rightarrow> value_impl" where
  "ValueImpl_int v = \<lparr>vi_type = VT_INT, vi_value = VInt v\<rparr>"

definition ValueImpl_double :: "64 word \<Rightarrow> value_impl" where
  "ValueImpl_double v = \<lparr>vi_type = VT_FLOAT, vi_value = VDouble v\<rparr>"

definition ValueImpl_default :: value_impl where
  "ValueImpl_default = \<lparr>vi_type = VT_UNKNWON, vi_value = VInt 0\<rparr>"

definition is_int :: "value_impl \<Rightarrow> bool" where
  "is_int v \<longleftrightarrow> vi_type v = VT_INT"

definition is_varchar :: "value_impl \<Rightarrow> bool" where
  "is_varchar v \<longleftrightarrow> vi_type v = VT_VARCHAR"

definition is_float :: "value_impl \<Rightarrow> bool" where
  "is_float v \<longleftrightarrow> vi_type v = VT_FLOAT"

fun get_int :: "val_variant \<Rightarrow> 64 word res" where
  "get_int (VInt w) = Inr w"
| "get_int _ = Inl BadGet"

fun get_str :: "val_variant \<Rightarrow> string res" where
  "get_str (VStr s) = Inr s"
| "get_str _ = Inl BadGet"

fun get_double :: "val_variant \<Rightarrow> 64 word res" where
  "get_double (VDouble w) = Inr w"
| "get_double _ = Inl BadGet"

definition as_int :: "value_impl \<Rightarrow> 64 word res" where
  "as_int v = bindE (guardE (is_int v) AssertFailed) (\<lambda>_. get_int (vi_value v))"

definition as_varchar :: "value_impl \<Rightarrow> string res" where
  "as_varchar v = bindE (guardE (is_varchar v) AssertFailed) (\<lambda>_. get_str (vi_value v))"

definition as_float :: "value_impl \<Rightarrow> 64 word res" where
  "as_float v = bindE (guardE (is_float v) AssertFailed) (\<lambda>_. get_double (vi_value v))"

definition serialized_length :: "value_impl \<Rightarrow> nat res" where
  "serialized_length v =
     (case vi_type v of
        VT_INT \<Rightarrow> Inr 8
      | VT_VARCHAR \<Rightarrow> bindE (get_str (vi_value v)) (\<lambda>s. Inr (length s))
      | VT_FLOAT \<Rightarrow> Inr 8
      | VT_UNKNWON \<Rightarrow> Inl (RuntimeError ''unknown valtype''))"

text \<open>
  \<open>serialize(&buffer[off])\<close> and \<open>deserialize(&buffer[off], as)\<close>: the buffer is the
  whole region, so that writing past its end shows.
\<close>

definition serialize :: "value_impl \<Rightarrow> string \<Rightarrow> nat \<Rightarrow> string res" where
  "serialize v buffer off =
     (case vi_type v of
        VT_INT \<Rightarrow> bindE (get_int (vi_value v)) (\<lambda>w. buf_write buffer off (bytes_of_u64 w))
      | VT_VARCHAR \<Rightarrow>
          bindE (get_str (vi_value v)) (\<lambda>str.
          bindE (buf_write buffer off (bytes_of_u64 (of_nat (length str)))) (\<lambda>buffer.
          buf_write buffer (off + 8) str))
      | VT_FLOAT \<Rightarrow> bindE (get_double (vi_value v)) (\<lambda>w. buf_write buffer off (bytes_of_u64 w))
      | VT_UNKNWON \<Rightarrow> Inl (RuntimeError ''unknown valtype''))"

definition deserialize :: "string \<Rightarrow> nat \<Rightarrow> val_type \<Rightarrow> value_impl res" where
  "deserialize buffer off as =
     (case as of
        VT_INT \<Rightarrow> bindE (buf_read buffer off 8) (\<lambda>bs. Inr (ValueImpl_int (u64_of_bytes bs)))
      | VT_VARCHAR \<Rightarrow>
          bindE (buf_read buffer off 8) (\<lambda>bs.
          bindE (buf_read buffer (off + 8) (unat (u64_of_bytes bs))) (\<lambda>str.
          Inr (ValueImpl_slice str)))
      | VT_FLOAT \<Rightarrow> bindE (buf_read buffer off 8) (\<lambda>bs. Inr (ValueImpl_double (u64_of_bytes bs)))
      | VT_UNKNWON \<Rightarrow> Inl (RuntimeError ''unknown valtype''))"

fun variant_eq :: "val_variant \<Rightarrow> val_variant \<Rightarrow> bool" where
  "variant_eq (VInt a) (VInt b) = (a = b)"
| "variant_eq (VStr a) (VStr b) = (a = b)"
| "variant_eq (VDouble a) (VDouble b) = double_eq a b"
| "variant_eq _ _ = False"

definition ValueImpl_eq :: "value_impl \<Rightarrow> value_impl \<Rightarrow> bool" where
  "ValueImpl_eq v rhs \<longleftrightarrow> vi_type v = vi_type rhs \<and> variant_eq (vi_value v) (vi_value rhs)"

definition ValueImpl_dump :: "value_impl \<Rightarrow> string" where
  "ValueImpl_dump v =
     (case vi_value v of
        VInt w \<Rightarrow> show_int (sint w)
      | VStr s \<Rightarrow> [CHR 0x22] @ s @ [CHR 0x22]
      | VDouble w \<Rightarrow> show_double w)"

section \<open>MaybeValue\<close>

record maybe_value =
  mv_exists :: bool
  mv_value :: value_impl

definition MaybeValue_default :: maybe_value where
  "MaybeValue_default = \<lparr>mv_exists = False, mv_value = ValueImpl_default\<rparr>"

definition MaybeValue_slice :: "string \<Rightarrow> maybe_value" where
  "MaybeValue_slice s = \<lparr>mv_exists = True, mv_value = ValueImpl_slice s\<rparr>"

definition MaybeValue_int :: "64 word \<Rightarrow> maybe_value" where
  "MaybeValue_int v = \<lparr>mv_exists = True, mv_value = ValueImpl_int v\<rparr>"

definition mv_get :: "maybe_value \<Rightarrow> value_impl res" where
  "mv_get m = bindE (guardE (mv_exists m) AssertFailed) (\<lambda>_. Inr (mv_value m))"

definition mv_serialized_length :: "maybe_value \<Rightarrow> nat res" where
  "mv_serialized_length m =
     (if mv_exists m then bindE (serialized_length (mv_value m)) (\<lambda>n. Inr (1 + n)) else Inr 1)"

definition make_null :: "maybe_value \<Rightarrow> maybe_value" where
  "make_null m = m\<lparr>mv_exists := False, mv_value := ValueImpl_default\<rparr>"

definition mv_serialize :: "maybe_value \<Rightarrow> string \<Rightarrow> nat \<Rightarrow> string res" where
  "mv_serialize m buffer off =
     (if mv_exists m
      then bindE (buf_write buffer off [char_of (1 :: nat)]) (\<lambda>buffer.
           serialize (mv_value m) buffer (off + 1))
      else buf_write buffer off [char_of (0 :: nat)])"

definition mv_deserialize :: "maybe_value \<Rightarrow> string \<Rightarrow> nat \<Rightarrow> val_type \<Rightarrow> maybe_value res" where
  "mv_deserialize m buffer off as =
     bindE (buf_read buffer off 1) (\<lambda>b.
     if b = [char_of (1 :: nat)]
     then bindE (deserialize buffer (off + 1) as) (\<lambda>v. Inr (m\<lparr>mv_exists := True, mv_value := v\<rparr>))
     else Inr (m\<lparr>mv_exists := False\<rparr>))"

definition mv_assign :: "maybe_value \<Rightarrow> value_impl \<Rightarrow> maybe_value" where
  "mv_assign m rhs = m\<lparr>mv_exists := True, mv_value := rhs\<rparr>"

definition mv_eq :: "maybe_value \<Rightarrow> maybe_value \<Rightarrow> bool" where
  "mv_eq m rhs \<longleftrightarrow>
     (if mv_exists m \<noteq> mv_exists rhs then False
      else if \<not> mv_exists m then True
      else ValueImpl_eq (mv_value m) (mv_value rhs))"

definition mv_dump :: "maybe_value \<Rightarrow> string" where
  "mv_dump m = (if \<not> mv_exists m then ''(null)'' else ValueImpl_dump (mv_value m))"

section \<open>Shared values\<close>

text \<open>
  \<open>Value\<close> holds a \<open>shared_ptr<ValueImpl>\<close>: a store of objects and, for a value, its
  address. The constructors allocate; the copy constructor (the compiler's own) copies the
  pointer; the three assignments write through it.
\<close>

record vstore =
  vs_next :: nat
  vs_cell :: "nat \<Rightarrow> value_impl"

definition vs_empty :: vstore where
  "vs_empty = \<lparr>vs_next = 0, vs_cell = (\<lambda>_. ValueImpl_default)\<rparr>"

definition Value_new :: "value_impl \<Rightarrow> vstore \<Rightarrow> nat \<times> vstore" where
  "Value_new v s = (vs_next s, s\<lparr>vs_next := vs_next s + 1, vs_cell := (vs_cell s)(vs_next s := v)\<rparr>)"

definition Value_copy :: "nat \<Rightarrow> vstore \<Rightarrow> nat \<times> vstore" where
  "Value_copy a s = (a, s)"

definition Value_assign :: "nat \<Rightarrow> nat \<Rightarrow> vstore \<Rightarrow> vstore" where
  "Value_assign a rhs s = s\<lparr>vs_cell := (vs_cell s)(a := vs_cell s rhs)\<rparr>"

definition Value_assign_int :: "nat \<Rightarrow> 64 word \<Rightarrow> vstore \<Rightarrow> vstore" where
  "Value_assign_int a v s = s\<lparr>vs_cell := (vs_cell s)(a := ValueImpl_int v)\<rparr>"

definition Value_assign_string :: "nat \<Rightarrow> string \<Rightarrow> vstore \<Rightarrow> vstore" where
  "Value_assign_string a v s = s\<lparr>vs_cell := (vs_cell s)(a := ValueImpl_slice v)\<rparr>"

section \<open>Byte images\<close>

text \<open>
  The tag and the variant agree, except in the default-constructed value. The byte image of
  a value is what \<open>serialize\<close> stores; a string is preceded by its length.
\<close>

fun variant_type :: "val_variant \<Rightarrow> val_type" where
  "variant_type (VInt _) = VT_INT"
| "variant_type (VStr _) = VT_VARCHAR"
| "variant_type (VDouble _) = VT_FLOAT"

definition value_wf :: "value_impl \<Rightarrow> bool" where
  "value_wf v \<longleftrightarrow> vi_type v = VT_UNKNWON \<or> vi_type v = variant_type (vi_value v)"

fun variant_bytes :: "val_variant \<Rightarrow> string" where
  "variant_bytes (VInt w) = bytes_of_u64 w"
| "variant_bytes (VStr s) = bytes_of_u64 (of_nat (length s)) @ s"
| "variant_bytes (VDouble w) = bytes_of_u64 w"

definition value_bytes :: "value_impl \<Rightarrow> string" where
  "value_bytes v = variant_bytes (vi_value v)"

fun size_t_ok :: "val_variant \<Rightarrow> bool" where
  "size_t_ok (VStr s) = (length s < 2 ^ 64)"
| "size_t_ok _ = True"

definition value_ok :: "val_type \<Rightarrow> value_impl \<Rightarrow> bool" where
  "value_ok t v \<longleftrightarrow> vi_type v = t \<and> t = variant_type (vi_value v) \<and> size_t_ok (vi_value v)"

definition mv_bytes :: "maybe_value \<Rightarrow> string" where
  "mv_bytes m =
     (if mv_exists m then char_of (1 :: nat) # value_bytes (mv_value m) else [char_of (0 :: nat)])"

section \<open>Facts\<close>

lemmas value_ctor_defs =
  ValueImpl_slice_def ValueImpl_int_def ValueImpl_double_def ValueImpl_default_def

lemma value_wf_ctors [simp]:
  "value_wf (ValueImpl_slice s)" "value_wf (ValueImpl_int w)" "value_wf (ValueImpl_double w)"
  "value_wf ValueImpl_default"
  by (simp_all add: value_ctor_defs value_wf_def)

lemma deserialize_wf: "deserialize buffer off t = Inr v \<Longrightarrow> value_wf v \<and> vi_type v = t"
  by (auto simp: deserialize_def value_ctor_defs value_wf_def bindE_eq_Inr_iff split: val_type.splits)

lemma value_okE:
  assumes "value_ok t v"
  obtains (int) w where "v = ValueImpl_int w" "t = VT_INT"
    | (str) s where "v = ValueImpl_slice s" "t = VT_VARCHAR" "length s < 2 ^ 64"
    | (dbl) w where "v = ValueImpl_double w" "t = VT_FLOAT"
  using assms by (cases v; cases "vi_value v") (auto simp: value_ok_def value_ctor_defs)

lemma serialize_bytes: "value_ok t v \<Longrightarrow> serialize v buffer off = buf_write buffer off (value_bytes v)"
  by (elim value_okE)
     (simp_all add: serialize_def value_bytes_def value_ctor_defs flip: buf_write_append)

lemma deserialize_bytes:
  assumes "value_ok t v" "buf_read buffer off (length (value_bytes v)) = Inr (value_bytes v)"
  shows "deserialize buffer off t = Inr v"
  using assms(1)
proof (cases rule: value_okE)
  case (str s)
  from assms(2) str have
    "buf_read buffer off (length (bytes_of_u64 (of_nat (length s))) + length s) =
     Inr (bytes_of_u64 (of_nat (length s)) @ s)"
    by (simp add: value_bytes_def ValueImpl_slice_def)
  from buf_read_append [OF this] str show ?thesis
    by (simp add: deserialize_def unat_of_nat_u64)
qed (use assms(2) in \<open>simp_all add: deserialize_def value_bytes_def value_ctor_defs\<close>)

interpretation value_codec: codec "value_ok t" value_bytes serialize
  "\<lambda>buffer off. deserialize buffer off t" for t
  by unfold_locales (simp_all add: serialize_bytes deserialize_bytes)

text \<open>\<open>MaybeValue\<close>: a null is stored as one byte and read back as a null with whatever value the target held.\<close>

definition mv_ok :: "val_type \<Rightarrow> value_impl \<Rightarrow> maybe_value \<Rightarrow> bool" where
  "mv_ok t v0 m \<longleftrightarrow> (if mv_exists m then value_ok t (mv_value m) else mv_value m = v0)"

lemma mv_serialize_bytes:
  "mv_ok t v0 m \<Longrightarrow> mv_serialize m buffer off = buf_write buffer off (mv_bytes m)"
  using buf_write_append [of buffer off "[char_of (1 :: nat)]" "value_bytes (mv_value m)"]
  by (auto simp: mv_ok_def mv_serialize_def mv_bytes_def serialize_bytes split: if_splits)

lemma mv_deserialize_bytes:
  assumes "mv_ok t (mv_value m0) m" "buf_read buffer off (length (mv_bytes m)) = Inr (mv_bytes m)"
  shows "mv_deserialize m0 buffer off t = Inr m"
proof (cases "mv_exists m")
  case True
  with assms(2) have "buf_read buffer off (length [char_of (1 :: nat) :: char] + length (value_bytes (mv_value m))) =
      Inr ([char_of (1 :: nat)] @ value_bytes (mv_value m))"
    by (simp add: mv_bytes_def)
  from buf_read_append [OF this] True assms(1) show ?thesis
    by (simp add: mv_deserialize_def mv_ok_def deserialize_bytes)
next
  case False
  with assms show ?thesis
    by (simp add: mv_deserialize_def mv_ok_def mv_bytes_def)
qed

interpretation maybe_codec: codec "mv_ok t (mv_value m0)" mv_bytes mv_serialize
  "\<lambda>buffer off. mv_deserialize m0 buffer off t" for t m0
  by unfold_locales (simp_all add: mv_serialize_bytes mv_deserialize_bytes)

section \<open>Properties\<close>

text \<open>
  C21. Serialising a value of a known type into a buffer with room for its byte image and
  deserialising it at the same place, as the same type, gives the value back; bytes outside
  the image are untouched. The room needed is exactly the image: eight bytes for a number,
  eight bytes and the characters for a string.
\<close>

theorem value_serialize_roundtrip:
  assumes "value_ok t v"
  shows "((\<exists>buffer'. serialize v buffer off = Inr buffer') \<longleftrightarrow> off + length (value_bytes v) \<le> length buffer) \<and>
    (\<forall>buffer'. serialize v buffer off = Inr buffer' \<longrightarrow>
       deserialize buffer' off t = Inr v \<and> length buffer' = length buffer \<and>
       (\<forall>i n. i + n \<le> off \<or> off + length (value_bytes v) \<le> i \<longrightarrow> buf_read buffer' i n = buf_read buffer i n))"
  using value_codec.enc_fits_iff [OF assms] value_codec.enc_dec [OF assms]
    value_codec.enc_length [OF assms] value_codec.enc_frame [OF assms] by simp

theorem value_serialize_roundtrip_witness:
  "serialize (ValueImpl_slice ''ab'') (replicate 12 (CHR ''.'')) 1 =
     Inr ([CHR ''.'', CHR 0x02, CHR 0x00, CHR 0x00, CHR 0x00, CHR 0x00, CHR 0x00, CHR 0x00, CHR 0x00] @ ''ab.'') \<and>
   deserialize ([CHR ''.'', CHR 0x02, CHR 0x00, CHR 0x00, CHR 0x00, CHR 0x00, CHR 0x00, CHR 0x00, CHR 0x00] @ ''ab.'') 1 VT_VARCHAR = Inr (ValueImpl_slice ''ab'')"
proof -
  have ok: "value_ok VT_VARCHAR (ValueImpl_slice ''ab'')"
    by (simp add: value_ok_def ValueImpl_slice_def)
  have ser: "serialize (ValueImpl_slice ''ab'') (replicate 12 (CHR ''.'')) 1 =
      Inr ([CHR ''.'', CHR 0x02, CHR 0x00, CHR 0x00, CHR 0x00, CHR 0x00, CHR 0x00, CHR 0x00, CHR 0x00] @ ''ab.'')"
    by (simp add: serialize_def ValueImpl_slice_def bytes_of_u64_def buf_write_def char_of_def bit_Suc_0_iff)
  with value_serialize_roundtrip [OF ok] show ?thesis by blast
qed

text \<open>
  The length a string value reports (\<open>serialized_length\<close>) is eight less than what
  \<open>serialize\<close> stores: in a buffer of the reported length, serialising any string leaves the
  buffer. For integers and doubles the two agree.
\<close>

theorem serialized_length_too_short:
  "serialized_length (ValueImpl_slice s) = Inr (length s) \<and>
   length (value_bytes (ValueImpl_slice s)) = length s + 8 \<and>
   serialize (ValueImpl_slice s) (replicate (length s) c) 0 = Inl Undefined \<and>
   serialized_length (ValueImpl_int w) = Inr (length (value_bytes (ValueImpl_int w))) \<and>
   serialized_length (ValueImpl_double w) = Inr (length (value_bytes (ValueImpl_double w)))"
  by (simp add: value_ctor_defs serialized_length_def value_bytes_def serialize_def buf_write_def)

text \<open>
  \<open>MaybeValue\<close>: a present value of a known type and a null both survive
  \<open>serialize\<close> followed by \<open>deserialize\<close> into any target; the result compares equal to
  the original unless it is a NaN.
\<close>

theorem maybe_value_roundtrip:
  assumes "mv_exists m \<Longrightarrow> value_ok t (mv_value m)"
    and "mv_serialize m buffer off = Inr buffer'"
  shows "\<exists>m'. mv_deserialize m0 buffer' off t = Inr m' \<and> mv_exists m' = mv_exists m \<and>
    (mv_exists m \<longrightarrow> m' = m) \<and>
    ((\<forall>w. vi_value (mv_value m) = VDouble w \<longrightarrow> \<not> double_is_nan w) \<longrightarrow> mv_eq m' m)"
proof -
  let ?m = "if mv_exists m then m else \<lparr>mv_exists = False, mv_value = mv_value m0\<rparr>"
  have ok: "mv_ok t (mv_value m0) ?m" using assms(1) by (simp add: mv_ok_def)
  have "mv_serialize ?m buffer off = Inr buffer'"
    using assms(2) by (simp add: mv_serialize_def split: if_splits)
  from maybe_codec.enc_dec [OF ok this] have "mv_deserialize m0 buffer' off t = Inr ?m" .
  moreover have "variant_eq (vi_value (mv_value m)) (vi_value (mv_value m))"
    if "\<forall>w. vi_value (mv_value m) = VDouble w \<longrightarrow> \<not> double_is_nan w"
    using that by (cases "vi_value (mv_value m)") (auto simp: double_eq_def)
  ultimately show ?thesis by (simp add: mv_eq_def ValueImpl_eq_def)
qed

theorem maybe_value_roundtrip_witness:
  "\<exists>buffer'. mv_serialize (MaybeValue_int 7) (replicate 9 (CHR 0x00)) 0 = Inr buffer' \<and>
     mv_deserialize MaybeValue_default buffer' 0 VT_INT = Inr (MaybeValue_int 7)"
proof -
  have ok: "value_ok VT_INT (mv_value (MaybeValue_int 7))"
    by (simp add: value_ok_def MaybeValue_int_def ValueImpl_int_def)
  obtain b where b: "mv_serialize (MaybeValue_int 7) (replicate 9 (CHR 0x00)) 0 = Inr b"
    by (simp add: mv_serialize_def MaybeValue_int_def ValueImpl_int_def serialize_def buf_write_def)
  have "mv_exists (MaybeValue_int 7)" by (simp add: MaybeValue_int_def)
  with maybe_value_roundtrip [OF ok b] b show ?thesis by fastforce
qed



end
