(* ===== verification/Reir_Attribute.thy ===== *)
theory Reir_Attribute
  imports Reir_Value
begin

unbundle bit_operations_syntax

text \<open>
  Column types and columns, \<^verbatim>\<open>src/reir/db/attr_type.hpp\<close>, \<^verbatim>\<open>attr_type.cpp\<close>,
  \<^verbatim>\<open>attribute.hpp\<close> and \<^verbatim>\<open>attribute.cpp\<close>: the cell encoding, the fixed sizes
  the code generator uses, and the textual form stored with the table metadata. The two
  enumerations are kept as words of their underlying types, since reading them back is a
  cast of an arbitrary number.
\<close>

section \<open>AttrType\<close>

definition AT_INTEGER :: "64 word" where "AT_INTEGER = 0"
definition AT_DOUBLE :: "64 word" where "AT_DOUBLE = 1"
definition AT_STRING :: "64 word" where "AT_STRING = 2"
definition AT_DATE :: "64 word" where "AT_DATE = 3"
definition AT_UNKNOWN :: "64 word" where "AT_UNKNOWN = 4"

lemmas AT_defs = AT_INTEGER_def AT_DOUBLE_def AT_STRING_def AT_DATE_def AT_UNKNOWN_def

record attr_type =
  at_type :: "64 word"
  at_param :: "64 word"

definition AttrType_of_string :: "string \<Rightarrow> attr_type" where
  "AttrType_of_string t =
     (if t = ''int'' then \<lparr>at_type = AT_INTEGER, at_param = 0\<rparr>
      else if t = ''string'' then \<lparr>at_type = AT_STRING, at_param = 16\<rparr>
      else \<lparr>at_type = AT_UNKNOWN, at_param = 0\<rparr>)"

definition at_fixed_length :: "attr_type \<Rightarrow> bool" where
  "at_fixed_length a \<longleftrightarrow> at_type a \<noteq> AT_STRING \<or> at_param a \<noteq> 0"

definition is_integer :: "attr_type \<Rightarrow> bool" where
  "is_integer a \<longleftrightarrow> at_type a = AT_INTEGER"

definition at_default_size :: "attr_type \<Rightarrow> 64 word res" where
  "at_default_size a =
     (if at_type a = AT_INTEGER then Inr 8
      else if at_type a = AT_STRING then Inr (at_param a)
      else if at_type a = AT_DATE then Inr 8
      else if at_type a = AT_DOUBLE then Inr 8
      else Inl (RuntimeError (''unknown type:'' @ show_nat (unat (at_type a)))))"

definition at_encoded_length :: "attr_type \<Rightarrow> value_impl \<Rightarrow> nat res" where
  "at_encoded_length a v =
     (if at_type a = AT_INTEGER then Inr 8
      else if at_type a = AT_STRING
      then if is_varchar v then bindE (as_varchar v) (\<lambda>str. Inr (length str))
           else Inl (RuntimeError ''tuple is not string type'')
      else Inl (RuntimeError ''UNKNOWN Type cant be encoded''))"

definition at_encode :: "attr_type \<Rightarrow> value_impl \<Rightarrow> string \<Rightarrow> nat \<Rightarrow> string res" where
  "at_encode a v buffer off =
     (if at_type a = AT_INTEGER
      then if \<not> is_int v then Inl (RuntimeError ''tuple type unmatch, int is expected'')
           else bindE (as_int v) (\<lambda>data. buf_write buffer off (bytes_of_u64 data))
      else if at_type a = AT_STRING
      then if \<not> is_varchar v then Inl (RuntimeError ''tuple type unmatch, varchar is expected'')
           else bindE (as_varchar v) (\<lambda>data.
                bindE (buf_write buffer off (bytes_of_u64 (of_nat (length data)))) (\<lambda>buffer.
                buf_write buffer (off + 8) data))
      else Inl (RuntimeError ''encoding unimplementd yet''))"

definition at_decode :: "attr_type \<Rightarrow> string \<Rightarrow> nat \<Rightarrow> value_impl res" where
  "at_decode a buffer off =
     (if at_type a = AT_INTEGER
      then bindE (buf_read buffer off 8) (\<lambda>data. Inr (ValueImpl_int (u64_of_bytes data)))
      else if at_type a = AT_STRING
      then bindE (buf_read buffer off 8) (\<lambda>len.
           bindE (buf_read buffer (off + 8) (unat (u64_of_bytes len))) (\<lambda>str.
           Inr (ValueImpl_slice str)))
      else Inl (RuntimeError ''decoding unimplementd yet''))"

definition at_show :: "attr_type \<Rightarrow> string" where
  "at_show a =
     (if at_type a = AT_INTEGER then ''(int)''
      else if at_type a = AT_STRING then ''(str('' @ show_nat (unat (at_param a)) @ ''))''
      else ''(unknown)'')"

definition at_serialize :: "attr_type \<Rightarrow> string" where
  "at_serialize a = ''('' @ show_nat (unat (at_type a)) @ '' '' @ show_nat (unat (at_param a)) @ '')''"

text \<open>
  Reading a stream with \<open>istreambuf_iterator\<close>: the characters before the next \<open>c\<close>, and
  the stream after it. The loops have no end-of-stream test that can succeed (the iterator
  never sets the stream's \<open>eofbit\<close>), so a missing \<open>c\<close> moves the iterator past the end,
  which is undefined.
\<close>

fun stream_until :: "char \<Rightarrow> string \<Rightarrow> (string \<times> string) res" where
  "stream_until c [] = Inl Undefined"
| "stream_until c (x # xs) =
     (if x = c then Inr ([], xs)
      else bindE (stream_until c xs) (\<lambda>(pre, rest). Inr (x # pre, rest)))"

definition at_deserialize :: "string \<Rightarrow> (attr_type \<times> string) res" where
  "at_deserialize s =
     bindE (stream_until (CHR ''('') s) (\<lambda>(_, s).
     bindE (stream_until (CHR '' '') s) (\<lambda>(t, s).
     bindE (stoll t) (\<lambda>ty.
     bindE (stream_until (CHR '')'') s) (\<lambda>(p, s).
     bindE (stoll p) (\<lambda>param.
     Inr (\<lparr>at_type = word_of_int ty, at_param = word_of_int param\<rparr>, s))))))"

section \<open>Attribute\<close>

definition PROP_NONE :: "32 word" where "PROP_NONE = 0"
definition PROP_NULLABLE :: "32 word" where "PROP_NULLABLE = 1"
definition PROP_KEY :: "32 word" where "PROP_KEY = 2"
definition PROP_UNIQUE :: "32 word" where "PROP_UNIQUE = 4"

lemmas PROP_defs = PROP_NONE_def PROP_NULLABLE_def PROP_KEY_def PROP_UNIQUE_def

record attribute =
  attr_name :: string
  attr_ty :: attr_type
  attr_prop :: "32 word"

definition Attribute_default :: attribute where
  "Attribute_default =
     \<lparr>attr_name = [], attr_ty = AttrType_of_string ''unknown'', attr_prop = PROP_NONE\<rparr>"

definition attr_fixed_length :: "attribute \<Rightarrow> bool" where
  "attr_fixed_length a = at_fixed_length (attr_ty a)"

definition attr_is_key :: "attribute \<Rightarrow> bool" where
  "attr_is_key a \<longleftrightarrow> attr_prop a AND PROP_KEY \<noteq> 0"

text \<open>The \<open>+ 1\<close> is done on \<open>size_t\<close>.\<close>

definition attr_default_size :: "attribute \<Rightarrow> 64 word res" where
  "attr_default_size a =
     (if attr_prop a AND PROP_NULLABLE \<noteq> 0
      then bindE (at_default_size (attr_ty a)) (\<lambda>n. Inr (n + 1))
      else at_default_size (attr_ty a))"

definition attr_encoded_length :: "attribute \<Rightarrow> maybe_value \<Rightarrow> nat res" where
  "attr_encoded_length a m =
     (if attr_prop a = PROP_NULLABLE
      then if \<not> mv_exists m then Inr 1
           else bindE (mv_get m) (\<lambda>v. bindE (at_encoded_length (attr_ty a) v) (\<lambda>n. Inr (1 + n)))
      else if \<not> mv_exists m then Inl (RuntimeError ''NON-Nullable cell was null'')
           else bindE (mv_get m) (\<lambda>v. at_encoded_length (attr_ty a) v))"

definition attr_encode :: "attribute \<Rightarrow> maybe_value \<Rightarrow> string \<Rightarrow> nat \<Rightarrow> string res" where
  "attr_encode a m buffer off =
     (if attr_prop a = PROP_NULLABLE
      then if mv_exists m
           then bindE (buf_write buffer off [char_of (1 :: nat)]) (\<lambda>buffer.
                bindE (mv_get m) (\<lambda>v. at_encode (attr_ty a) v buffer (off + 1)))
           else Inr buffer
      else if mv_exists m
           then bindE (mv_get m) (\<lambda>v. at_encode (attr_ty a) v buffer off)
           else Inl (RuntimeError ''tuple value must be set''))"

definition attr_decode :: "attribute \<Rightarrow> string \<Rightarrow> nat \<Rightarrow> maybe_value \<Rightarrow> maybe_value res" where
  "attr_decode a buffer off m =
     (if attr_prop a = PROP_NULLABLE
      then bindE (buf_read buffer off 1) (\<lambda>b.
           if b = [char_of (0 :: nat)] then Inr (make_null m)
           else bindE (at_decode (attr_ty a) buffer (off + 1)) (\<lambda>v. Inr (mv_assign m v)))
      else bindE (at_decode (attr_ty a) buffer off) (\<lambda>v. Inr (mv_assign m v)))"

definition attr_serialize :: "attribute \<Rightarrow> string" where
  "attr_serialize a =
     ''('' @ attr_name a @ '' '' @ at_serialize (attr_ty a) @ '' '' @
     show_nat (unat (attr_prop a)) @ '')''"

definition attr_deserialize :: "string \<Rightarrow> (attribute \<times> string) res" where
  "attr_deserialize s =
     bindE (stream_until (CHR ''('') s) (\<lambda>(_, s).
     bindE (stream_until (CHR '' '') s) (\<lambda>(n, s).
     bindE (at_deserialize s) (\<lambda>(ty, s).
     bindE (stream_until (CHR '')'') s) (\<lambda>(p, s).
     bindE (stoll p) (\<lambda>prop.
     Inr (\<lparr>attr_name = n, attr_ty = ty, attr_prop = word_of_int prop\<rparr>, s))))))"

definition attr_eq :: "attribute \<Rightarrow> attribute \<Rightarrow> bool" where
  "attr_eq a rhs \<longleftrightarrow>
     attr_name a = attr_name rhs \<and>
     (at_type (attr_ty a) = at_type (attr_ty rhs) \<and> at_param (attr_ty a) = at_param (attr_ty rhs)) \<and>
     attr_prop a = attr_prop rhs"

definition attr_show :: "attribute \<Rightarrow> string" where
  "attr_show a =
     at_show (attr_ty a) @ attr_name a @
     (if attr_prop a AND PROP_NONE \<noteq> 0 then '' NONE'' else []) @
     (if attr_prop a AND PROP_NULLABLE \<noteq> 0 then '' NULLABLE'' else []) @
     (if attr_prop a AND PROP_KEY \<noteq> 0 then '' KEY'' else []) @
     (if attr_prop a AND PROP_UNIQUE \<noteq> 0 then '' UNIQUE'' else [])"

section \<open>Facts on the textual form\<close>

lemma stream_until_found: "c \<notin> set pre \<Longrightarrow> stream_until c (pre @ c # rest) = Inr (pre, rest)"
  by (induction pre) auto

lemma stream_until_length: "stream_until c s = Inr (pre, rest) \<Longrightarrow> length rest < length s"
  by (induction s arbitrary: pre) (force split: if_splits simp: bindE_eq_Inr_iff)+

lemma show_nat_no_delim: "c \<in> {CHR '' '', CHR ''('', CHR '')''} \<Longrightarrow> c \<notin> set (show_nat n)"
  using show_nat_digits [of n] by (auto simp: list_all_iff is_digit_def)

lemma stoll_show_unat:
  "unat w < 2 ^ 63 \<Longrightarrow> stoll (show_nat (unat w)) = Inr (uint w)"
  "unat w < 2 ^ 63 \<Longrightarrow> stoll (CHR '' '' # show_nat (unat w)) = Inr (uint w)"
proof -
  assume "unat w < 2 ^ 63"
  then have "int (unat w) < 2 ^ 63" by (metis of_nat_less_iff of_nat_numeral of_nat_power)
  from stoll_show_nat [OF this] stoll_space_show_nat [OF this]
  show "stoll (show_nat (unat w)) = Inr (uint w)" "stoll (CHR '' '' # show_nat (unat w)) = Inr (uint w)"
    by simp_all
qed

lemma at_deserialize_serialize:
  assumes "unat (at_type a) < 2 ^ 63" "unat (at_param a) < 2 ^ 63"
  shows "at_deserialize (at_serialize a @ rest) = Inr (a, rest)"
  using assms
  by (simp add: at_deserialize_def at_serialize_def stream_until_found show_nat_no_delim stoll_show_unat)

lemma attr_deserialize_serialize:
  assumes "CHR '' '' \<notin> set (attr_name a)" "unat (at_type (attr_ty a)) < 2 ^ 63" "unat (at_param (attr_ty a)) < 2 ^ 63"
  shows "attr_deserialize (attr_serialize a @ rest) = Inr (a, rest)"
proof -
  have "unat (attr_prop a) < 2 ^ 32" using unsigned_less [of "attr_prop a"] by simp
  then have p: "stoll (CHR '' '' # show_nat (unat (attr_prop a))) = Inr (uint (attr_prop a))"
    by (simp add: stoll_show_unat)
  have u: "stream_until (CHR '')'') (CHR '' '' # show_nat (unat (attr_prop a)) @ CHR '')'' # rest) =
      Inr (CHR '' '' # show_nat (unat (attr_prop a)), rest)"
    using stream_until_found [of "CHR '')''" "CHR '' '' # show_nat (unat (attr_prop a))" rest]
    by (simp add: show_nat_no_delim)
  show ?thesis
    using at_deserialize_serialize [OF assms(2,3)] p u assms(1)
    by (simp add: attr_deserialize_def attr_serialize_def stream_until_found)
qed

lemma attr_deserialize_length: "attr_deserialize s = Inr (a, rest) \<Longrightarrow> length rest < length s"
  by (auto simp: attr_deserialize_def at_deserialize_def bindE_eq_Inr_iff dest!: stream_until_length)

section \<open>Facts on the cell encoding\<close>

text \<open>The cells the encoders accept, and their byte images.\<close>

definition at_ok :: "attr_type \<Rightarrow> value_impl \<Rightarrow> bool" where
  "at_ok a v \<longleftrightarrow>
     at_type a = AT_INTEGER \<and> value_ok VT_INT v \<or> at_type a = AT_STRING \<and> value_ok VT_VARCHAR v"

definition attr_ok :: "attribute \<Rightarrow> maybe_value \<Rightarrow> bool" where
  "attr_ok a m \<longleftrightarrow> mv_exists m \<and> at_ok (attr_ty a) (mv_value m)"

definition attr_bytes :: "attribute \<Rightarrow> maybe_value \<Rightarrow> string" where
  "attr_bytes a m =
     (if attr_prop a = PROP_NULLABLE then [char_of (1 :: nat)] else []) @ value_bytes (mv_value m)"

lemma at_okE:
  assumes "at_ok a v"
  obtains (int) w where "at_type a = AT_INTEGER" "v = ValueImpl_int w"
    | (str) s where "at_type a = AT_STRING" "v = ValueImpl_slice s" "length s < 2 ^ 64"
  using assms by (auto simp: at_ok_def elim: value_okE)

lemma value_type_tests [simp]:
  "is_int (ValueImpl_int w)" "\<not> is_int (ValueImpl_slice s)"
  "is_varchar (ValueImpl_slice s)" "\<not> is_varchar (ValueImpl_int w)"
  "as_int (ValueImpl_int w) = Inr w" "as_varchar (ValueImpl_slice s) = Inr s"
  by (simp_all add: is_int_def is_varchar_def as_int_def as_varchar_def value_ctor_defs)

lemma at_encode_eq_serialize: "at_ok a v \<Longrightarrow> at_encode a v buffer off = serialize v buffer off"
  by (elim at_okE) (simp_all add: at_encode_def serialize_def AT_defs, simp_all add: value_ctor_defs)

lemma at_encode_bytes: "at_ok a v \<Longrightarrow> at_encode a v buffer off = buf_write buffer off (value_bytes v)"
  by (auto simp: at_encode_eq_serialize at_ok_def serialize_bytes)

lemma at_decode_eq_deserialize:
  "at_type a = AT_INTEGER \<Longrightarrow> at_decode a buffer off = deserialize buffer off VT_INT"
  "at_type a = AT_STRING \<Longrightarrow> at_decode a buffer off = deserialize buffer off VT_VARCHAR"
  by (simp_all add: at_decode_def deserialize_def AT_defs)

lemma at_decode_bytes:
  assumes "at_ok a v" "buf_read buffer off (length (value_bytes v)) = Inr (value_bytes v)"
  shows "at_decode a buffer off = Inr v"
  using assms by (auto simp: at_ok_def at_decode_eq_deserialize deserialize_bytes)

interpretation type_codec: codec "at_ok a" value_bytes "at_encode a" "at_decode a" for a
  by unfold_locales (simp_all add: at_encode_bytes at_decode_bytes)

lemma attr_encode_bytes: "attr_ok a m \<Longrightarrow> attr_encode a m buffer off = buf_write buffer off (attr_bytes a m)"
  using buf_write_append [of buffer off "[char_of (1 :: nat)]" "value_bytes (mv_value m)"]
  by (auto simp: attr_ok_def attr_encode_def attr_bytes_def mv_get_def at_encode_bytes)

lemma attr_decode_bytes:
  assumes "attr_ok a m" "buf_read buffer off (length (attr_bytes a m)) = Inr (attr_bytes a m)"
  shows "attr_decode a buffer off m0 = Inr m"
proof (cases "attr_prop a = PROP_NULLABLE")
  case True
  with assms(2) have "buf_read buffer off (length [char_of (1 :: nat) :: char] + length (value_bytes (mv_value m))) =
      Inr ([char_of (1 :: nat)] @ value_bytes (mv_value m))"
    by (simp add: attr_bytes_def)
  note r = buf_read_append [OF this]
  have "at_decode (attr_ty a) buffer (off + 1) = Inr (mv_value m)"
    using assms(1) r(2) by (intro at_decode_bytes) (simp_all add: attr_ok_def)
  with r(1) True assms(1) show ?thesis
    by (simp add: attr_decode_def attr_ok_def mv_assign_def char_of_eq_iff)
next
  case False
  with assms have "at_decode (attr_ty a) buffer off = Inr (mv_value m)"
    by (intro at_decode_bytes) (simp_all add: attr_ok_def attr_bytes_def)
  with False assms(1) show ?thesis
    by (simp add: attr_decode_def attr_ok_def mv_assign_def)
qed

interpretation attr_codec: codec "attr_ok a" "attr_bytes a" "attr_encode a"
  "\<lambda>buffer off. attr_decode a buffer off m0" for a m0
  by unfold_locales (simp_all add: attr_encode_bytes attr_decode_bytes)

lemma attr_encoded_length_eq:
  assumes "attr_ok a m"
  shows "attr_encoded_length a m =
    Inr (if is_integer (attr_ty a) then length (attr_bytes a m) else length (attr_bytes a m) - 8)"
  using assms unfolding attr_ok_def
  by (auto simp: attr_encoded_length_def attr_bytes_def mv_get_def at_encoded_length_def
      is_integer_def value_bytes_def AT_defs elim!: at_okE, auto simp: value_ctor_defs)

end
