(* ===== verification/Reir_Ast.thy ===== *)
theory Reir_Ast
  imports Reir_Attribute
begin

text \<open>
  The syntax tree of \<^verbatim>\<open>src/reir/exec/ast_node.hpp\<close>, \<^verbatim>\<open>ast_expression.hpp\<close> and
  \<^verbatim>\<open>ast_statement.hpp\<close>: types, operators, expressions (each with its \<open>type_\<close> pointer,
  null until analysis), statements, their textual dump and the two traversals
  \<open>each_value\<close> and \<open>each_statement\<close>. Nodes own their children, so a tree of values
  stands for the object graph; a pointer that may be null is an \<open>option\<close>, and a member
  a constructor may leave unset is a \<open>slot\<close>. Traversals give the list of nodes the
  callback is called on, in order.
\<close>

section \<open>Kinds, operators and types\<close>

datatype 'a slot = Uninit | Null | Ref 'a

datatype node_kind =
    ND_None
  | ND_EXPRESSION_FIRST | ND_Primary | ND_Binary | ND_Pointer | ND_Row | ND_Array
  | ND_Variable | ND_Func | ND_ArrayRef | ND_MemberRef | ND_Assign | ND_EXPRESSION_LAST
  | ND_STATEMENT_FIRST | ND_Block | ND_Define | ND_Emit | ND_ExprStatement | ND_For
  | ND_DefineTuple | ND_If | ND_Jump | ND_Insert | ND_Scan | ND_Let | ND_Transaction
  | ND_STATEMENT_LAST

definition node_kinds :: "node_kind list" where
  "node_kinds =
     [ND_None,
      ND_EXPRESSION_FIRST, ND_Primary, ND_Binary, ND_Pointer, ND_Row, ND_Array,
      ND_Variable, ND_Func, ND_ArrayRef, ND_MemberRef, ND_Assign, ND_EXPRESSION_LAST,
      ND_STATEMENT_FIRST, ND_Block, ND_Define, ND_Emit, ND_ExprStatement, ND_For,
      ND_DefineTuple, ND_If, ND_Jump, ND_Insert, ND_Scan, ND_Let, ND_Transaction,
      ND_STATEMENT_LAST]"

fun index_of :: "'a list \<Rightarrow> 'a \<Rightarrow> nat" where
  "index_of [] x = 0"
| "index_of (y # ys) x = (if x = y then 0 else Suc (index_of ys x))"

definition kind_index :: "node_kind \<Rightarrow> nat" where
  "kind_index k = index_of node_kinds k"

datatype operators =
    OP_PLUS | OP_MINUS | OP_MULTIPLE | OP_DIVISION | OP_EQUAL | OP_MODULO | OP_LESSTHAN
  | OP_LESSEQUAL | OP_MORETHAN | OP_MOREEQUAL | OP_NOTEQUAL | OP_CONDITIONAL_AND
  | OP_CONDITIONAL_OR | OP_NONE

definition operators_list :: "operators list" where
  "operators_list =
     [OP_PLUS, OP_MINUS, OP_MULTIPLE, OP_DIVISION, OP_EQUAL, OP_MODULO, OP_LESSTHAN,
      OP_LESSEQUAL, OP_MORETHAN, OP_MOREEQUAL, OP_NOTEQUAL, OP_CONDITIONAL_AND,
      OP_CONDITIONAL_OR, OP_NONE]"

definition op_names :: "string list" where
  "op_names =
     [''PLUS'', ''MINUS'', ''MULTIPLE'', ''DIVISION'', ''EQUAL'', ''MODULO'', ''LESSTHAN'',
      ''LESSEQUAL'', ''MORETHAN'', ''MOREEQUAL'', ''NOTEQUAL'', ''NONE'']"

text \<open>\<open>names[op]\<close>: the table has no entries for the two conditional operators.\<close>

definition op_to_string :: "operators \<Rightarrow> string res" where
  "op_to_string op =
     (let i = index_of operators_list op
      in if i < length op_names then Inr (op_names ! i) else Inl Undefined)"

datatype type_id =
    TY_NONE_TYPE | TY_INTEGER | TY_DOUBLE | TY_STRING | TY_DATE | TY_BOOL | TY_FUNCTION
  | TY_POINTER | TY_ARRAY | TY_TUPLE

fun type_to_string :: "type_id \<Rightarrow> string" where
  "type_to_string TY_NONE_TYPE = ''NONE_TYPE''"
| "type_to_string TY_INTEGER = ''INTEGER''"
| "type_to_string TY_DOUBLE = ''DOUBLE''"
| "type_to_string TY_STRING = ''STRING''"
| "type_to_string TY_DATE = ''DATE''"
| "type_to_string TY_BOOL = ''BOOL''"
| "type_to_string TY_FUNCTION = ''FUNCTION''"
| "type_to_string TY_POINTER = ''POINTER''"
| "type_to_string TY_ARRAY = ''ARRAY''"
| "type_to_string TY_TUPLE = ''TUPLE''"

datatype ty =
    PrimaryType (ty_id: type_id)
  | ArrayType (ty_id: type_id)
  | TupleType (ty_id: type_id) (tt_names: "string list") (tt_type_names: "string list")
      (tt_props: "32 word list") (tt_params: "int option list") (tt_types: "ty option list")

text \<open>The constructor of a row literal's type: every member is called \<open>(anonymous)\<close>, and the tag stays \<open>NONE_TYPE\<close>.\<close>

definition TupleType_anonymous :: "ty option list \<Rightarrow> ty" where
  "TupleType_anonymous types =
     TupleType TY_NONE_TYPE (map (\<lambda>_. ''(anonymous)'') types) [] [] [] types"

definition is_TupleType :: "ty \<Rightarrow> bool" where
  "is_TupleType t \<longleftrightarrow> (case t of TupleType _ _ _ _ _ _ \<Rightarrow> True | _ \<Rightarrow> False)"

definition is_ArrayType :: "ty \<Rightarrow> bool" where
  "is_ArrayType t \<longleftrightarrow> (case t of ArrayType _ \<Rightarrow> True | _ \<Rightarrow> False)"

fun ty_size :: "ty \<Rightarrow> nat res" and ty_sizes :: "ty option list \<Rightarrow> nat \<Rightarrow> nat res" where
  "ty_size (PrimaryType _) = Inr 8"
| "ty_size (ArrayType _) = Inr 8"
| "ty_size (TupleType _ _ _ _ _ types) = ty_sizes types 0"
| "ty_sizes [] ret = Inr ret"
| "ty_sizes (None # ts) ret = Inl Undefined"
| "ty_sizes (Some t # ts) ret = bindE (ty_size t) (\<lambda>n. ty_sizes ts (ret + n))"

definition tuple_at :: "ty \<Rightarrow> nat \<Rightarrow> type_id res" where
  "tuple_at t idx =
     (if idx < length (tt_types t)
      then case tt_types t ! idx of None \<Rightarrow> Inl Undefined | Some u \<Rightarrow> Inr (ty_id u)
      else Inl Undefined)"

fun tuple_at_name_from :: "string list \<Rightarrow> ty option list \<Rightarrow> string \<Rightarrow> type_id res" where
  "tuple_at_name_from [] types name = Inl (RuntimeError ''undefined tuple member'')"
| "tuple_at_name_from (n # ns) types name =
     (if name = n
      then case types of
             Some u # _ \<Rightarrow> Inr (ty_id u)
           | _ \<Rightarrow> Inl Undefined
      else tuple_at_name_from ns (tl types) name)"

definition tuple_at_name :: "ty \<Rightarrow> string \<Rightarrow> type_id res" where
  "tuple_at_name t name = tuple_at_name_from (tt_names t) (tt_types t) name"

definition tuple_append :: "ty \<Rightarrow> ty option \<Rightarrow> string \<Rightarrow> ty" where
  "tuple_append t ty name =
     TupleType (ty_id t) (tt_names t @ [name]) (tt_type_names t) (tt_props t) (tt_params t)
       (tt_types t @ [ty])"

fun ty_equals :: "ty \<Rightarrow> ty \<Rightarrow> bool res"
and ty_list_equals :: "ty option list \<Rightarrow> ty option list \<Rightarrow> string list \<Rightarrow> string list \<Rightarrow> bool res" where
  "ty_equals (PrimaryType a) rhs = Inr (case rhs of PrimaryType b \<Rightarrow> a = b | _ \<Rightarrow> False)"
| "ty_equals (ArrayType a) rhs = Inr (case rhs of ArrayType b \<Rightarrow> b = a | _ \<Rightarrow> False)"
| "ty_equals (TupleType _ names _ _ _ types) rhs =
     (case rhs of
        TupleType _ names' _ _ _ types' \<Rightarrow>
          if length types \<noteq> length types' \<or> length names \<noteq> length names' then Inr False
          else ty_list_equals types types' names names'
      | _ \<Rightarrow> Inr False)"
| "ty_list_equals (Some t # ts) (Some u # us) ns ms =
     bindE (ty_equals t u) (\<lambda>eq.
     if \<not> eq then Inr False
     else case (ns, ms) of
            (n # ns', m # ms') \<Rightarrow> if n \<noteq> m then Inr False else ty_list_equals ts us ns' ms'
          | _ \<Rightarrow> Inl Undefined)"
| "ty_list_equals [] us ns ms = Inr True"
| "ty_list_equals (None # ts) us ns ms = Inl Undefined"
| "ty_list_equals (Some t # ts) _ ns ms = Inl Undefined"

fun ty_dump :: "ty \<Rightarrow> string res"
and ty_dumps :: "bool \<Rightarrow> ty option list \<Rightarrow> string list \<Rightarrow> string res" where
  "ty_dump (PrimaryType t) = Inr (type_to_string t)"
| "ty_dump (ArrayType t) = Inr ''[ARRAY]''"
| "ty_dump (TupleType _ names _ _ _ types) =
     bindE (ty_dumps True types names) (\<lambda>s. Inr (''{'' @ s @ ''}''))"
| "ty_dumps first [] ns = Inr []"
| "ty_dumps first (None # ts) ns = Inl Undefined"
| "ty_dumps first (Some t # ts) ns =
     bindE (ty_dump t) (\<lambda>s.
     case ns of
       [] \<Rightarrow> Inl Undefined
     | n # ns' \<Rightarrow>
         bindE (ty_dumps False ts ns') (\<lambda>r.
         Inr ((if first then [] else '', '') @ s @ '':'' @ n @ r)))"

definition type_parse :: "string \<Rightarrow> type_id res" where
  "type_parse t =
     (if t = ''int'' then Inr TY_INTEGER
      else if t = ''double'' then Inr TY_DOUBLE
      else if t = ''bool'' then Inr TY_BOOL
      else if t = ''string'' then Inr TY_STRING
      else if t = ''date'' then Inr TY_DATE
      else Inl (RuntimeError (''type parser: unknown type '' @ t)))"

section \<open>Expressions\<close>

datatype expr =
    PrimaryExpression (e_type: "ty option") maybe_value
  | PrimaryNested (e_type: "ty option") expr
  | BinaryExpression (e_type: "ty option") operators expr expr
  | PointerOf (e_type: "ty option") "expr option"
  | RowLiteral (e_type: "ty option") "expr list"
  | ArrayLiteral (e_type: "ty option") "expr list"
  | VariableReference (e_type: "ty option") string
  | FunctionCall (e_type: "ty option") expr "expr list"
  | ArrayReference (e_type: "ty option") "expr option" expr
  | MemberReference (e_type: "ty option") expr string "64 word option"
  | Assign (e_type: "ty option") expr expr

fun expr_kind :: "expr \<Rightarrow> node_kind" where
  "expr_kind (PrimaryExpression _ _) = ND_Primary"
| "expr_kind (PrimaryNested _ _) = ND_Primary"
| "expr_kind (BinaryExpression _ _ _ _) = ND_Binary"
| "expr_kind (PointerOf _ _) = ND_Pointer"
| "expr_kind (RowLiteral _ _) = ND_Row"
| "expr_kind (ArrayLiteral _ _) = ND_Array"
| "expr_kind (VariableReference _ _) = ND_Variable"
| "expr_kind (FunctionCall _ _ _) = ND_Func"
| "expr_kind (ArrayReference _ _ _) = ND_ArrayRef"
| "expr_kind (MemberReference _ _ _ _) = ND_MemberRef"
| "expr_kind (Assign _ _ _) = ND_Assign"

definition expression_classof :: "node_kind \<Rightarrow> bool" where
  "expression_classof k \<longleftrightarrow>
     kind_index ND_EXPRESSION_FIRST < kind_index k \<and> kind_index k < kind_index ND_EXPRESSION_LAST"

fun op_symbol :: "operators \<Rightarrow> string" where
  "op_symbol OP_PLUS = '' + ''"
| "op_symbol OP_MINUS = '' - ''"
| "op_symbol OP_MULTIPLE = '' * ''"
| "op_symbol OP_DIVISION = '' / ''"
| "op_symbol OP_EQUAL = '' == ''"
| "op_symbol OP_MODULO = '' % ''"
| "op_symbol OP_LESSTHAN = '' < ''"
| "op_symbol OP_LESSEQUAL = '' <= ''"
| "op_symbol OP_MORETHAN = '' > ''"
| "op_symbol OP_MOREEQUAL = '' >= ''"
| "op_symbol OP_NOTEQUAL = '' != ''"
| "op_symbol OP_CONDITIONAL_AND = '' && ''"
| "op_symbol OP_CONDITIONAL_OR = '' || ''"
| "op_symbol OP_NONE = '' ???? ''"

text \<open>The \<open>dump\<close> methods, given what their parts print.\<close>

definition PointerOf_dump :: "string res \<Rightarrow> string res" where
  "PointerOf_dump target = bindE target (\<lambda>s. Inr (''&'' @ s))"

definition ArrayLiteral_dump :: "nat \<Rightarrow> string res \<Rightarrow> string res" where
  "ArrayLiteral_dump len elements =
     bindE elements (\<lambda>s. Inr (''ArrayLiteral('' @ show_nat len @ '')['' @ s @ '']''))"

definition VariableReference_dump :: "string \<Rightarrow> string" where
  "VariableReference_dump name = ''VarRef:'' @ name"

definition FunctionCall_dump :: "string res \<Rightarrow> string res \<Rightarrow> string res" where
  "FunctionCall_dump parent args =
     bindE parent (\<lambda>s. bindE args (\<lambda>t. Inr (''Fun:'' @ s @ ''('' @ t @ '')'')))"

fun expr_dump :: "expr \<Rightarrow> string res" and exprs_dump :: "bool \<Rightarrow> expr list \<Rightarrow> string res" where
  "expr_dump (PrimaryExpression _ v) = Inr (mv_dump v)"
| "expr_dump (PrimaryNested _ e) = bindE (expr_dump e) (\<lambda>s. Inr (''Expression('' @ s @ '')''))"
| "expr_dump (BinaryExpression _ op l r) =
     bindE (expr_dump l) (\<lambda>a. bindE (expr_dump r) (\<lambda>b. Inr (''('' @ a @ op_symbol op @ b @ '')'')))"
| "expr_dump (PointerOf _ None) = Inl Undefined"
| "expr_dump (PointerOf _ (Some t)) = PointerOf_dump (expr_dump t)"
| "expr_dump (RowLiteral _ es) = bindE (exprs_dump True es) (\<lambda>s. Inr (''RowLiteral{'' @ s @ ''}''))"
| "expr_dump (ArrayLiteral _ es) = ArrayLiteral_dump (length es) (exprs_dump True es)"
| "expr_dump (VariableReference _ n) = Inr (VariableReference_dump n)"
| "expr_dump (FunctionCall _ p as) = FunctionCall_dump (expr_dump p) (exprs_dump True as)"
| "expr_dump (ArrayReference _ None i) = Inl Undefined"
| "expr_dump (ArrayReference _ (Some p) i) =
     bindE (expr_dump p) (\<lambda>s. bindE (expr_dump i) (\<lambda>t. Inr (''ArrRef'' @ s @ ''['' @ t @ '']'')))"
| "expr_dump (MemberReference _ p n _) = bindE (expr_dump p) (\<lambda>s. Inr (s @ ''-m->'' @ n))"
| "expr_dump (Assign _ t v) =
     bindE (expr_dump t) (\<lambda>a. bindE (expr_dump v) (\<lambda>b. Inr (a @ '' = '' @ b)))"
| "exprs_dump first [] = Inr []"
| "exprs_dump first (e # es) =
     bindE (expr_dump e) (\<lambda>s. bindE (exprs_dump False es) (\<lambda>r.
     Inr ((if first then [] else '', '') @ s @ r)))"

text \<open>
  \<open>each_value\<close>: \<open>BinaryExpression\<close> and \<open>RowLiteral\<close> inherit the empty default of
  \<open>Expression\<close>.
\<close>

fun expr_each_value :: "expr \<Rightarrow> expr list res"
and args_each_value :: "expr list \<Rightarrow> expr list res"
and elems_each_value :: "expr list \<Rightarrow> expr list res" where
  "expr_each_value (PrimaryExpression _ v) = Inr []"
| "expr_each_value (PrimaryNested _ e) = expr_each_value e"
| "expr_each_value (BinaryExpression _ op l r) = Inr []"
| "expr_each_value (PointerOf _ t) = (case t of None \<Rightarrow> Inl Undefined | Some e \<Rightarrow> Inr [e])"
| "expr_each_value (RowLiteral _ es) = Inr []"
| "expr_each_value (ArrayLiteral t es) =
     bindE (elems_each_value es) (\<lambda>xs. Inr (xs @ [ArrayLiteral t es]))"
| "expr_each_value (VariableReference t n) = Inr [VariableReference t n]"
| "expr_each_value (FunctionCall _ p as) = args_each_value as"
| "expr_each_value (ArrayReference t None i) = Inl Undefined"
| "expr_each_value (ArrayReference t (Some p) i) =
     bindE (expr_each_value p) (\<lambda>xs. Inr (ArrayReference t (Some p) i # xs))"
| "expr_each_value (MemberReference t p n off) =
     bindE (expr_each_value p) (\<lambda>xs. Inr (MemberReference t p n off # xs))"
| "expr_each_value (Assign t a v) = bindE (expr_each_value v) (\<lambda>xs. Inr (Assign t a v # xs))"
| "args_each_value [] = Inr []"
| "args_each_value (a # as) =
     bindE (expr_each_value a) (\<lambda>xs. bindE (args_each_value as) (\<lambda>ys. Inr (a # xs @ ys)))"
| "elems_each_value [] = Inr []"
| "elems_each_value (e # es) =
     bindE (expr_each_value e) (\<lambda>xs. bindE (elems_each_value es) (\<lambda>ys. Inr (xs @ ys)))"

section \<open>Statements\<close>

datatype jump = continue_jump | break_jump

datatype stmt =
    Block "stmt list"
  | Transaction string "stmt list"
  | Define "ty option" string
  | For "stmt slot" "expr slot" "expr slot" "stmt list"
  | Jump jump
  | Emit expr
  | Insert string expr
  | Scan string string "stmt list"
  | Let string "ty option" expr
  | DefineTuple string ty
  | If expr "stmt list" "stmt list option"
  | ExprStatement expr

fun stmt_kind :: "stmt \<Rightarrow> node_kind" where
  "stmt_kind (Block _) = ND_Block"
| "stmt_kind (Transaction _ _) = ND_Transaction"
| "stmt_kind (Define _ _) = ND_Define"
| "stmt_kind (For _ _ _ _) = ND_For"
| "stmt_kind (Jump _) = ND_Jump"
| "stmt_kind (Emit _) = ND_Emit"
| "stmt_kind (Insert _ _) = ND_Insert"
| "stmt_kind (Scan _ _ _) = ND_Scan"
| "stmt_kind (Let _ _ _) = ND_Let"
| "stmt_kind (DefineTuple _ _) = ND_DefineTuple"
| "stmt_kind (If _ _ _) = ND_If"
| "stmt_kind (ExprStatement _) = ND_ExprStatement"

definition statement_classof :: "node_kind \<Rightarrow> bool" where
  "statement_classof k \<longleftrightarrow>
     kind_index ND_STATEMENT_FIRST < kind_index k \<and> kind_index k < kind_index ND_STATEMENT_LAST"

definition blank :: "nat \<Rightarrow> string" where
  "blank n = replicate n (CHR '' '')"

definition endl :: string where
  "endl = [CHR 0x0A]"

definition opt_ty_dump :: "ty option \<Rightarrow> string res" where
  "opt_ty_dump t = (case t of None \<Rightarrow> Inl Undefined | Some u \<Rightarrow> ty_dump u)"

fun slot_expr_dump :: "expr slot \<Rightarrow> string res" where
  "slot_expr_dump Uninit = Inl Undefined"
| "slot_expr_dump Null = Inr []"
| "slot_expr_dump (Ref e) = expr_dump e"

text \<open>The \<open>dump\<close> methods, given what their parts print at the indentation they are passed.\<close>

definition Block_text :: "nat \<Rightarrow> string \<Rightarrow> string" where
  "Block_text n s = ''Block ['' @ endl @ s @ blank n @ '']''"

definition Transaction_dump :: "nat \<Rightarrow> string \<Rightarrow> string res \<Rightarrow> string res" where
  "Transaction_dump n isolation sequence =
     bindE sequence (\<lambda>s.
     Inr (''transaction('' @ isolation @ '') ['' @ endl @ blank (n + 2) @ Block_text (n + 2) s @ endl @ blank n @ '']''))"

definition For_dump :: "nat \<Rightarrow> string res \<Rightarrow> string res \<Rightarrow> string res \<Rightarrow> string res \<Rightarrow> string res" where
  "For_dump n init cond every blk =
     bindE init (\<lambda>a.
     bindE cond (\<lambda>b.
     bindE every (\<lambda>c.
     bindE blk (\<lambda>s.
     Inr (''for ('' @ a @ '';'' @ b @ '';'' @ c @ '') {'' @ endl @ blank (n + 2) @ Block_text (n + 2) s @ endl @ blank n @ ''}'')))))"

definition Jump_dump :: "jump \<Rightarrow> string" where
  "Jump_dump t = (case t of continue_jump \<Rightarrow> ''continue'' | break_jump \<Rightarrow> ''break'')"

definition Emit_dump :: "string res \<Rightarrow> string res" where
  "Emit_dump v = bindE v (\<lambda>s. Inr (''emit: '' @ s))"

definition Insert_dump :: "string \<Rightarrow> string res \<Rightarrow> string res" where
  "Insert_dump table v = bindE v (\<lambda>s. Inr (''insert into '' @ table @ '': '' @ s))"

definition Scan_dump :: "nat \<Rightarrow> string \<Rightarrow> string \<Rightarrow> string res \<Rightarrow> string res" where
  "Scan_dump n table row blk =
     bindE blk (\<lambda>s. Inr (''full_scan('' @ table @ ''): as |'' @ row @ ''|'' @ endl @ blank n @ Block_text n s))"

definition Let_dump :: "string \<Rightarrow> string res \<Rightarrow> string res" where
  "Let_dump name e = bindE e (\<lambda>s. Inr (''let '' @ name @ '' := '' @ s))"

definition DefineTuple_dump :: "string \<Rightarrow> string res \<Rightarrow> string res" where
  "DefineTuple_dump name t = bindE t (\<lambda>s. Inr (''typedef: '' @ s @ '' '' @ name))"

definition If_dump :: "nat \<Rightarrow> string res \<Rightarrow> string res \<Rightarrow> string res option \<Rightarrow> string res" where
  "If_dump n cond true_block false_block =
     bindE cond (\<lambda>a.
     bindE true_block (\<lambda>b.
     bindE (case false_block of
              None \<Rightarrow> Inr []
            | Some f \<Rightarrow>
                bindE f (\<lambda>s. Inr (endl @ blank n @ ''else'' @ endl @ blank (n + 2) @ Block_text (n + 2) s))) (\<lambda>d.
     Inr (''if '' @ a @ '' then'' @ endl @ blank (n + 2) @ Block_text (n + 2) b @ d @ endl @ blank n @ ''fi''))))"

definition ExprStatement_dump :: "string res \<Rightarrow> string res" where
  "ExprStatement_dump v = bindE v (\<lambda>s. Inr (''expr['' @ s @ '']''))"

fun stmt_dump :: "nat \<Rightarrow> stmt \<Rightarrow> string res"
and block_dump :: "nat \<Rightarrow> stmt list \<Rightarrow> string res" where
  "stmt_dump n (Block ss) = bindE (block_dump n ss) (\<lambda>s. Inr (Block_text n s))"
| "stmt_dump n (Transaction isolation ss) = Transaction_dump n isolation (block_dump (n + 2) ss)"
| "stmt_dump n (Define schema name) =
     bindE (opt_ty_dump schema) (\<lambda>s. Inr (''Define('' @ name @ '')'' @ s))"
| "stmt_dump n (For init cond every blk) =
     For_dump n (case init of Uninit \<Rightarrow> Inl Undefined | Null \<Rightarrow> Inr [] | Ref i \<Rightarrow> stmt_dump n i)
       (slot_expr_dump cond) (slot_expr_dump every) (block_dump (n + 2) blk)"
| "stmt_dump n (Jump t) = Inr (Jump_dump t)"
| "stmt_dump n (Emit v) = Emit_dump (expr_dump v)"
| "stmt_dump n (Insert table v) = Insert_dump table (expr_dump v)"
| "stmt_dump n (Scan table row blk) = Scan_dump n table row (block_dump n blk)"
| "stmt_dump n (Let name _ e) = Let_dump name (expr_dump e)"
| "stmt_dump n (DefineTuple name t) = DefineTuple_dump name (ty_dump t)"
| "stmt_dump n (If c t f) =
     If_dump n (expr_dump c) (block_dump (n + 2) t)
       (case f of None \<Rightarrow> None | Some f' \<Rightarrow> Some (block_dump (n + 2) f'))"
| "stmt_dump n (ExprStatement v) = ExprStatement_dump (expr_dump v)"
| "block_dump n [] = Inr []"
| "block_dump n (s # ss) =
     bindE (stmt_dump (n + 2) s) (\<lambda>a. bindE (block_dump n ss) (\<lambda>r.
     Inr (blank (n + 2) @ a @ endl @ r)))"

fun each_statement :: "stmt \<Rightarrow> stmt list res" and block_each_statement :: "stmt list \<Rightarrow> stmt list res" where
  "each_statement (Block ss) = block_each_statement ss"
| "each_statement (Transaction _ ss) = block_each_statement ss"
| "each_statement (Define _ _) = Inr []"
| "each_statement (For init _ _ blk) =
     bindE (case init of Uninit \<Rightarrow> Inl Undefined | Null \<Rightarrow> Inr [] | Ref i \<Rightarrow> Inr [i]) (\<lambda>xs.
     bindE (block_each_statement blk) (\<lambda>ys. Inr (xs @ ys)))"
| "each_statement (Jump _) = Inr []"
| "each_statement (Emit _) = Inr []"
| "each_statement (Insert _ _) = Inr []"
| "each_statement (Scan _ _ blk) = block_each_statement blk"
| "each_statement (Let _ _ _) = Inr []"
| "each_statement (DefineTuple _ _) = Inr []"
| "each_statement (If _ t f) =
     bindE (block_each_statement t) (\<lambda>xs.
     bindE (case f of None \<Rightarrow> Inr [] | Some f' \<Rightarrow> block_each_statement f') (\<lambda>ys. Inr (xs @ ys)))"
| "each_statement (ExprStatement _) = Inr []"
| "block_each_statement [] = Inr []"
| "block_each_statement (s # ss) =
     bindE (each_statement s) (\<lambda>xs. bindE (block_each_statement ss) (\<lambda>ys. Inr (s # xs @ ys)))"

fun stmt_each_value :: "stmt \<Rightarrow> expr list res" and block_each_value :: "stmt list \<Rightarrow> expr list res" where
  "stmt_each_value (Block ss) = block_each_value ss"
| "stmt_each_value (Transaction _ ss) = block_each_value ss"
| "stmt_each_value (Define _ _) = Inr []"
| "stmt_each_value (For _ _ _ _) = Inr []"
| "stmt_each_value (Jump _) = Inr []"
| "stmt_each_value (Emit v) = Inr [v]"
| "stmt_each_value (Insert _ v) = Inr [v]"
| "stmt_each_value (Scan _ _ _) = Inr []"
| "stmt_each_value (Let _ _ e) = expr_each_value e"
| "stmt_each_value (DefineTuple _ _) = Inr []"
| "stmt_each_value (If c t f) =
     bindE (expr_each_value c) (\<lambda>xs.
     bindE (block_each_value t) (\<lambda>ys.
     bindE (case f of None \<Rightarrow> Inr [] | Some f' \<Rightarrow> block_each_value f') (\<lambda>zs. Inr (xs @ ys @ zs))))"
| "stmt_each_value (ExprStatement v) = expr_each_value v"
| "block_each_value [] = Inr []"
| "block_each_value (s # ss) =
     bindE (stmt_each_value s) (\<lambda>xs. bindE (block_each_value ss) (\<lambda>ys. Inr (xs @ ys)))"

end
