(* ===== verification/Reir_Parse_Expr.thy ===== *)
theory Reir_Parse_Expr
  imports Reir_Token Reir_Ast
begin

unbundle bit_operations_syntax

text \<open>
  The recursive-descent parser for types and expressions,
  \<^verbatim>\<open>src/reir/exec/ast_node_parser.cpp\<close> and \<^verbatim>\<open>ast_expression_parser.cpp\<close>. Each
  node constructor that reads tokens is a definition; those that call \<open>parse_expr\<close> take it
  as an argument, and \<open>parse_expr_f\<close> ties the knot on a recursion bound. Loops carry a
  bound of their own. All bounds are one more than the number of tokens left, and the
  interface \<open>bounded_parser\<close> shows that this is enough: every pass of a loop and every
  nested call consumes a token.
\<close>

type_synonym 'a parser = "token_stream \<Rightarrow> ('a \<times> token_stream) res"

section \<open>Expecting a token\<close>

definition expect_token :: "token \<Rightarrow> token_type \<Rightarrow> unit res" where
  "expect_token t ty =
     (if tk_type t \<noteq> ty
      then Inl (RuntimeError (''line:'' @ show_int (tk_row t) @ '':'' @ show_int (tk_col t) @ '' '' @
             ''token: '' @ show_token t @ '' is not expected '' @ token_type_str ty @ '' desired''))
      else Inr ())"

text \<open>\<open>expect_token(tokens.get(), ty)\<close>, and the same followed by a read of the text and \<open>tokens.next()\<close>.\<close>

definition expect :: "token_type \<Rightarrow> token_stream \<Rightarrow> unit res" where
  "expect ty s = bindE (ts_get s) (\<lambda>t. expect_token t ty)"

definition accept :: "token_type \<Rightarrow> string parser" where
  "accept ty s = bindE (ts_get s) (\<lambda>t. bindE (expect_token t ty) (\<lambda>_. Inr (tk_text t, ts_next s)))"

section \<open>Types\<close>

definition PrimaryType_new :: "ty parser" where
  "PrimaryType_new s =
     bindE (ts_get s) (\<lambda>t.
     bindE (expect_token t TK_INT) (\<lambda>_.
     bindE (type_parse (tk_text t)) (\<lambda>ty.
     Inr (PrimaryType ty, ts_next s))))"

text \<open>The property words after a column name.\<close>

fun parse_props :: "nat \<Rightarrow> 32 word \<Rightarrow> 32 word parser" where
  "parse_props 0 prop s = Inl OutOfFuel"
| "parse_props (Suc k) prop s =
     bindE (ts_get s) (\<lambda>t.
     if tk_type t \<noteq> TK_IDENTIFIER then Inr (prop, s)
     else if tk_text t = ''key'' then parse_props k (prop OR PROP_KEY) (ts_next s)
     else if tk_text t = ''nullable'' then parse_props k (prop OR PROP_NULLABLE) (ts_next s)
     else if tk_text t = ''unique'' then parse_props k (prop OR PROP_UNIQUE) (ts_next s)
     else Inl (RuntimeError (''unknown property: '' @ tk_text t)))"

text \<open>The optional parameter of a column type: \<open>(NUMBER)\<close>.\<close>

definition parse_param :: "int option parser" where
  "parse_param s =
     bindE (ts_get s) (\<lambda>t.
     if tk_type t = TK_OPEN_PAREN
     then bindE (ts_get (ts_next s)) (\<lambda>u.
          bindE (expect_token u TK_NUMBER) (\<lambda>_.
          bindE (stoi (tk_text u)) (\<lambda>p.
          bindE (accept TK_CLOSE_PAREN (ts_next (ts_next s))) (\<lambda>(_, s).
          Inr (Some p, s)))))
     else Inr (None, s))"

text \<open>One column: type name, parameter, colon, name, properties.\<close>

definition parse_column :: "(string \<times> int option \<times> string \<times> 32 word) parser" where
  "parse_column s =
     bindE (ts_get s) (\<lambda>t.
     bindE (parse_param (ts_next s)) (\<lambda>(param, s).
     bindE (accept TK_COLON s) (\<lambda>(_, s).
     bindE (accept TK_IDENTIFIER s) (\<lambda>(nm, s).
     bindE (parse_props (Suc (remaining s)) PROP_NONE s) (\<lambda>(prop, s).
     Inr ((tk_text t, param, nm, prop), s))))))"

fun parse_columns :: "nat \<Rightarrow> (string \<times> int option \<times> string \<times> 32 word) list parser" where
  "parse_columns 0 s = Inl OutOfFuel"
| "parse_columns (Suc k) s =
     bindE (parse_column s) (\<lambda>(col, s).
     bindE (ts_get s) (\<lambda>t.
     if tk_type t \<noteq> TK_COMMA then Inr ([col], s)
     else bindE (parse_columns k (ts_next s)) (\<lambda>(cols, s). Inr (col # cols, s))))"

definition TupleType_new :: "ty parser" where
  "TupleType_new s =
     bindE (accept TK_OPEN_BRACE s) (\<lambda>(_, s).
     bindE (parse_columns (Suc (remaining s)) s) (\<lambda>(cols, s).
     bindE (accept TK_CLOSE_BRACE s) (\<lambda>(_, s).
     Inr (TupleType TY_TUPLE (map (\<lambda>(tn, p, nm, pr). nm) cols) (map (\<lambda>(tn, p, nm, pr). tn) cols)
            (map (\<lambda>(tn, p, nm, pr). pr) cols) (map (\<lambda>(tn, p, nm, pr). p) cols) [], s))))"

definition ArrayType_new :: "ty parser \<Rightarrow> ty parser" where
  "ArrayType_new pt s =
     bindE (accept TK_OPEN_BRACKET s) (\<lambda>(_, s).
     bindE (pt s) (\<lambda>(t, s).
     bindE (accept TK_CLOSE_BRACKET s) (\<lambda>(_, s).
     Inr (ArrayType (ty_id t), s))))"

definition parse_type_body :: "ty parser \<Rightarrow> ty parser" where
  "parse_type_body pt s =
     bindE (ts_get s) (\<lambda>t.
     if tk_type t = TK_OPEN_BRACKET then ArrayType_new pt s
     else if tk_type t = TK_OPEN_BRACE then TupleType_new s
     else PrimaryType_new s)"

fun parse_type_f :: "nat \<Rightarrow> ty parser" where
  "parse_type_f 0 s = Inl OutOfFuel"
| "parse_type_f (Suc n) s = parse_type_body (parse_type_f n) s"

definition parse_type :: "ty parser" where
  "parse_type s = parse_type_f (Suc (remaining s)) s"

definition parse_row_type :: "ty parser" where
  "parse_row_type s =
     bindE (accept TK_OPEN_ANGLE s) (\<lambda>(_, s).
     bindE (parse_type s) (\<lambda>(t, s).
     bindE (accept TK_CLOSE_ANGLE s) (\<lambda>(_, s).
     Inr (t, s))))"

section \<open>Expressions\<close>

definition PrimaryExpression_new :: "expr parser" where
  "PrimaryExpression_new s =
     bindE (ts_get s) (\<lambda>t.
     if tk_type t = TK_NUMBER
     then bindE (stoi (tk_text t)) (\<lambda>v.
          Inr (PrimaryExpression None (MaybeValue_int (word_of_int v)), ts_next s))
     else if tk_type t = TK_STRING_LITERAL
     then Inr (PrimaryExpression None (MaybeValue_slice (tk_text t)), ts_next s)
     else Inl (RuntimeError (''unsupported primary expression('' @ tk_text t @ '')'' @ ''passed'')))"

definition VariableReference_new :: "expr parser" where
  "VariableReference_new s =
     bindE (accept TK_IDENTIFIER s) (\<lambda>(name, s). Inr (VariableReference None name, s))"

text \<open>\<open>dynamic_cast<VariableReference*>\<close>.\<close>

definition as_variable :: "expr \<Rightarrow> expr option" where
  "as_variable e = (case e of VariableReference _ _ \<Rightarrow> Some e | _ \<Rightarrow> None)"

definition ArrayReference_new :: "expr parser \<Rightarrow> expr option \<Rightarrow> expr parser" where
  "ArrayReference_new pe parent s =
     bindE (accept TK_OPEN_BRACKET s) (\<lambda>(_, s).
     bindE (pe s) (\<lambda>(idx, s).
     bindE (accept TK_CLOSE_BRACKET s) (\<lambda>(_, s).
     Inr (ArrayReference None parent idx, s))))"

definition MemberReference_new :: "expr \<Rightarrow> expr parser" where
  "MemberReference_new value s =
     bindE (accept TK_PERIOD s) (\<lambda>(_, s).
     bindE (ts_get s) (\<lambda>t.
     Inr (MemberReference None value (tk_text t) None, ts_next s)))"

text \<open>
  The loop shared by argument lists, row literals and array literals: elements separated by
  commas up to the closing token; a comma before the closing token is accepted.
\<close>

fun parse_elements :: "expr parser \<Rightarrow> token_type \<Rightarrow> nat \<Rightarrow> expr list parser" where
  "parse_elements pe close 0 s = Inl OutOfFuel"
| "parse_elements pe close (Suc k) s =
     bindE (ts_get s) (\<lambda>t.
     if tk_type t = close then Inr ([], s)
     else bindE (pe s) (\<lambda>(e, s).
          bindE (ts_get s) (\<lambda>t.
          if tk_type t = close then Inr ([e], s)
          else bindE (accept TK_COMMA s) (\<lambda>(_, s).
               bindE (parse_elements pe close k s) (\<lambda>(es, s). Inr (e # es, s))))))"

definition FunctionCall_new :: "expr parser \<Rightarrow> expr \<Rightarrow> expr parser" where
  "FunctionCall_new pe parent s =
     bindE (accept TK_OPEN_PAREN s) (\<lambda>(_, s).
     bindE (parse_elements pe TK_CLOSE_PAREN (Suc (remaining s)) s) (\<lambda>(args, s).
     bindE (accept TK_CLOSE_PAREN s) (\<lambda>(_, s).
     Inr (FunctionCall None parent args, s))))"

definition RowLiteral_new :: "expr parser \<Rightarrow> expr parser" where
  "RowLiteral_new pe s =
     bindE (accept TK_OPEN_BRACE s) (\<lambda>(_, s).
     bindE (parse_elements pe TK_CLOSE_BRACE (Suc (remaining s)) s) (\<lambda>(es, s).
     bindE (accept TK_CLOSE_BRACE s) (\<lambda>(_, s).
     Inr (RowLiteral None es, s))))"

definition ArrayLiteral_new :: "expr parser \<Rightarrow> expr parser" where
  "ArrayLiteral_new pe s =
     bindE (accept TK_OPEN_BRACKET s) (\<lambda>(_, s).
     bindE (parse_elements pe TK_CLOSE_BRACKET (Suc (remaining s)) s) (\<lambda>(es, s).
     bindE (accept TK_CLOSE_BRACKET s) (\<lambda>(_, s).
     Inr (ArrayLiteral None es, s))))"

definition Assign_new :: "expr parser \<Rightarrow> expr \<Rightarrow> expr parser" where
  "Assign_new pe target s =
     bindE (accept TK_EQUAL s) (\<lambda>(_, s).
     bindE (pe s) (\<lambda>(v, s).
     Inr (Assign None target v, s)))"

fun binary_operator :: "token_type \<Rightarrow> operators option" where
  "binary_operator TK_PLUS = Some OP_PLUS"
| "binary_operator TK_MINUS = Some OP_MINUS"
| "binary_operator TK_ASTERISK = Some OP_MULTIPLE"
| "binary_operator TK_SLASH = Some OP_DIVISION"
| "binary_operator TK_PERCENT = Some OP_MODULO"
| "binary_operator TK_OPEN_ANGLE = Some OP_LESSTHAN"
| "binary_operator TK_CLOSE_ANGLE = Some OP_MORETHAN"
| "binary_operator TK_EQUAL_EQUAL = Some OP_EQUAL"
| "binary_operator TK_EXCLAMATION_MARK_EQUAL = Some OP_NOTEQUAL"
| "binary_operator TK_OPEN_ANGLE_EQUAL = Some OP_LESSEQUAL"
| "binary_operator TK_CLOSE_ANGLE_EQUAL = Some OP_MOREEQUAL"
| "binary_operator TK_AND_AND = Some OP_CONDITIONAL_AND"
| "binary_operator TK_OR_OR = Some OP_CONDITIONAL_OR"
| "binary_operator _ = None"

fun parse_expr_postfix :: "expr parser \<Rightarrow> nat \<Rightarrow> expr \<Rightarrow> expr parser" where
  "parse_expr_postfix pe 0 ret s = Inl OutOfFuel"
| "parse_expr_postfix pe (Suc k) ret s =
     (if \<not> ts_has_next s then Inr (ret, s)
      else bindE (ts_get s) (\<lambda>t.
        if tk_type t = TK_OPEN_PAREN
        then bindE (FunctionCall_new pe ret s) (\<lambda>(e, s). parse_expr_postfix pe k e s)
        else if tk_type t = TK_OPEN_BRACKET
        then bindE (ArrayReference_new pe (as_variable ret) s) (\<lambda>(e, s). parse_expr_postfix pe k e s)
        else if tk_type t = TK_PERIOD
        then bindE (MemberReference_new ret s) (\<lambda>(e, s). parse_expr_postfix pe k e s)
        else if tk_type t = TK_EQUAL
        then bindE (Assign_new pe ret s) (\<lambda>(e, s). parse_expr_postfix pe k e s)
        else case binary_operator (tk_type t) of
               Some op \<Rightarrow>
                 bindE (pe (ts_next s)) (\<lambda>(rhs, s). Inr (BinaryExpression None op ret rhs, s))
             | None \<Rightarrow> Inr (ret, s)))"

text \<open>The operand an expression starts with.\<close>

definition parse_operand :: "expr parser \<Rightarrow> expr parser" where
  "parse_operand pe s =
     bindE (ts_get s) (\<lambda>t.
     if tk_type t = TK_AND
     then bindE (pe (ts_next s)) (\<lambda>(e, s). Inr (PointerOf None (Some e), s))
     else if tk_type t = TK_OPEN_BRACE then RowLiteral_new pe s
     else if tk_type t = TK_OPEN_PAREN
     then bindE (pe (ts_next s)) (\<lambda>(e, s).
          bindE (accept TK_CLOSE_PAREN s) (\<lambda>(_, s). Inr (e, s)))
     else if tk_type t = TK_OPEN_BRACKET then ArrayLiteral_new pe s
     else if tk_type t = TK_IDENTIFIER then VariableReference_new s
     else if tk_type t = TK_STRING_LITERAL \<or> tk_type t = TK_NUMBER then PrimaryExpression_new s
     else Inl (RuntimeError (''unknown expr: '' @ tk_text t)))"

definition parse_expr_body :: "expr parser \<Rightarrow> expr parser" where
  "parse_expr_body pe s =
     bindE (parse_operand pe s) (\<lambda>(ret, s).
     if \<not> ts_has_next s then Inr (ret, s)
     else parse_expr_postfix pe (Suc (remaining s)) ret s)"

fun parse_expr_f :: "nat \<Rightarrow> expr parser" where
  "parse_expr_f 0 s = Inl OutOfFuel"
| "parse_expr_f (Suc n) s = parse_expr_body (parse_expr_f n) s"

definition parse_expr :: "expr parser" where
  "parse_expr s = parse_expr_f (Suc (remaining s)) s"

section \<open>Consumption and bounds\<close>

lemmas cursor_defs = advances_def moves_def

lemmas loop_simps = parse_props.simps parse_columns.simps parse_elements.simps parse_expr_postfix.simps

declare loop_simps [simp del]

lemma expect_token_fuel [simp]: "expect_token t ty \<noteq> Inl OutOfFuel"
  by (simp add: expect_token_def)

lemma expect_token_Inr [simp]: "expect_token t ty = Inr u \<longleftrightarrow> tk_type t = ty"
  by (simp add: expect_token_def)

lemma expect_fuel [simp]: "expect ty s \<noteq> Inl OutOfFuel"
  by (auto simp: expect_def bindE_eq_Inl_iff)

lemma accept_fuel [simp]: "accept ty s \<noteq> Inl OutOfFuel"
  by (auto simp: accept_def bindE_eq_Inl_iff)

lemma get_next_advances: "ts_get s = Inr t \<Longrightarrow> moves s s \<and> advances s (ts_next s)"
  by (simp add: ts_get_advances moves_refl_get)

lemma accept_advances: "accept ty s = Inr (x, s') \<Longrightarrow> advances s s'"
  by (auto simp: accept_def bindE_eq_Inr_iff cursor_defs dest!: get_next_advances)

lemma type_parse_fuel [simp]: "type_parse t \<noteq> Inl OutOfFuel"
  by (simp add: type_parse_def)

lemma stoi_fuel [simp]: "stoi t \<noteq> Inl OutOfFuel"
  by (simp add: stoi_def sto_range_def split: option.splits)

lemma parse_props_moves: "parse_props k pr s = Inr (x, s') \<Longrightarrow> moves s s'"
proof (induction k arbitrary: pr s)
  case (Suc k)
  then obtain t where t: "ts_get s = Inr t" by (auto simp: loop_simps bindE_eq_Inr_iff)
  with Suc.prems consider "s' = s" | pr' where "parse_props k pr' (ts_next s) = Inr (x, s')"
    by (auto simp: loop_simps split: if_splits)
  then show ?case
  proof cases
    case 1
    with t show ?thesis by (simp add: moves_refl_get)
  next
    case 2
    from Suc.IH [OF this] get_next_advances [OF t] show ?thesis by (auto simp: cursor_defs)
  qed
qed (simp add: loop_simps)

lemma parse_props_fuel: "parse_props k pr s = Inl OutOfFuel \<Longrightarrow> k \<le> remaining s"
  by (induction k arbitrary: pr s)
     (fastforce simp: loop_simps bindE_eq_Inl_iff split: if_splits dest: ts_get_remaining)+

lemma parse_param_moves: "parse_param s = Inr (x, s') \<Longrightarrow> moves s s'"
  by (auto simp: parse_param_def bindE_eq_Inr_iff cursor_defs split: if_splits
      dest!: get_next_advances accept_advances)

lemma parse_param_fuel [simp]: "parse_param s \<noteq> Inl OutOfFuel"
  by (auto simp: parse_param_def bindE_eq_Inl_iff)

lemma parse_column_advances: "parse_column s = Inr (x, s') \<Longrightarrow> advances s s'"
  by (auto simp: parse_column_def bindE_eq_Inr_iff cursor_defs
      dest!: get_next_advances accept_advances parse_param_moves parse_props_moves)

lemma parse_column_fuel [simp]: "parse_column s \<noteq> Inl OutOfFuel"
  by (auto simp: parse_column_def bindE_eq_Inl_iff dest!: parse_props_fuel)

lemma parse_columns_advances: "parse_columns k s = Inr (x, s') \<Longrightarrow> advances s s'"
proof (induction k arbitrary: s x)
  case (Suc k)
  then obtain col s1 t where c: "parse_column s = Inr (col, s1)" and t: "ts_get s1 = Inr t"
    and r: "s' = s1 \<or> (\<exists>y. parse_columns k (ts_next s1) = Inr (y, s'))"
    by (auto simp: loop_simps bindE_eq_Inr_iff split: if_splits)
  from r parse_column_advances [OF c] get_next_advances [OF t] Suc.IH [of "ts_next s1"] show ?case
    by (auto intro: cursor_trans)
qed (simp add: loop_simps)

lemma parse_columns_fuel: "parse_columns k s = Inl OutOfFuel \<Longrightarrow> k \<le> remaining s"
proof (induction k arbitrary: s)
  case (Suc k)
  then obtain col s1 t where "parse_column s = Inr (col, s1)" "ts_get s1 = Inr t"
    "parse_columns k (ts_next s1) = Inl OutOfFuel"
    by (auto simp: loop_simps bindE_eq_Inl_iff split: if_splits)
  then show ?case using Suc.IH [of "ts_next s1"]
    by (auto simp: cursor_defs remaining_def dest!: parse_column_advances get_next_advances)
qed (simp add: loop_simps)

lemma TupleType_new_advances: "TupleType_new s = Inr (x, s') \<Longrightarrow> advances s s'"
  by (auto simp: TupleType_new_def bindE_eq_Inr_iff cursor_defs dest!: accept_advances parse_columns_advances)

lemma TupleType_new_fuel [simp]: "TupleType_new s \<noteq> Inl OutOfFuel"
  by (auto simp: TupleType_new_def bindE_eq_Inl_iff dest!: parse_columns_fuel)

lemma PrimaryType_new_advances: "PrimaryType_new s = Inr (x, s') \<Longrightarrow> advances s s'"
  by (auto simp: PrimaryType_new_def bindE_eq_Inr_iff cursor_defs dest!: get_next_advances)

lemma PrimaryType_new_fuel [simp]: "PrimaryType_new s \<noteq> Inl OutOfFuel"
  by (auto simp: PrimaryType_new_def bindE_eq_Inl_iff)

text \<open>
  The interface of a recursive parser: success moves the cursor forward within the token
  list, and the recursion bound \<open>n\<close> is not reached on streams with fewer than \<open>n\<close>
  tokens left.
\<close>

locale bounded_parser =
  fixes p :: "token_stream \<Rightarrow> ('a \<times> token_stream) res" and n :: nat
  assumes p_advances: "p s = Inr (x, s') \<Longrightarrow> advances s s'"
    and p_fuel: "p s = Inl OutOfFuel \<Longrightarrow> n \<le> remaining s"
begin

lemma p_total: "remaining s < n \<Longrightarrow> p s \<noteq> Inl OutOfFuel"
  using p_fuel by fastforce

lemma p_consumes: "p s = Inr (x, s') \<Longrightarrow> remaining s' < remaining s \<and> ts_tokens s' = ts_tokens s"
  using p_advances by (simp add: advances_remaining) (simp add: advances_def)

end

locale type_parser = bounded_parser p n for p :: "ty parser" and n
begin

lemma ArrayType_new_advances: "ArrayType_new p s = Inr (x, s') \<Longrightarrow> advances s s'"
  by (auto simp: ArrayType_new_def bindE_eq_Inr_iff cursor_defs dest!: accept_advances p_advances)

lemma ArrayType_new_fuel: "ArrayType_new p s = Inl OutOfFuel \<Longrightarrow> n < remaining s"
  by (auto simp: ArrayType_new_def bindE_eq_Inl_iff cursor_defs remaining_def dest!: accept_advances p_fuel)

lemma body_type_parser: "bounded_parser (parse_type_body p) (Suc n)"
  by unfold_locales
     (auto simp: parse_type_body_def bindE_eq_Inr_iff cursor_defs bindE_eq_Inl_iff split: if_splits
      dest!: ArrayType_new_advances ArrayType_new_fuel TupleType_new_advances PrimaryType_new_advances)

end

lemma parse_type_f_bounded: "bounded_parser (parse_type_f n) n"
proof (induction n)
  case 0
  show ?case by unfold_locales simp_all
next
  case (Suc n)
  then have "type_parser (parse_type_f n) n" by (simp add: type_parser_def)
  from type_parser.body_type_parser [OF this] show ?case
    by (simp add: bounded_parser_def)
qed

interpretation type_f: type_parser "parse_type_f n" n for n
  by (simp add: type_parser_def parse_type_f_bounded)

locale expr_parser = bounded_parser p n for p :: "expr parser" and n
begin

lemma parse_elements_moves: "parse_elements p close k s = Inr (x, s') \<Longrightarrow> moves s s'"
proof (induction k arbitrary: s x)
  case (Suc k)
  then obtain t where t: "ts_get s = Inr t" by (auto simp: loop_simps bindE_eq_Inr_iff)
  with Suc.prems consider "s' = s" | e where "p s = Inr (e, s')"
    | e s1 c s2 y where "p s = Inr (e, s1)" "accept TK_COMMA s1 = Inr (c, s2)"
        "parse_elements p close k s2 = Inr (y, s')"
    by (auto simp: loop_simps bindE_eq_Inr_iff split: if_splits)
  then show ?case
  proof cases
    case 1
    with t show ?thesis by (simp add: moves_refl_get)
  next
    case 2
    then show ?thesis by (auto dest: p_advances advances_moves)
  next
    case 3
    from p_advances [OF 3(1)] accept_advances [OF 3(2)] Suc.IH [OF 3(3)] show ?thesis
      by (auto simp: cursor_defs)
  qed
qed (simp add: loop_simps)

lemma parse_elements_fuel:
  "parse_elements p close k s = Inl OutOfFuel \<Longrightarrow> k \<le> remaining s \<or> n \<le> remaining s"
proof (induction k arbitrary: s)
  case (Suc k)
  then consider "p s = Inl OutOfFuel"
    | e s1 c s2 where "p s = Inr (e, s1)" "accept TK_COMMA s1 = Inr (c, s2)"
        "parse_elements p close k s2 = Inl OutOfFuel"
    by (auto simp: loop_simps bindE_eq_Inl_iff split: if_splits)
  then show ?case
  proof cases
    case 1
    then show ?thesis by (simp add: p_fuel)
  next
    case 2
    then have "remaining s2 < remaining s"
      by (auto simp: cursor_defs remaining_def dest!: p_advances accept_advances)
    with Suc.IH [OF 2(3)] show ?thesis by auto
  qed
qed (simp add: loop_simps)

lemma FunctionCall_new_advances: "FunctionCall_new p e s = Inr (x, s') \<Longrightarrow> advances s s'"
  by (auto simp: FunctionCall_new_def bindE_eq_Inr_iff cursor_defs dest!: accept_advances parse_elements_moves)

lemma FunctionCall_new_fuel: "FunctionCall_new p e s = Inl OutOfFuel \<Longrightarrow> n < remaining s"
  by (auto simp: FunctionCall_new_def bindE_eq_Inl_iff cursor_defs remaining_def dest!: accept_advances
      parse_elements_fuel)

lemma RowLiteral_new_advances: "RowLiteral_new p s = Inr (x, s') \<Longrightarrow> advances s s'"
  by (auto simp: RowLiteral_new_def bindE_eq_Inr_iff cursor_defs dest!: accept_advances parse_elements_moves)

lemma RowLiteral_new_fuel: "RowLiteral_new p s = Inl OutOfFuel \<Longrightarrow> n < remaining s"
  by (auto simp: RowLiteral_new_def bindE_eq_Inl_iff cursor_defs remaining_def dest!: accept_advances
      parse_elements_fuel)

lemma ArrayLiteral_new_advances: "ArrayLiteral_new p s = Inr (x, s') \<Longrightarrow> advances s s'"
  by (auto simp: ArrayLiteral_new_def bindE_eq_Inr_iff cursor_defs dest!: accept_advances parse_elements_moves)

lemma ArrayLiteral_new_fuel: "ArrayLiteral_new p s = Inl OutOfFuel \<Longrightarrow> n < remaining s"
  by (auto simp: ArrayLiteral_new_def bindE_eq_Inl_iff cursor_defs remaining_def dest!: accept_advances
      parse_elements_fuel)

lemma ArrayReference_new_advances: "ArrayReference_new p e s = Inr (x, s') \<Longrightarrow> advances s s'"
  by (auto simp: ArrayReference_new_def bindE_eq_Inr_iff cursor_defs dest!: accept_advances p_advances)

lemma ArrayReference_new_fuel: "ArrayReference_new p e s = Inl OutOfFuel \<Longrightarrow> n < remaining s"
  by (auto simp: ArrayReference_new_def bindE_eq_Inl_iff cursor_defs remaining_def dest!: accept_advances p_fuel)

lemma MemberReference_new_advances: "MemberReference_new e s = Inr (x, s') \<Longrightarrow> advances s s'"
  by (auto simp: MemberReference_new_def bindE_eq_Inr_iff dest!: accept_advances get_next_advances
      intro: cursor_trans)

lemma MemberReference_new_fuel [simp]: "MemberReference_new e s \<noteq> Inl OutOfFuel"
  by (auto simp: MemberReference_new_def bindE_eq_Inl_iff)

lemma Assign_new_advances: "Assign_new p e s = Inr (x, s') \<Longrightarrow> advances s s'"
  by (auto simp: Assign_new_def bindE_eq_Inr_iff cursor_defs dest!: accept_advances p_advances)

lemma Assign_new_fuel: "Assign_new p e s = Inl OutOfFuel \<Longrightarrow> n < remaining s"
  by (auto simp: Assign_new_def bindE_eq_Inl_iff cursor_defs remaining_def dest!: accept_advances p_fuel)

lemmas suffix_advances =
  FunctionCall_new_advances ArrayReference_new_advances MemberReference_new_advances Assign_new_advances

lemma postfix_InrE:
  assumes "parse_expr_postfix p (Suc k) e s = Inr (x, s')"
  obtains "s' = s" "moves s s"
    | e1 s1 where "advances s s1" "parse_expr_postfix p k e1 s1 = Inr (x, s')"
    | rhs where "advances s (ts_next s)" "p (ts_next s) = Inr (rhs, s')"
  using assms
  by (auto simp: loop_simps bindE_eq_Inr_iff ts_has_next_def moves_refl
      split: if_splits option.splits dest: suffix_advances get_next_advances)

lemma parse_expr_postfix_moves: "parse_expr_postfix p k e s = Inr (x, s') \<Longrightarrow> moves s s'"
proof (induction k arbitrary: e s)
  case (Suc k)
  from Suc.prems show ?case
    by (cases rule: postfix_InrE)
       (auto dest!: Suc.IH p_advances intro: cursor_trans advances_moves)
qed (simp add: loop_simps)

lemma postfix_fuelE:
  assumes "parse_expr_postfix p (Suc k) e s = Inl OutOfFuel"
  obtains "n < remaining s"
    | e1 s1 where "advances s s1" "parse_expr_postfix p k e1 s1 = Inl OutOfFuel"
proof -
  have "n < remaining s" if "ts_get s = Inr t" "p (ts_next s) = Inl OutOfFuel" for t
    using p_fuel [OF that(2)] ts_get_remaining [OF that(1)] by simp
  with assms that show thesis
    by (auto simp: loop_simps bindE_eq_Inl_iff split: if_splits option.splits
        dest: suffix_advances FunctionCall_new_fuel ArrayReference_new_fuel Assign_new_fuel)
qed

lemma parse_expr_postfix_fuel:
  "parse_expr_postfix p k e s = Inl OutOfFuel \<Longrightarrow> k \<le> remaining s \<or> n < remaining s"
proof (induction k arbitrary: e s)
  case (Suc k)
  from Suc.prems show ?case
  proof (cases rule: postfix_fuelE)
    case (2 e1 s1)
    with Suc.IH [OF 2(2)] advances_remaining [OF 2(1)] show ?thesis by auto
  qed simp
qed simp

lemma parse_operand_advances: "parse_operand p s = Inr (x, s') \<Longrightarrow> advances s s'"
  by (auto simp: parse_operand_def bindE_eq_Inr_iff VariableReference_new_def PrimaryExpression_new_def
      split: if_splits
      dest: RowLiteral_new_advances ArrayLiteral_new_advances get_next_advances accept_advances p_advances
      intro: cursor_trans)
     (meson get_next_advances accept_advances p_advances advances_trans)

lemma parse_operand_fuel: "parse_operand p s = Inl OutOfFuel \<Longrightarrow> n < remaining s"
  by (auto simp: parse_operand_def bindE_eq_Inl_iff VariableReference_new_def PrimaryExpression_new_def
      split: if_splits
      dest: RowLiteral_new_fuel ArrayLiteral_new_fuel dest!: p_fuel ts_get_remaining)

lemma body_expr_parser: "bounded_parser (parse_expr_body p) (Suc n)"
proof unfold_locales
  fix s s' x
  assume "parse_expr_body p s = Inr (x, s')"
  then show "advances s s'"
    by (auto simp: parse_expr_body_def bindE_eq_Inr_iff split: if_splits
        dest!: parse_operand_advances parse_expr_postfix_moves intro: cursor_trans)
next
  fix s
  assume "parse_expr_body p s = Inl OutOfFuel"
  then show "Suc n \<le> remaining s"
    by (auto simp: parse_expr_body_def bindE_eq_Inl_iff split: if_splits
        dest!: parse_operand_fuel parse_expr_postfix_fuel parse_operand_advances advances_remaining)
qed

end

lemma parse_expr_f_bounded: "bounded_parser (parse_expr_f n) n"
proof (induction n)
  case 0
  show ?case by unfold_locales simp_all
next
  case (Suc n)
  then have "expr_parser (parse_expr_f n) n" by (simp add: expr_parser_def)
  from expr_parser.body_expr_parser [OF this] show ?case
    by (simp add: bounded_parser_def)
qed

interpretation expr_f: expr_parser "parse_expr_f n" n for n
  by (simp add: expr_parser_def parse_expr_f_bounded)

section \<open>The recursion bound does not matter\<close>

text \<open>
  A parser body calls its argument only on streams with fewer tokens, so two arguments that
  agree there give the same result; hence every sufficient bound gives the same parser.
\<close>

definition agree_below :: "nat \<Rightarrow> 'a parser \<Rightarrow> 'a parser \<Rightarrow> bool" where
  "agree_below r p q \<longleftrightarrow> (\<forall>s. remaining s < r \<longrightarrow> p s = q s)"

lemma agree_belowD: "agree_below r p q \<Longrightarrow> remaining s < r \<Longrightarrow> p s = q s"
  by (simp add: agree_below_def)

lemma agree_below_mono: "agree_below r p q \<Longrightarrow> r' \<le> r \<Longrightarrow> agree_below r' p q"
  by (simp add: agree_below_def)

lemma accept_remaining: "accept ty s = Inr (x, s') \<Longrightarrow> remaining s' < remaining s"
  by (auto dest: accept_advances advances_remaining)

lemma bindE_accept_cong:
  "(\<And>x s'. remaining s' < remaining s \<Longrightarrow> f (x, s') = g (x, s')) \<Longrightarrow>
   bindE (accept ty s) f = bindE (accept ty s) g"
  by (rule bindE_cong) (auto dest: accept_remaining)

lemma parse_type_body_cong:
  "agree_below (remaining s) p q \<Longrightarrow> parse_type_body p s = parse_type_body q s"
  by (auto simp: parse_type_body_def ArrayType_new_def agree_belowD intro!: bindE_cong bindE_accept_cong)

context expr_parser
begin

lemma parse_elements_cong:
  "agree_below r p q \<Longrightarrow> remaining s < r \<Longrightarrow> parse_elements p close k s = parse_elements q close k s"
proof (induction k arbitrary: s)
  case (Suc k)
  have "parse_elements p close k s2 = parse_elements q close k s2"
    if "p s = Inr (e, s1)" "accept TK_COMMA s1 = Inr (x, s2)" for e s1 x s2
    using Suc p_consumes [OF that(1)] accept_remaining [OF that(2)] by simp
  then show ?case
    using agree_belowD [OF Suc.prems]
    by (auto simp: loop_simps intro!: bindE_cong)
qed (simp add: loop_simps)

lemma literal_cong:
  assumes "agree_below (remaining s) p q"
  shows "FunctionCall_new p e s = FunctionCall_new q e s" "RowLiteral_new p s = RowLiteral_new q s"
    "ArrayLiteral_new p s = ArrayLiteral_new q s" "ArrayReference_new p v s = ArrayReference_new q v s"
    "Assign_new p e s = Assign_new q e s"
  using assms
  by (auto simp: FunctionCall_new_def RowLiteral_new_def ArrayLiteral_new_def ArrayReference_new_def
      Assign_new_def agree_belowD parse_elements_cong intro!: bindE_cong bindE_accept_cong)

lemma parse_expr_postfix_cong:
  "agree_below (remaining s) p q \<Longrightarrow> parse_expr_postfix p k e s = parse_expr_postfix q k e s"
proof (induction k arbitrary: e s)
  case (Suc k)
  have "parse_expr_postfix p k e1 s1 = parse_expr_postfix q k e1 s1" if "advances s s1" for e1 s1
    using Suc.prems advances_remaining [OF that] by (intro Suc.IH) (auto intro: agree_below_mono)
  note step = this [OF FunctionCall_new_advances] this [OF ArrayReference_new_advances]
    this [OF MemberReference_new_advances] this [OF Assign_new_advances]
  have "p (ts_next s) = q (ts_next s)" if "ts_get s = Inr t" for t
    using Suc.prems ts_get_remaining [OF that] by (simp add: agree_belowD)
  then show ?case
    using step [unfolded literal_cong [OF Suc.prems]]
    by (auto simp: loop_simps literal_cong [OF Suc.prems] intro!: bindE_cong split: option.splits)
qed (simp add: loop_simps)

lemma parse_operand_cong: "agree_below (remaining s) p q \<Longrightarrow> parse_operand p s = parse_operand q s"
  by (auto simp: parse_operand_def literal_cong [symmetric] agree_belowD ts_get_remaining intro!: bindE_cong)

lemma parse_expr_body_cong:
  assumes "agree_below (remaining s) p q"
  shows "parse_expr_body p s = parse_expr_body q s"
proof -
  have "parse_expr_postfix p k e s1 = parse_expr_postfix q k e s1" if "parse_operand p s = Inr (e, s1)" for e s1 k
    using assms advances_remaining [OF parse_operand_advances [OF that]]
    by (intro parse_expr_postfix_cong) (auto intro: agree_below_mono)
  then show ?thesis
    by (auto simp: parse_expr_body_def parse_operand_cong [OF assms, symmetric] intro!: bindE_cong)
qed

end

lemma parse_type_f_stable: "remaining s < n \<Longrightarrow> remaining s < m \<Longrightarrow> parse_type_f n s = parse_type_f m s"
proof (induction n arbitrary: m s)
  case (Suc n)
  then obtain m' where m: "m = Suc m'" by (cases m) auto
  have "agree_below (remaining s) (parse_type_f n) (parse_type_f m')"
    using Suc.prems by (auto simp: agree_below_def m intro!: Suc.IH)
  from parse_type_body_cong [OF this] show ?case by (simp add: m)
qed simp

lemma parse_expr_f_stable: "remaining s < n \<Longrightarrow> remaining s < m \<Longrightarrow> parse_expr_f n s = parse_expr_f m s"
proof (induction n arbitrary: m s)
  case (Suc n)
  then obtain m' where m: "m = Suc m'" by (cases m) auto
  have "agree_below (remaining s) (parse_expr_f n) (parse_expr_f m')"
    using Suc.prems by (auto simp: agree_below_def m intro!: Suc.IH)
  from expr_f.parse_expr_body_cong [OF this] show ?case by (simp add: m)
qed simp

declare parse_type_f.simps(2) [simp del] parse_expr_f.simps(2) [simp del]

lemma parse_type_unfold: "parse_type s = parse_type_body parse_type s"
proof -
  have "agree_below (remaining s) (parse_type_f (remaining s)) parse_type"
    by (auto simp: agree_below_def parse_type_def intro!: parse_type_f_stable)
  then show ?thesis by (simp add: parse_type_def parse_type_f.simps parse_type_body_cong)
qed

lemma parse_expr_unfold: "parse_expr s = parse_expr_body parse_expr s"
proof -
  have "agree_below (remaining s) (parse_expr_f (remaining s)) parse_expr"
    by (auto simp: agree_below_def parse_expr_def intro!: parse_expr_f_stable)
  then show ?thesis by (simp add: parse_expr_def parse_expr_f.simps expr_f.parse_expr_body_cong)
qed

text \<open>The parsers the rest of the development calls are total in every bound.\<close>

interpretation types: type_parser parse_type n for n
  by unfold_locales
     (use type_f.p_advances type_f.p_fuel in \<open>fastforce simp: parse_type_def\<close>)+

interpretation exprs: expr_parser parse_expr n for n
  by unfold_locales
     (use expr_f.p_advances expr_f.p_fuel in \<open>fastforce simp: parse_expr_def\<close>)+

lemma parse_type_total [simp]: "parse_type s \<noteq> Inl OutOfFuel"
  using types.p_total [of s "Suc (remaining s)"] by simp

lemma parse_expr_total [simp]: "parse_expr s \<noteq> Inl OutOfFuel"
  using exprs.p_total [of s "Suc (remaining s)"] by simp

section \<open>Properties\<close>

text \<open>
  C18. Parsing an expression always ends, with an expression or with an error: the bound is
  never the reason. The parser satisfies the recursive equation of the code, without any
  bound on the nested calls, and when it succeeds it has consumed at least one token and has
  not moved past the last one.
\<close>

theorem parse_expr_returns:
  "parse_expr s \<noteq> Inl OutOfFuel \<and> parse_expr s = parse_expr_body parse_expr s \<and>
   (\<forall>e s'. parse_expr s = Inr (e, s') \<longrightarrow> advances s s')"
  using parse_expr_unfold [of s] exprs.p_advances by auto

theorem parse_expr_returns_witness:
  "let s = token_stream_new [\<lparr>tk_type = TK_IDENTIFIER, tk_text = ''x'', tk_row = 1, tk_col = 1\<rparr>]
   in parse_expr s = Inr (VariableReference None ''x'', s\<lparr>ts_idx := 1\<rparr>) \<and> advances s (s\<lparr>ts_idx := 1\<rparr>)"
proof -
  let ?s = "token_stream_new [\<lparr>tk_type = TK_IDENTIFIER, tk_text = ''x'', tk_row = 1, tk_col = 1\<rparr>]"
  have eq: "parse_expr ?s = Inr (VariableReference None ''x'', ?s\<lparr>ts_idx := 1\<rparr>)"
    by code_simp
  with parse_expr_returns [of ?s] show ?thesis by (simp only: Let_def) blast
qed

end
