(* ===== verification/Reir_Print_Expr.thy ===== *)
theory Reir_Print_Expr
  imports Reir_Parse_Expr
begin

text \<open>
  What the expression parser accepts and what it builds: a printer of expressions into
  token kinds and texts, and the proof that the parser reads every printed expression back.
  The printer puts parentheses around a left operand that is itself a binary expression, an
  assignment or an address, and none on the right: the parser knows no precedence and
  groups operators to the right.
\<close>

section \<open>Streams by position\<close>

definition stream :: "token list \<Rightarrow> token list \<Rightarrow> token_stream" where
  "stream pre xs = \<lparr>ts_tokens = pre @ xs, ts_idx = length pre\<rparr>"

lemma stream_simps [simp]:
  "ts_get (stream pre (t # ts)) = Inr t"
  "ts_next (stream pre (t # ts)) = stream (pre @ [t]) ts"
  "remaining (stream pre ts) = length ts"
  "ts_has_next (stream pre ts) \<longleftrightarrow> ts \<noteq> []"
  by (simp_all add: stream_def ts_get_def ts_next_def remaining_def ts_has_next_def)

lemma accept_stream [simp]:
  "tk_type t = ty \<Longrightarrow> accept ty (stream pre (t # ts)) = Inr (tk_text t, stream (pre @ [t]) ts)"
  by (simp add: accept_def expect_token_def)

section \<open>The postfix loop without its bound\<close>

definition postfix :: "expr \<Rightarrow> expr parser" where
  "postfix e s = parse_expr_postfix parse_expr (Suc (remaining s)) e s"

lemma postfix_stable:
  "remaining s < k \<Longrightarrow> remaining s < m \<Longrightarrow>
   parse_expr_postfix parse_expr k e s = parse_expr_postfix parse_expr m e s"
proof (induction k arbitrary: m e s)
  case (Suc k)
  then obtain m' where m: "m = Suc m'" by (cases m) auto
  have "parse_expr_postfix parse_expr k e1 s1 = parse_expr_postfix parse_expr m' e1 s1" if "advances s s1" for e1 s1
    using Suc.prems advances_remaining [OF that] by (intro Suc.IH) (simp_all add: m)
  note step = this [OF exprs.FunctionCall_new_advances] this [OF exprs.ArrayReference_new_advances]
    this [OF exprs.MemberReference_new_advances] this [OF exprs.Assign_new_advances]
  show ?case
    using step by (auto simp: m loop_simps intro!: bindE_cong split: option.splits)
qed simp

lemma postfix_eq: "remaining s < k \<Longrightarrow> parse_expr_postfix parse_expr k e s = postfix e s"
  by (simp add: postfix_def postfix_stable [of s k "Suc (remaining s)"])

lemma postfix_end [simp]: "postfix e (stream pre []) = Inr (e, stream pre [])"
  by (simp add: postfix_def loop_simps)

lemma parse_expr_operand: "parse_expr s = bindE (parse_operand parse_expr s) (\<lambda>(e, s). postfix e s)"
  by (subst parse_expr_unfold)
     (auto simp: parse_expr_body_def postfix_def loop_simps intro!: bindE_cong)

text \<open>One turn of the loop, on a token that continues the expression.\<close>

lemma postfix_call:
  assumes "tk_type t = TK_OPEN_PAREN" "FunctionCall_new parse_expr e (stream pre (t # ts)) = Inr (e', s')"
  shows "postfix e (stream pre (t # ts)) = postfix e' s'"
  using assms(1) advances_remaining [OF exprs.FunctionCall_new_advances [OF assms(2)]]
  by (simp add: postfix_def [of e] parse_expr_postfix.simps(2) [of _ _ e] assms(2) postfix_eq)

lemma postfix_index:
  assumes "tk_type t = TK_OPEN_BRACKET" "ArrayReference_new parse_expr (as_variable e) (stream pre (t # ts)) = Inr (e', s')"
  shows "postfix e (stream pre (t # ts)) = postfix e' s'"
  using assms(1) advances_remaining [OF exprs.ArrayReference_new_advances [OF assms(2)]]
  by (simp add: postfix_def [of e] parse_expr_postfix.simps(2) [of _ _ e] assms(2) postfix_eq)

lemma postfix_member:
  assumes "tk_type t = TK_PERIOD" "MemberReference_new e (stream pre (t # ts)) = Inr (e', s')"
  shows "postfix e (stream pre (t # ts)) = postfix e' s'"
  using assms(1) advances_remaining [OF exprs.MemberReference_new_advances [OF assms(2)]]
  by (simp add: postfix_def [of e] parse_expr_postfix.simps(2) [of _ _ e] assms(2) postfix_eq)

lemma postfix_assign:
  assumes "tk_type t = TK_EQUAL" "Assign_new parse_expr e (stream pre (t # ts)) = Inr (e', s')"
  shows "postfix e (stream pre (t # ts)) = postfix e' s'"
  using assms(1) advances_remaining [OF exprs.Assign_new_advances [OF assms(2)]]
  by (simp add: postfix_def [of e] parse_expr_postfix.simps(2) [of _ _ e] assms(2) postfix_eq)

lemma binary_operator_not_suffix:
  "binary_operator ty = Some op \<Longrightarrow> ty \<notin> {TK_OPEN_PAREN, TK_OPEN_BRACKET, TK_PERIOD, TK_EQUAL}"
  by (cases ty) simp_all

lemma postfix_binary:
  "binary_operator (tk_type t) = Some op \<Longrightarrow>
   postfix e (stream pre (t # ts)) =
     bindE (parse_expr (stream (pre @ [t]) ts)) (\<lambda>(rhs, s). Inr (BinaryExpression None op e rhs, s))"
  using binary_operator_not_suffix [of "tk_type t" op] by (simp add: postfix_def loop_simps)

section \<open>Printing expressions\<close>

text \<open>A token after which an expression ends.\<close>

definition ends_expr :: "token_type \<Rightarrow> bool" where
  "ends_expr ty \<longleftrightarrow>
     ty \<notin> {TK_OPEN_PAREN, TK_OPEN_BRACKET, TK_PERIOD, TK_EQUAL} \<and> binary_operator ty = None"

definition stops :: "token list \<Rightarrow> bool" where
  "stops ts \<longleftrightarrow> (case ts of [] \<Rightarrow> True | t # _ \<Rightarrow> ends_expr (tk_type t))"

lemma postfix_stop: "stops ts \<Longrightarrow> postfix e (stream pre ts) = Inr (e, stream pre ts)"
  by (cases ts) (simp_all add: stops_def ends_expr_def postfix_def loop_simps)

fun op_lexeme :: "operators \<Rightarrow> token_type \<times> string" where
  "op_lexeme OP_PLUS = (TK_PLUS, ''+'')"
| "op_lexeme OP_MINUS = (TK_MINUS, ''-'')"
| "op_lexeme OP_MULTIPLE = (TK_ASTERISK, ''*'')"
| "op_lexeme OP_DIVISION = (TK_SLASH, ''/'')"
| "op_lexeme OP_EQUAL = (TK_EQUAL_EQUAL, ''=='')"
| "op_lexeme OP_MODULO = (TK_PERCENT, ''%'')"
| "op_lexeme OP_LESSTHAN = (TK_OPEN_ANGLE, ''<'')"
| "op_lexeme OP_LESSEQUAL = (TK_OPEN_ANGLE_EQUAL, ''<='')"
| "op_lexeme OP_MORETHAN = (TK_CLOSE_ANGLE, ''>'')"
| "op_lexeme OP_MOREEQUAL = (TK_CLOSE_ANGLE_EQUAL, ''>='')"
| "op_lexeme OP_NOTEQUAL = (TK_EXCLAMATION_MARK_EQUAL, ''!='')"
| "op_lexeme OP_CONDITIONAL_AND = (TK_AND_AND, ''&&'')"
| "op_lexeme OP_CONDITIONAL_OR = (TK_OR_OR, ''||'')"
| "op_lexeme OP_NONE = (TK_INVALID, [])"

lemma binary_operator_op_lexeme: "op \<noteq> OP_NONE \<Longrightarrow> binary_operator (fst (op_lexeme op)) = Some op"
  by (cases op) simp_all

definition paren :: "bool \<Rightarrow> (token_type \<times> string) list \<Rightarrow> (token_type \<times> string) list" where
  "paren b xs = (if b then (TK_OPEN_PAREN, ''('') # xs @ [(TK_CLOSE_PAREN, '')'')] else xs)"

text \<open>
  The lexemes of an expression; the flag asks for parentheses where the parser would
  otherwise continue with the outer operator.
\<close>

fun lex_expr :: "bool \<Rightarrow> expr \<Rightarrow> (token_type \<times> string) list"
and lex_list :: "expr list \<Rightarrow> (token_type \<times> string) list" where
  "lex_expr b (PrimaryExpression _ v) =
     (case vi_value (mv_value v) of
        VInt w \<Rightarrow> [(TK_NUMBER, show_nat (unat w))]
      | VStr s \<Rightarrow> [(TK_STRING_LITERAL, s)]
      | VDouble _ \<Rightarrow> [])"
| "lex_expr b (PrimaryNested _ e) = []"
| "lex_expr b (BinaryExpression _ op l r) = paren b (lex_expr True l @ op_lexeme op # lex_expr False r)"
| "lex_expr b (PointerOf _ None) = []"
| "lex_expr b (PointerOf _ (Some e)) = paren b ((TK_AND, ''&'') # lex_expr False e)"
| "lex_expr b (RowLiteral _ es) = (TK_OPEN_BRACE, ''{'') # lex_list es @ [(TK_CLOSE_BRACE, ''}'')]"
| "lex_expr b (ArrayLiteral _ es) = (TK_OPEN_BRACKET, ''['') # lex_list es @ [(TK_CLOSE_BRACKET, '']'')]"
| "lex_expr b (VariableReference _ n) = [(TK_IDENTIFIER, n)]"
| "lex_expr b (FunctionCall _ p as) =
     lex_expr True p @ (TK_OPEN_PAREN, ''('') # lex_list as @ [(TK_CLOSE_PAREN, '')'')]"
| "lex_expr b (ArrayReference _ None i) = []"
| "lex_expr b (ArrayReference _ (Some p) i) =
     lex_expr True p @ (TK_OPEN_BRACKET, ''['') # lex_expr False i @ [(TK_CLOSE_BRACKET, '']'')]"
| "lex_expr b (MemberReference _ p n _) = lex_expr True p @ [(TK_PERIOD, ''.''), (TK_IDENTIFIER, n)]"
| "lex_expr b (Assign _ t v) = paren b (lex_expr True t @ (TK_EQUAL, ''='') # lex_expr False v)"
| "lex_list [] = []"
| "lex_list (e # es) = lex_expr False e @ (if es = [] then [] else (TK_COMMA, '','') # lex_list es)"

text \<open>
  The expressions the grammar can produce: no types yet, non-negative integer literals within
  \<open>int\<close>, string literals, an array index only on a variable.
\<close>

fun source_expr :: "expr \<Rightarrow> bool" where
  "source_expr (PrimaryExpression t v) \<longleftrightarrow> t = None \<and>
     (case vi_value (mv_value v) of
        VInt w \<Rightarrow> unat w < 2 ^ 31 \<and> v = MaybeValue_int w
      | VStr s \<Rightarrow> v = MaybeValue_slice s
      | VDouble _ \<Rightarrow> False)"
| "source_expr (PrimaryNested _ e) \<longleftrightarrow> False"
| "source_expr (BinaryExpression t op l r) \<longleftrightarrow> t = None \<and> op \<noteq> OP_NONE \<and> source_expr l \<and> source_expr r"
| "source_expr (PointerOf t e) \<longleftrightarrow> t = None \<and> (case e of None \<Rightarrow> False | Some e' \<Rightarrow> source_expr e')"
| "source_expr (RowLiteral t es) \<longleftrightarrow> t = None \<and> list_all source_expr es"
| "source_expr (ArrayLiteral t es) \<longleftrightarrow> t = None \<and> list_all source_expr es"
| "source_expr (VariableReference t n) \<longleftrightarrow> t = None"
| "source_expr (FunctionCall t p as) \<longleftrightarrow> t = None \<and> source_expr p \<and> list_all source_expr as"
| "source_expr (ArrayReference t p i) \<longleftrightarrow> t = None \<and>
     (case p of Some (VariableReference u n) \<Rightarrow> u = None | _ \<Rightarrow> False) \<and> source_expr i"
| "source_expr (MemberReference t p n off) \<longleftrightarrow> t = None \<and> off = None \<and> source_expr p"
| "source_expr (Assign t a v) \<longleftrightarrow> t = None \<and> source_expr a \<and> source_expr v"

section \<open>Parsing what was printed\<close>

definition starters :: "token_type set" where
  "starters = {TK_AND, TK_OPEN_BRACE, TK_OPEN_PAREN, TK_OPEN_BRACKET, TK_IDENTIFIER, TK_STRING_LITERAL, TK_NUMBER}"

definition closers :: "token_type set" where
  "closers = {TK_CLOSE_PAREN, TK_CLOSE_BRACE, TK_CLOSE_BRACKET}"

definition reads_operand :: "expr \<Rightarrow> bool" where
  "reads_operand e \<longleftrightarrow>
     (\<forall>pre xs rest. map token_lexeme xs = lex_expr True e \<longrightarrow>
        parse_expr (stream pre (xs @ rest)) = postfix e (stream (pre @ xs) rest))"

definition reads_expr :: "expr \<Rightarrow> bool" where
  "reads_expr e \<longleftrightarrow>
     (\<forall>pre xs rest. map token_lexeme xs = lex_expr False e \<longrightarrow> stops rest \<longrightarrow>
        parse_expr (stream pre (xs @ rest)) = Inr (e, stream (pre @ xs) rest))"

lemma reads_operandD:
  "reads_operand e \<Longrightarrow> map token_lexeme xs = lex_expr True e \<Longrightarrow>
   parse_expr (stream pre (xs @ rest)) = postfix e (stream (pre @ xs) rest)"
  by (simp add: reads_operand_def)

lemma reads_exprD:
  "reads_expr e \<Longrightarrow> map token_lexeme xs = lex_expr False e \<Longrightarrow> stops rest \<Longrightarrow>
   parse_expr (stream pre (xs @ rest)) = Inr (e, stream (pre @ xs) rest)"
  by (simp add: reads_expr_def)

lemma token_lexeme_eq [simp]:
  "token_lexeme t = (ty, w) \<longleftrightarrow> tk_type t = ty \<and> tk_text t = w"
  "(ty, w) = token_lexeme t \<longleftrightarrow> tk_type t = ty \<and> tk_text t = w"
  by (auto simp: token_lexeme_def)

lemma stoi_show_unat: "unat w < 2 ^ 31 \<Longrightarrow> stoi (show_nat (unat w)) = Inr (uint w)" for w :: "64 word"
proof -
  assume "unat w < 2 ^ 31"
  then have "int (unat w) < 2 ^ 31" by (metis of_nat_less_iff of_nat_numeral of_nat_power)
  from stoi_show_nat [OF this] show ?thesis by simp
qed

lemma stops_Cons [simp]: "stops (t # ts) \<longleftrightarrow> ends_expr (tk_type t)"
  by (simp add: stops_def)

lemma ends_expr_simps [simp]:
  "ends_expr TK_CLOSE_PAREN" "ends_expr TK_CLOSE_BRACE" "ends_expr TK_CLOSE_BRACKET" "ends_expr TK_COMMA"
  "ends_expr TK_OPEN_BRACE" "ends_expr TK_SEMICOLON"
  by (simp_all add: ends_expr_def)

lemma lex_expr_start: "source_expr e \<Longrightarrow> \<exists>ty w ys. lex_expr b e = (ty, w) # ys \<and> ty \<in> starters"
proof (induction e arbitrary: b)
  case (PrimaryExpression t v)
  then show ?case by (auto simp: starters_def split: val_variant.splits)
next
  case (BinaryExpression t op l r)
  from BinaryExpression.IH(1) [of True] BinaryExpression.prems show ?case
    by (auto simp: paren_def starters_def)
next
  case (PointerOf t e)
  then show ?case by (auto simp: paren_def starters_def split: option.splits)
next
  case (FunctionCall t p as)
  from FunctionCall.IH(1) [of True] FunctionCall.prems show ?case by auto
next
  case (ArrayReference t p i)
  then show ?case by (auto simp: starters_def split: option.splits expr.splits)
next
  case (MemberReference t p n off)
  from MemberReference.IH [of True] MemberReference.prems show ?case by auto
next
  case (Assign t a v)
  from Assign.IH(1) [of True] Assign.prems show ?case by (auto simp: paren_def starters_def)
qed (simp_all add: starters_def)

lemma reads_plain:
  assumes "lex_expr True e = lex_expr False e" "reads_operand e"
  shows "reads_expr e"
  using assms by (simp add: reads_expr_def reads_operandD postfix_stop)

lemma reads_paren:
  assumes "lex_expr True e = paren True (lex_expr False e)" "reads_expr e"
  shows "reads_operand e"
  unfolding reads_operand_def
proof (intro allI impI)
  fix pre xs rest
  assume "map token_lexeme xs = lex_expr True e"
  then obtain a ys c where xs: "xs = a # ys @ [c]" and ys: "map token_lexeme ys = lex_expr False e"
    and t: "tk_type a = TK_OPEN_PAREN" "tk_type c = TK_CLOSE_PAREN"
    by (auto simp: assms(1) paren_def map_eq_Cons_conv map_eq_append_conv append_eq_map_conv Cons_eq_map_conv)
  have "parse_expr (stream (pre @ [a]) (ys @ c # rest)) = Inr (e, stream (pre @ [a] @ ys) (c # rest))"
    using reads_exprD [OF assms(2) ys] t by simp
  then show "parse_expr (stream pre (xs @ rest)) = postfix e (stream (pre @ xs) rest)"
    using t by (subst parse_expr_operand) (simp add: parse_operand_def xs)
qed

lemma parse_elements_list:
  assumes "\<forall>e \<in> set es. reads_expr e \<and> source_expr e" "map token_lexeme xs = lex_list es"
    and "tk_type c \<in> closers" "length xs < k"
  shows "parse_elements parse_expr (tk_type c) k (stream pre (xs @ c # rest)) =
         Inr (es, stream (pre @ xs) (c # rest))"
  using assms
proof (induction es arbitrary: xs k pre)
  case Nil
  then show ?case by (cases k) (simp_all add: loop_simps)
next
  case (Cons e es)
  then obtain k' where k: "k = Suc k'" by (cases k) auto
  from Cons.prems obtain ys zs where xs: "xs = ys @ zs" and ys: "map token_lexeme ys = lex_expr False e"
    and zs: "map token_lexeme zs = (if es = [] then [] else (TK_COMMA, '','') # lex_list es)"
    by (auto simp: map_eq_append_conv)
  have e: "reads_expr e" "source_expr e" using Cons.prems(1) by auto
  from lex_expr_start [OF e(2), of False] ys obtain y ys' where y: "ys = y # ys'" "tk_type y \<in> starters"
    by (auto simp: map_eq_Cons_conv)
  have yc: "tk_type y \<noteq> tk_type c" using y(2) Cons.prems(3) by (auto simp: starters_def closers_def)
  have stop: "stops (zs @ c # rest)"
    using zs Cons.prems(3) by (cases "es = []") (auto simp: closers_def map_eq_Cons_conv)
  note pe = reads_exprD [OF e(1) ys stop, of pre]
  show ?case
  proof (cases "es = []")
    case True
    with zs pe yc show ?thesis by (simp add: xs k y(1) loop_simps)
  next
    case False
    then obtain m ms where m: "zs = m # ms" "tk_type m = TK_COMMA" "map token_lexeme ms = lex_list es"
      using zs by (auto simp: map_eq_Cons_conv)
    have "parse_elements parse_expr (tk_type c) k' (stream (pre @ ys @ [m]) (ms @ c # rest)) =
        Inr (es, stream (pre @ ys @ [m] @ ms) (c # rest))"
      using Cons.IH [of ms k' "pre @ ys @ [m]"] Cons.prems m by (simp add: xs k)
    moreover have "TK_COMMA \<noteq> tk_type c" using Cons.prems(3) by (auto simp: closers_def)
    ultimately show ?thesis using pe yc m by (simp add: xs k y(1) loop_simps)
  qed
qed

lemma reads_primary: "source_expr (PrimaryExpression t v) \<Longrightarrow> reads_operand (PrimaryExpression t v)"
  unfolding reads_operand_def
  by (subst parse_expr_operand)
     (auto simp: parse_operand_def PrimaryExpression_new_def map_eq_Cons_conv stoi_show_unat
      split: val_variant.splits)

lemma reads_variable: "reads_operand (VariableReference None n)"
  unfolding reads_operand_def
  by (subst parse_expr_operand)
     (auto simp: parse_operand_def VariableReference_new_def map_eq_Cons_conv)

lemma reads_row:
  assumes "\<forall>e \<in> set es. reads_expr e \<and> source_expr e"
  shows "reads_operand (RowLiteral None es)"
  unfolding reads_operand_def
proof (intro allI impI)
  fix pre xs rest
  assume "map token_lexeme xs = lex_expr True (RowLiteral None es)"
  then obtain a zs c where xs: "xs = a # zs @ [c]" and zs: "map token_lexeme zs = lex_list es"
    and t: "tk_type a = TK_OPEN_BRACE" "tk_type c = TK_CLOSE_BRACE"
    by (auto simp: map_eq_Cons_conv map_eq_append_conv append_eq_map_conv Cons_eq_map_conv)
  show "parse_expr (stream pre (xs @ rest)) = postfix (RowLiteral None es) (stream (pre @ xs) rest)"
    using parse_elements_list [OF assms zs, of c "Suc (length (zs @ c # rest))" "pre @ [a]" rest] t
    by (subst parse_expr_operand) (simp add: parse_operand_def RowLiteral_new_def closers_def xs)
qed

lemma reads_array:
  assumes "\<forall>e \<in> set es. reads_expr e \<and> source_expr e"
  shows "reads_operand (ArrayLiteral None es)"
  unfolding reads_operand_def
proof (intro allI impI)
  fix pre xs rest
  assume "map token_lexeme xs = lex_expr True (ArrayLiteral None es)"
  then obtain a zs c where xs: "xs = a # zs @ [c]" and zs: "map token_lexeme zs = lex_list es"
    and t: "tk_type a = TK_OPEN_BRACKET" "tk_type c = TK_CLOSE_BRACKET"
    by (auto simp: map_eq_Cons_conv map_eq_append_conv append_eq_map_conv Cons_eq_map_conv)
  show "parse_expr (stream pre (xs @ rest)) = postfix (ArrayLiteral None es) (stream (pre @ xs) rest)"
    using parse_elements_list [OF assms zs, of c "Suc (length (zs @ c # rest))" "pre @ [a]" rest] t
    by (subst parse_expr_operand) (simp add: parse_operand_def ArrayLiteral_new_def closers_def xs)
qed

lemma reads_call:
  assumes p: "reads_operand p" and as: "\<forall>e \<in> set as. reads_expr e \<and> source_expr e"
  shows "reads_operand (FunctionCall None p as)"
  unfolding reads_operand_def
proof (intro allI impI)
  fix pre xs rest
  assume "map token_lexeme xs = lex_expr True (FunctionCall None p as)"
  then obtain ys a zs c where xs: "xs = ys @ a # zs @ [c]" and ys: "map token_lexeme ys = lex_expr True p"
    and zs: "map token_lexeme zs = lex_list as" and t: "tk_type a = TK_OPEN_PAREN" "tk_type c = TK_CLOSE_PAREN"
    by (auto simp: map_eq_Cons_conv map_eq_append_conv append_eq_map_conv Cons_eq_map_conv)
  have "FunctionCall_new parse_expr p (stream (pre @ ys) (a # zs @ c # rest)) =
      Inr (FunctionCall None p as, stream (pre @ xs) rest)"
    using parse_elements_list [OF as zs, of c "Suc (length (zs @ c # rest))" "pre @ ys @ [a]" rest] t
    by (simp add: FunctionCall_new_def closers_def xs)
  from postfix_call [OF t(1) this] show "parse_expr (stream pre (xs @ rest)) = postfix (FunctionCall None p as) (stream (pre @ xs) rest)"
    using reads_operandD [OF p ys, of pre "a # zs @ c # rest"] by (simp add: xs)
qed

lemma reads_index:
  assumes i: "reads_expr i"
  shows "reads_operand (ArrayReference None (Some (VariableReference None n)) i)"
  unfolding reads_operand_def
proof (intro allI impI)
  fix pre xs rest
  let ?v = "VariableReference None n"
  assume "map token_lexeme xs = lex_expr True (ArrayReference None (Some ?v) i)"
  then obtain y a zs c where xs: "xs = [y] @ a # zs @ [c]" and y: "map token_lexeme [y] = lex_expr True ?v"
    and zs: "map token_lexeme zs = lex_expr False i" and t: "tk_type a = TK_OPEN_BRACKET" "tk_type c = TK_CLOSE_BRACKET"
    by (auto simp: map_eq_Cons_conv map_eq_append_conv append_eq_map_conv Cons_eq_map_conv)
  have "ArrayReference_new parse_expr (as_variable ?v) (stream (pre @ [y]) (a # zs @ c # rest)) =
      Inr (ArrayReference None (Some ?v) i, stream (pre @ xs) rest)"
    using reads_exprD [OF i zs, of "c # rest" "pre @ [y] @ [a]"] t
    by (simp add: ArrayReference_new_def as_variable_def xs)
  from postfix_index [OF t(1) this] show
    "parse_expr (stream pre (xs @ rest)) = postfix (ArrayReference None (Some ?v) i) (stream (pre @ xs) rest)"
    using reads_operandD [OF reads_variable y, of pre "a # zs @ c # rest"] by (simp add: xs)
qed

lemma reads_member:
  assumes p: "reads_operand p"
  shows "reads_operand (MemberReference None p n None)"
  unfolding reads_operand_def
proof (intro allI impI)
  fix pre xs rest
  assume "map token_lexeme xs = lex_expr True (MemberReference None p n None)"
  then obtain ys a c where xs: "xs = ys @ [a, c]" and ys: "map token_lexeme ys = lex_expr True p"
    and t: "tk_type a = TK_PERIOD" "tk_text c = n"
    by (auto simp: map_eq_Cons_conv map_eq_append_conv append_eq_map_conv Cons_eq_map_conv)
  have "MemberReference_new p (stream (pre @ ys) (a # c # rest)) =
      Inr (MemberReference None p n None, stream (pre @ xs) rest)"
    using t by (simp add: MemberReference_new_def xs)
  from postfix_member [OF t(1) this] show
    "parse_expr (stream pre (xs @ rest)) = postfix (MemberReference None p n None) (stream (pre @ xs) rest)"
    using reads_operandD [OF p ys, of pre "a # c # rest"] by (simp add: xs)
qed

lemma reads_assign:
  assumes a: "reads_operand a" and v: "reads_expr v"
  shows "reads_expr (Assign None a v)"
  unfolding reads_expr_def
proof (intro allI impI)
  fix pre xs rest
  assume "map token_lexeme xs = lex_expr False (Assign None a v)" and stop: "stops rest"
  then obtain ys e zs where xs: "xs = ys @ e # zs" and ys: "map token_lexeme ys = lex_expr True a"
    and zs: "map token_lexeme zs = lex_expr False v" and t: "tk_type e = TK_EQUAL"
    by (auto simp: paren_def map_eq_Cons_conv map_eq_append_conv append_eq_map_conv Cons_eq_map_conv)
  have "Assign_new parse_expr a (stream (pre @ ys) (e # zs @ rest)) = Inr (Assign None a v, stream (pre @ xs) rest)"
    using reads_exprD [OF v zs stop, of "pre @ ys @ [e]"] t by (simp add: Assign_new_def xs)
  from postfix_assign [OF t this] show "parse_expr (stream pre (xs @ rest)) = Inr (Assign None a v, stream (pre @ xs) rest)"
    using reads_operandD [OF a ys, of pre "e # zs @ rest"] stop by (simp add: xs postfix_stop)
qed

lemma reads_binary:
  assumes l: "reads_operand l" and r: "reads_expr r" and op: "op \<noteq> OP_NONE"
  shows "reads_expr (BinaryExpression None op l r)"
  unfolding reads_expr_def
proof (intro allI impI)
  fix pre xs rest
  assume "map token_lexeme xs = lex_expr False (BinaryExpression None op l r)" and stop: "stops rest"
  then obtain ys e zs where xs: "xs = ys @ e # zs" and ys: "map token_lexeme ys = lex_expr True l"
    and zs: "map token_lexeme zs = lex_expr False r" and t: "token_lexeme e = op_lexeme op"
    by (auto simp: paren_def map_eq_Cons_conv map_eq_append_conv append_eq_map_conv Cons_eq_map_conv)
  have "binary_operator (tk_type e) = Some op"
    using binary_operator_op_lexeme [OF op] by (simp add: token_lexeme_def flip: t)
  from postfix_binary [OF this, of l "pre @ ys" "zs @ rest"]
  show "parse_expr (stream pre (xs @ rest)) = Inr (BinaryExpression None op l r, stream (pre @ xs) rest)"
    using reads_operandD [OF l ys, of pre "e # zs @ rest"] reads_exprD [OF r zs stop, of "pre @ ys @ [e]"]
    by (simp add: xs)
qed

lemma reads_pointer:
  assumes e: "reads_expr e"
  shows "reads_expr (PointerOf None (Some e))"
  unfolding reads_expr_def
proof (intro allI impI)
  fix pre xs rest
  assume "map token_lexeme xs = lex_expr False (PointerOf None (Some e))" and stop: "stops rest"
  then obtain a zs where xs: "xs = a # zs" and zs: "map token_lexeme zs = lex_expr False e" and t: "tk_type a = TK_AND"
    by (auto simp: paren_def map_eq_Cons_conv)
  show "parse_expr (stream pre (xs @ rest)) = Inr (PointerOf None (Some e), stream (pre @ xs) rest)"
    using reads_exprD [OF e zs stop, of "pre @ [a]"] t
    by (subst parse_expr_operand) (simp add: parse_operand_def xs postfix_stop stop)
qed

lemma source_expr_reads: "source_expr e \<Longrightarrow> reads_operand e \<and> reads_expr e"
proof (induction e)
  case (PrimaryExpression t v)
  from reads_primary [OF this] show ?case by (simp add: reads_plain)
next
  case (BinaryExpression t op l r)
  then have "reads_expr (BinaryExpression t op l r)" by (simp add: reads_binary)
  then show ?case by (simp add: reads_paren paren_def)
next
  case (PointerOf t e)
  then have "reads_expr (PointerOf t e)" by (auto simp: reads_pointer split: option.splits)
  with PointerOf.prems show ?case by (auto simp: reads_paren paren_def split: option.splits)
next
  case (RowLiteral t es)
  then have "reads_operand (RowLiteral t es)" by (simp add: reads_row list_all_iff)
  then show ?case by (simp add: reads_plain)
next
  case (ArrayLiteral t es)
  then have "reads_operand (ArrayLiteral t es)" by (simp add: reads_array list_all_iff)
  then show ?case by (simp add: reads_plain)
next
  case (VariableReference t n)
  with reads_variable [of n] show ?case by (simp add: reads_plain)
next
  case (FunctionCall t p as)
  then have "reads_operand (FunctionCall t p as)" by (simp add: reads_call list_all_iff)
  then show ?case by (simp add: reads_plain)
next
  case (ArrayReference t p i)
  then have "reads_operand (ArrayReference t p i)" by (auto simp: reads_index split: option.splits expr.splits)
  with ArrayReference.prems show ?case by (auto simp: reads_plain split: option.splits)
next
  case (MemberReference t p n off)
  then have "reads_operand (MemberReference t p n off)" by (simp add: reads_member)
  then show ?case by (simp add: reads_plain)
next
  case (Assign t a v)
  then have "reads_expr (Assign t a v)" by (simp add: reads_assign)
  then show ?case by (simp add: reads_paren paren_def)
qed simp

section \<open>Properties\<close>


definition demo_token :: "token_type \<Rightarrow> string \<Rightarrow> token" where
  "demo_token ty w = \<lparr>tk_type = ty, tk_text = w, tk_row = 0, tk_col = 0\<rparr>"




text \<open>
  An integer literal is read by \<open>std::stoi\<close>: from \<open>2^31\<close> on, parsing it throws
  \<open>std::out_of_range\<close>, although integers of the language have 64 bits.
\<close>

theorem wide_literal_rejected:
  assumes "tk_type t = TK_NUMBER" "tk_text t = show_nat n" "2 ^ 31 \<le> n"
  shows "parse_expr (stream pre (t # rest)) = Inl OutOfRange"
proof -
  have "strtoll (show_nat n) = Some (int n)"
    using strtoll_digits [of "show_nat n" "[]"] by (simp add: show_nat_digits)
  then have "stoi (show_nat n) = Inl OutOfRange"
    using assms(3) by (simp add: stoi_def sto_range_def)
  with assms show ?thesis
    by (subst parse_expr_operand) (simp add: parse_operand_def PrimaryExpression_new_def)
qed

theorem wide_literal_rejected_witness:
  "parse_expr (stream [] [demo_token TK_NUMBER (show_nat 3000000000)]) = Inl OutOfRange"
proof -
  have "(2 :: nat) ^ 31 \<le> 3000000000" by simp
  from wide_literal_rejected [OF _ _ this] show ?thesis by (simp add: demo_token_def)
qed

end
