(* ===== verification/Reir_Tokenize.thy ===== *)
theory Reir_Tokenize
  imports Reir_Token
begin

text \<open>
  The lexer of \<^verbatim>\<open>src/reir/exec/tokenize.hpp\<close>: a five-state machine over the bytes of
  the code. \<open>lex_step\<close> is one iteration of the loop of \<open>tokenize\<close>, \<open>lex_run\<close> the
  loop up to a position, \<open>lex_finish\<close> the code after the loop. A token's text is the
  slice \<open>(&code[from], len)\<close>, here the bytes it refers to.
\<close>

section \<open>The machine\<close>

definition delimiters :: string where
  "delimiters = [CHR 0x0A, CHR '' '', CHR 0x09]"

definition in_reserverd_word :: "string \<Rightarrow> bool" where
  "in_reserverd_word word =
     (let w = map clear_bit5 word
      in list_ex (\<lambda>t. w = token_type_str t) reserved_words)"

text \<open>
  The overload of \<open>add_token\<close> for words. The aggregates \<open>Token{type, word, row}\<close> and
  \<open>Token{IDENTIFIER, word, col}\<close> leave \<open>col\<close> zero, and the second one stores the
  column in the member \<open>row\<close>.
\<close>

definition add_word_token :: "token list \<Rightarrow> string \<Rightarrow> int \<Rightarrow> int \<Rightarrow> token list" where
  "add_word_token ret word row col =
     (if in_reserverd_word word
      then ret @ [\<lparr>tk_type = as_reserved word, tk_text = word, tk_row = row, tk_col = 0\<rparr>]
      else ret @ [\<lparr>tk_type = TK_IDENTIFIER, tk_text = word, tk_row = col, tk_col = 0\<rparr>])"

definition add_operator :: "token list \<Rightarrow> string \<Rightarrow> int \<Rightarrow> int \<Rightarrow> token list res" where
  "add_operator ret word row col =
     bindE (operator_token word)
       (\<lambda>ty. Inr (ret @ [\<lparr>tk_type = ty, tk_text = word, tk_row = row, tk_col = col\<rparr>]))"

datatype lexer_state = LX_INIT | LX_NAME | LX_NUMBER | LX_STRING | LX_OPERATOR

fun add_token :: "lexer_state \<Rightarrow> token list \<Rightarrow> string \<Rightarrow> int \<Rightarrow> int \<Rightarrow> token list res" where
  "add_token LX_NAME ret word row col = Inr (add_word_token ret word row col)"
| "add_token LX_NUMBER ret word row col =
     Inr (ret @ [\<lparr>tk_type = TK_NUMBER, tk_text = word, tk_row = row, tk_col = col\<rparr>])"
| "add_token LX_OPERATOR ret word row col = add_operator ret word row col"
| "add_token LX_INIT ret word row col = Inl Abort"
| "add_token LX_STRING ret word row col = Inl Abort"

record lexer =
  lx_ret :: "token list"
  lx_from :: nat
  lx_len :: nat
  lx_row :: int
  lx_col :: int
  lx_state :: lexer_state

definition lex_init :: lexer where
  "lex_init = \<lparr>lx_ret = [], lx_from = 0, lx_len = 0, lx_row = 1, lx_col = 0, lx_state = LX_INIT\<rparr>"

definition slice_of :: "string \<Rightarrow> nat \<Rightarrow> nat \<Rightarrow> string" where
  "slice_of code from len = take len (drop from code)"

text \<open>\<open>if (current_state != INIT) add_token(current_state, ret, slice(&code[from], len), row, col)\<close>\<close>

definition lex_flush :: "string \<Rightarrow> lexer \<Rightarrow> lexer res" where
  "lex_flush code l =
     (if lx_state l = LX_INIT then Inr l
      else bindE (add_token (lx_state l) (lx_ret l) (slice_of code (lx_from l) (lx_len l))
                    (lx_row l) (lx_col l))
             (\<lambda>ret. Inr (l\<lparr>lx_ret := ret\<rparr>)))"

text \<open>\<open>current_state = s; from = i; len = 0;\<close>\<close>

definition lex_enter :: "lexer_state \<Rightarrow> nat \<Rightarrow> lexer \<Rightarrow> lexer" where
  "lex_enter s i l = l\<lparr>lx_state := s, lx_from := i, lx_len := 0\<rparr>"

definition lex_grow :: "lexer \<Rightarrow> lexer" where
  "lex_grow l = l\<lparr>lx_len := lx_len l + 1\<rparr>"

definition lex_in_string :: "string \<Rightarrow> nat \<Rightarrow> lexer \<Rightarrow> lexer" where
  "lex_in_string code i l =
     (let l' = (if code ! i = CHR 0x22
                then lex_enter LX_INIT i
                       (l\<lparr>lx_ret := lx_ret l @
                          [\<lparr>tk_type = TK_STRING_LITERAL,
                            tk_text = slice_of code (lx_from l + 1) (lx_len l - 1),
                            tk_row = lx_row l, tk_col = lx_col l\<rparr>]\<rparr>)
                else lex_grow l)
      in l'\<lparr>lx_col := lx_col l' + 1\<rparr>)"

definition lex_operator :: "string \<Rightarrow> nat \<Rightarrow> lexer \<Rightarrow> lexer res" where
  "lex_operator code i l =
     bindE (case lx_state l of
              LX_INIT \<Rightarrow> Inr (lex_enter LX_OPERATOR i l)
            | LX_NAME \<Rightarrow> bindE (lex_flush code l) (\<lambda>l. Inr (lex_enter LX_OPERATOR i l))
            | LX_NUMBER \<Rightarrow> bindE (lex_flush code l) (\<lambda>l. Inr (lex_enter LX_OPERATOR i l))
            | LX_OPERATOR \<Rightarrow> Inr l
            | LX_STRING \<Rightarrow> Inl Abort)
       (\<lambda>l. Inr (lex_grow l))"

definition lex_number :: "string \<Rightarrow> nat \<Rightarrow> lexer \<Rightarrow> lexer res" where
  "lex_number code i l =
     bindE (case lx_state l of
              LX_INIT \<Rightarrow> Inr (lex_enter LX_NUMBER i l)
            | LX_NAME \<Rightarrow> Inr l
            | LX_NUMBER \<Rightarrow> Inr l
            | LX_OPERATOR \<Rightarrow> bindE (lex_flush code l) (\<lambda>l. Inr (lex_enter LX_NUMBER i l))
            | LX_STRING \<Rightarrow> Inl Abort)
       (\<lambda>l. Inr (lex_grow l))"

definition lex_name :: "string \<Rightarrow> nat \<Rightarrow> lexer \<Rightarrow> lexer res" where
  "lex_name code i l =
     bindE (case lx_state l of
              LX_INIT \<Rightarrow> Inr (lex_enter LX_NAME i l)
            | LX_NAME \<Rightarrow> Inr l
            | LX_NUMBER \<Rightarrow>
                Inl (RuntimeError (''don't use identifier '' @ [code ! i] @
                       '' inside of number: '' @ slice_of code (lx_from l) (lx_len l)))
            | LX_OPERATOR \<Rightarrow> bindE (lex_flush code l) (\<lambda>l. Inr (lex_enter LX_NAME i l))
            | LX_STRING \<Rightarrow> Inl Abort)
       (\<lambda>l. Inr ((lex_grow l)\<lparr>lx_col := lx_col l + 1\<rparr>))"

definition lex_step :: "string \<Rightarrow> nat \<Rightarrow> lexer \<Rightarrow> lexer res" where
  "lex_step code i l =
     (let c = code ! i in
      if lx_state l = LX_STRING then Inr (lex_in_string code i l)
      else if c = CHR 0x22 then
        bindE (lex_flush code l) (\<lambda>l. Inr (lex_grow (lex_enter LX_STRING i l)))
      else if c \<in> set delimiters then
        bindE (lex_flush code l)
          (\<lambda>l. let l' = lex_enter LX_INIT i l
               in Inr (if c = CHR 0x0A then l'\<lparr>lx_row := lx_row l' + 1, lx_col := -1\<rparr> else l'))
      else if c \<in> set symbols then
        bindE (lex_flush code l)
          (\<lambda>l. bindE (symbol_token c)
            (\<lambda>ty. Inr (lex_enter LX_INIT i
                    (l\<lparr>lx_ret := lx_ret l @ [\<lparr>tk_type = ty, tk_text = slice_of code i 1,
                                               tk_row = lx_row l, tk_col = lx_col l\<rparr>]\<rparr>))))
      else if c \<in> set operator_tokens then lex_operator code i l
      else if c \<in> set numbers then lex_number code i l
      else lex_name code i l)"

primrec lex_run :: "string \<Rightarrow> nat \<Rightarrow> lexer res" where
  "lex_run code 0 = Inr lex_init"
| "lex_run code (Suc i) = bindE (lex_run code i) (lex_step code i)"

definition lex_finish :: "string \<Rightarrow> lexer \<Rightarrow> token list res" where
  "lex_finish code l =
     (case lx_state l of
        LX_INIT \<Rightarrow> Inr (lx_ret l)
      | LX_STRING \<Rightarrow> Inl (RuntimeError ''unexpected EOF in string literal'')
      | _ \<Rightarrow> add_token (lx_state l) (lx_ret l) (slice_of code (lx_from l) (lx_len l))
               (lx_row l) (lx_col l))"

definition tokenize :: "string \<Rightarrow> token list res" where
  "tokenize code = bindE (lex_run code (length code)) (lex_finish code)"

text \<open>\<open>operator<<\<close> of \<open>std::vector<Token>\<close>.\<close>

definition show_tokens :: "token list \<Rightarrow> string" where
  "show_tokens ts =
     concat (map (\<lambda>i. (if 0 < i then '', '' else []) @ ''{'' @ show_nat i @ ''}'' @
                      show_token (ts ! i)) [0..<length ts])"

section \<open>What a lexeme is\<close>

datatype char_kind = CK_QUOTE | CK_DELIMITER | CK_SYMBOL | CK_OPERATOR | CK_NUMBER | CK_NAME

definition char_kind :: "char \<Rightarrow> char_kind" where
  "char_kind c =
     (if c = CHR 0x22 then CK_QUOTE
      else if c \<in> set delimiters then CK_DELIMITER
      else if c \<in> set symbols then CK_SYMBOL
      else if c \<in> set operator_tokens then CK_OPERATOR
      else if c \<in> set numbers then CK_NUMBER
      else CK_NAME)"

fun word_ok :: "lexer_state \<Rightarrow> string \<Rightarrow> bool" where
  "word_ok LX_NAME w \<longleftrightarrow> w \<noteq> [] \<and> char_kind (hd w) = CK_NAME \<and>
     list_all (\<lambda>c. char_kind c \<in> {CK_NAME, CK_NUMBER}) (tl w)"
| "word_ok LX_NUMBER w \<longleftrightarrow> w \<noteq> [] \<and> list_all (\<lambda>c. char_kind c = CK_NUMBER) w"
| "word_ok LX_OPERATOR w \<longleftrightarrow> w \<noteq> [] \<and> list_all (\<lambda>c. char_kind c = CK_OPERATOR) w"
| "word_ok _ w \<longleftrightarrow> False"

definition word_type :: "string \<Rightarrow> token_type" where
  "word_type w = (if in_reserverd_word w then as_reserved w else TK_IDENTIFIER)"

definition lexeme :: "token_type \<Rightarrow> string \<Rightarrow> bool" where
  "lexeme ty w \<longleftrightarrow>
     (ty = TK_STRING_LITERAL \<and> CHR 0x22 \<notin> set w) \<or>
     (word_ok LX_NAME w \<and> ty = word_type w) \<or>
     (word_ok LX_NUMBER w \<and> ty = TK_NUMBER) \<or>
     (word_ok LX_OPERATOR w \<and> operator_token w = Inr ty) \<or>
     (\<exists>c \<in> set symbols. w = [c] \<and> symbol_token c = Inr ty)"

text \<open>The bytes a token stands for in the code.\<close>

definition lexeme_image :: "token_type \<Rightarrow> string \<Rightarrow> string" where
  "lexeme_image ty w =
     (if ty = TK_STRING_LITERAL then [CHR 0x22] @ w @ [CHR 0x22] else w)"

abbreviation token_image :: "token \<Rightarrow> string" where
  "token_image t \<equiv> lexeme_image (tk_type t) (tk_text t)"

text \<open>The code without the delimiters outside string literals, and whether it ends inside one.\<close>

fun visible :: "bool \<Rightarrow> string \<Rightarrow> string" where
  "visible q [] = []"
| "visible q (c # cs) =
     (if \<not> q \<and> c \<in> set delimiters then visible q cs
      else c # visible (if c = CHR 0x22 then \<not> q else q) cs)"

fun quoted :: "bool \<Rightarrow> string \<Rightarrow> bool" where
  "quoted q [] = q"
| "quoted q (c # cs) = quoted (if c = CHR 0x22 then \<not> q else q) cs"

section \<open>Facts about the tables\<close>

lemma quoted_snoc: "quoted q (xs @ [c]) = (if c = CHR 0x22 then \<not> quoted q xs else quoted q xs)"
  by (induction q xs rule: quoted.induct) auto

lemma visible_snoc:
  "visible q (xs @ [c]) =
     visible q xs @ (if \<not> quoted q xs \<and> c \<in> set delimiters then [] else [c])"
  by (induction q xs rule: quoted.induct) (auto simp: delimiters_def)

lemma symbol_token_not_string: "symbol_token c \<noteq> Inr TK_STRING_LITERAL"
  by (simp add: symbol_token_def)

lemma operator_token_not_string: "operator_token w \<noteq> Inr TK_STRING_LITERAL"
  using symbol_token_not_string
  by (auto simp: operator_token_def operator_token_list_def)

lemma find_in: "List.find P xs = Some x \<Longrightarrow> x \<in> set xs"
  by (auto simp: find_Some_iff)

lemma word_type_not_string: "word_type w \<noteq> TK_STRING_LITERAL"
  by (auto simp: word_type_def as_reserved_def reserved_words_def Let_def
      split: option.splits dest!: find_in)

lemma slice_of_Suc:
  "from + len < length code \<Longrightarrow> slice_of code from (Suc len) = slice_of code from len @ [code ! (from + len)]"
  by (simp add: slice_of_def take_Suc_conv_app_nth)

lemma slice_of_one: "i < length code \<Longrightarrow> slice_of code i (Suc 0) = [code ! i]"
  using slice_of_Suc [of i 0 code] by (simp add: slice_of_def)

lemma slice_of_zero [simp]: "slice_of code i 0 = []"
  by (simp add: slice_of_def)

lemma length_slice_of: "from + len \<le> length code \<Longrightarrow> length (slice_of code from len) = len"
  by (simp add: slice_of_def)

lemma add_token_spec:
  assumes "add_token s ret w row col = Inr ret'" "word_ok s w"
  shows "\<exists>t. ret' = ret @ [t] \<and> tk_text t = w \<and> lexeme (tk_type t) w \<and> tk_type t \<noteq> TK_STRING_LITERAL"
proof (cases s)
  case LX_NAME
  then show ?thesis using assms word_type_not_string [of w]
    by (auto simp: add_word_token_def lexeme_def word_type_def split: if_splits)
next
  case LX_NUMBER
  then show ?thesis using assms by (auto simp: lexeme_def)
next
  case LX_OPERATOR
  then show ?thesis using assms operator_token_not_string
    by (auto simp: lexeme_def add_operator_def bindE_eq_Inr_iff)
qed (use assms in auto)

section \<open>The invariant of the loop\<close>

definition lex_pending :: "string \<Rightarrow> lexer \<Rightarrow> string" where
  "lex_pending code l =
     (if lx_state l = LX_INIT then [] else slice_of code (lx_from l) (lx_len l))"

definition lex_inv :: "string \<Rightarrow> nat \<Rightarrow> lexer \<Rightarrow> bool" where
  "lex_inv code n l \<longleftrightarrow>
     (\<forall>t \<in> set (lx_ret l). lexeme (tk_type t) (tk_text t)) \<and>
     concat (map token_image (lx_ret l)) @ lex_pending code l = visible False (take n code) \<and>
     quoted False (take n code) = (lx_state l = LX_STRING) \<and>
     (lx_state l \<noteq> LX_INIT \<longrightarrow> lx_from l + lx_len l = n) \<and>
     (lx_state l \<in> {LX_NAME, LX_NUMBER, LX_OPERATOR} \<longrightarrow> word_ok (lx_state l) (lex_pending code l)) \<and>
     (lx_state l = LX_STRING \<longrightarrow>
        (\<exists>w. lex_pending code l = CHR 0x22 # w \<and> CHR 0x22 \<notin> set w))"

lemma lex_inv_init: "lex_inv code 0 lex_init"
  by (simp add: lex_inv_def lex_init_def lex_pending_def)

lemma lex_flush_spec:
  assumes "lex_flush code l = Inr l'" "lex_inv code n l" "lx_state l \<noteq> LX_STRING"
  shows "\<exists>ret. l' = l\<lparr>lx_ret := ret\<rparr> \<and> (\<forall>t \<in> set ret. lexeme (tk_type t) (tk_text t)) \<and>
           concat (map token_image ret) = visible False (take n code)"
proof (cases "lx_state l = LX_INIT")
  case True
  then have "l' = l\<lparr>lx_ret := lx_ret l\<rparr>" using assms(1) by (simp add: lex_flush_def)
  with True assms(2) show ?thesis
    by (auto simp: lex_inv_def lex_pending_def intro!: exI [of _ "lx_ret l"])
next
  case False
  let ?w = "slice_of code (lx_from l) (lx_len l)"
  from False have w: "lex_pending code l = ?w" by (simp add: lex_pending_def)
  from False assms(1) obtain ret where
    ret: "add_token (lx_state l) (lx_ret l) ?w (lx_row l) (lx_col l) = Inr ret"
    and l': "l' = l\<lparr>lx_ret := ret\<rparr>"
    by (auto simp: lex_flush_def bindE_eq_Inr_iff)
  have "lx_state l \<in> {LX_NAME, LX_NUMBER, LX_OPERATOR}"
    using False assms(3) by (cases "lx_state l") auto
  then have ok: "word_ok (lx_state l) ?w"
    using assms(2) w by (simp add: lex_inv_def)
  from add_token_spec [OF ret ok] obtain t where
    t: "ret = lx_ret l @ [t]" "tk_text t = ?w" "lexeme (tk_type t) ?w"
       "tk_type t \<noteq> TK_STRING_LITERAL" by blast
  have "concat (map token_image ret) = concat (map token_image (lx_ret l)) @ ?w"
    using t by (simp add: lexeme_image_def)
  also have "\<dots> = visible False (take n code)"
    using assms(2) w by (simp add: lex_inv_def)
  finally have img: "concat (map token_image ret) = visible False (take n code)" .
  have "\<forall>u \<in> set ret. lexeme (tk_type u) (tk_text u)"
    using t assms(2) by (simp add: lex_inv_def)
  with l' img show ?thesis by blast
qed

lemma word_ok_snoc:
  "word_ok s w \<Longrightarrow> char_kind c = CK_OPERATOR \<Longrightarrow> s = LX_OPERATOR \<Longrightarrow> word_ok s (w @ [c])"
  "word_ok s w \<Longrightarrow> char_kind c = CK_NUMBER \<Longrightarrow> s \<in> {LX_NAME, LX_NUMBER} \<Longrightarrow> word_ok s (w @ [c])"
  "word_ok s w \<Longrightarrow> char_kind c = CK_NAME \<Longrightarrow> s = LX_NAME \<Longrightarrow> word_ok s (w @ [c])"
  by (auto simp: tl_append split: list.splits)

text \<open>The six ways the loop moves on one byte keep the invariant.\<close>

lemma take_Suc_snoc: "n < length code \<Longrightarrow> take (Suc n) code = take n code @ [code ! n]"
  by (simp add: take_Suc_conv_app_nth)

lemma lex_inv_string:
  assumes inv: "lex_inv code n l" and n: "n < length code" and s: "lx_state l = LX_STRING"
  shows "lex_inv code (Suc n) (lex_in_string code n l)"
proof -
  from inv s obtain w where w: "slice_of code (lx_from l) (lx_len l) = CHR 0x22 # w"
    "CHR 0x22 \<notin> set w" and n': "lx_from l + lx_len l = n"
    by (auto simp: lex_inv_def lex_pending_def)
  from w(1) have len: "lx_len l \<noteq> 0" by (cases "lx_len l") (simp_all add: slice_of_def)
  then have tl: "slice_of code (lx_from l + 1) (lx_len l - 1) = w"
    using arg_cong [OF w(1), of tl] by (simp add: slice_of_def tl_take drop_Suc tl_drop)
  have vis: "visible False (take n code) = concat (map token_image (lx_ret l)) @ CHR 0x22 # w"
    and q: "quoted False (take n code)"
    using inv s w by (auto simp: lex_inv_def lex_pending_def)
  show ?thesis
  proof (cases "code ! n = CHR 0x22")
    case True
    then show ?thesis using inv s n tl w(2) vis q
      by (auto simp: lex_inv_def lex_in_string_def lex_enter_def lex_pending_def Let_def
          lexeme_image_def lexeme_def visible_snoc quoted_snoc take_Suc_snoc)
  next
    case False
    have "slice_of code (lx_from l) (Suc (lx_len l)) = CHR 0x22 # w @ [code ! n]"
      using slice_of_Suc [of "lx_from l" "lx_len l" code] n n' w by simp
    then show ?thesis using False inv s n n' w(2) vis q
      by (auto simp: lex_inv_def lex_in_string_def lex_grow_def lex_pending_def Let_def
          visible_snoc quoted_snoc take_Suc_snoc)
  qed
qed

lemma lex_inv_flushed_enter:
  assumes "lex_flush code l = Inr l1" "lex_inv code n l" "lx_state l \<noteq> LX_STRING"
    and n: "n < length code" "code ! n \<notin> set delimiters"
    and s: "s = (if code ! n = CHR 0x22 then LX_STRING else s)" "s \<noteq> LX_INIT"
    and ok: "code ! n = CHR 0x22 \<or> word_ok s [code ! n]"
    and l': "l' = (lex_grow (lex_enter s n l1))\<lparr>lx_col := x\<rparr>"
  shows "lex_inv code (Suc n) l'"
proof -
  from lex_flush_spec [OF assms(1-3)] obtain ret where
    ret: "l1 = l\<lparr>lx_ret := ret\<rparr>" "\<forall>t \<in> set ret. lexeme (tk_type t) (tk_text t)"
      "concat (map token_image ret) = visible False (take n code)" by blast
  have q: "\<not> quoted False (take n code)" using assms(2,3) by (simp add: lex_inv_def)
  have s': "s = LX_STRING \<longleftrightarrow> code ! n = CHR 0x22"
    using s ok by (auto split: if_splits)
  show ?thesis using ret n s ok q s'
    by (auto simp: lex_inv_def l' lex_grow_def lex_enter_def lex_pending_def
        visible_snoc quoted_snoc take_Suc_snoc slice_of_one split: if_splits)
qed

lemma lex_inv_grow:
  assumes inv: "lex_inv code n l" and n: "n < length code"
    and s: "lx_state l \<in> {LX_NAME, LX_NUMBER, LX_OPERATOR}"
    and c: "code ! n \<noteq> CHR 0x22" "code ! n \<notin> set delimiters"
    and ok: "word_ok (lx_state l) (lex_pending code l @ [code ! n])"
    and l': "l' = (lex_grow l)\<lparr>lx_col := x\<rparr>"
  shows "lex_inv code (Suc n) l'"
proof -
  have n': "lx_from l + lx_len l = n" and q: "\<not> quoted False (take n code)"
    using inv s by (auto simp: lex_inv_def)
  have "slice_of code (lx_from l) (Suc (lx_len l)) = lex_pending code l @ [code ! n]"
    using slice_of_Suc [of "lx_from l" "lx_len l" code] n n' s
    by (auto simp: lex_pending_def)
  then show ?thesis using inv n s c ok n' q
    by (auto simp: lex_inv_def l' lex_grow_def lex_pending_def
        visible_snoc quoted_snoc take_Suc_snoc)
qed

lemma lex_inv_closed:
  assumes "lex_flush code l = Inr l1" "lex_inv code n l" "lx_state l \<noteq> LX_STRING"
    and n: "n < length code" "code ! n \<in> set delimiters \<or> code ! n \<in> set symbols"
    and add: "add = (if code ! n \<in> set delimiters then [] else [t])"
    and t: "code ! n \<notin> set delimiters \<Longrightarrow>
              tk_text t = [code ! n] \<and> symbol_token (code ! n) = Inr (tk_type t)"
    and l': "l' = (lex_enter LX_INIT n l1)\<lparr>lx_ret := lx_ret l1 @ add, lx_row := r, lx_col := x\<rparr>"
  shows "lex_inv code (Suc n) l'"
proof -
  from lex_flush_spec [OF assms(1-3)] obtain ret where
    ret: "l1 = l\<lparr>lx_ret := ret\<rparr>" "\<forall>t \<in> set ret. lexeme (tk_type t) (tk_text t)"
      "concat (map token_image ret) = visible False (take n code)" by blast
  have q: "\<not> quoted False (take n code)" using assms(2,3) by (simp add: lex_inv_def)
  have nq: "code ! n \<noteq> CHR 0x22" using n(2) by (auto simp: delimiters_def symbols_def)
  have add': "\<forall>u \<in> set add. lexeme (tk_type u) (tk_text u)"
    using t n(2) by (auto simp: add lexeme_def)
  have img: "concat (map token_image add) = (if code ! n \<in> set delimiters then [] else [code ! n])"
    using t symbol_token_not_string [of "code ! n"]
    by (cases "code ! n \<in> set delimiters") (auto simp: add lexeme_image_def)
  show ?thesis using ret q nq n(1) img add'
    by (auto simp: lex_inv_def l' lex_enter_def lex_pending_def visible_snoc quoted_snoc take_Suc_snoc)
qed

lemma lex_step_kind:
  "lx_state l \<noteq> LX_STRING \<Longrightarrow> lex_step code i l =
     (case char_kind (code ! i) of
        CK_QUOTE \<Rightarrow> bindE (lex_flush code l) (\<lambda>l. Inr (lex_grow (lex_enter LX_STRING i l)))
      | CK_DELIMITER \<Rightarrow> bindE (lex_flush code l)
          (\<lambda>l. let l' = lex_enter LX_INIT i l
               in Inr (if code ! i = CHR 0x0A then l'\<lparr>lx_row := lx_row l' + 1, lx_col := -1\<rparr> else l'))
      | CK_SYMBOL \<Rightarrow> bindE (lex_flush code l)
          (\<lambda>l. bindE (symbol_token (code ! i))
            (\<lambda>ty. Inr (lex_enter LX_INIT i
                    (l\<lparr>lx_ret := lx_ret l @ [\<lparr>tk_type = ty, tk_text = slice_of code i 1,
                                               tk_row = lx_row l, tk_col = lx_col l\<rparr>]\<rparr>))))
      | CK_OPERATOR \<Rightarrow> lex_operator code i l
      | CK_NUMBER \<Rightarrow> lex_number code i l
      | CK_NAME \<Rightarrow> lex_name code i l)"
  by (simp add: lex_step_def char_kind_def Let_def)

lemma char_kindD:
  "char_kind c = CK_QUOTE \<Longrightarrow> c = CHR 0x22"
  "char_kind c = CK_DELIMITER \<Longrightarrow> c \<in> set delimiters"
  "char_kind c = CK_SYMBOL \<Longrightarrow> c \<in> set symbols \<and> c \<notin> set delimiters"
  "char_kind c \<in> {CK_OPERATOR, CK_NUMBER, CK_NAME} \<Longrightarrow> c \<noteq> CHR 0x22 \<and> c \<notin> set delimiters"
  by (auto simp: char_kind_def split: if_splits)

text \<open>A word state that either starts a word (after a flush) or extends the pending one.\<close>

lemma lex_inv_word:
  assumes inv: "lex_inv code n l" and n: "n < length code" and ns: "lx_state l \<noteq> LX_STRING"
    and k: "char_kind (code ! n) \<in> {CK_OPERATOR, CK_NUMBER, CK_NAME}"
    and ext: "ext \<Longrightarrow> lx_state l \<noteq> LX_INIT \<and> word_ok (lx_state l) (lex_pending code l @ [code ! n])"
    and start: "word_ok s [code ! n]" "s \<noteq> LX_INIT" "s \<noteq> LX_STRING"
    and step: "bindE (if ext then Inr l else bindE (lex_flush code l) (\<lambda>l. Inr (lex_enter s n l)))
                 (\<lambda>l. Inr ((lex_grow l)\<lparr>lx_col := f l\<rparr>)) = Inr l'"
  shows "lex_inv code (Suc n) l'"
proof (cases ext)
  case True
  with step have l': "l' = (lex_grow l)\<lparr>lx_col := f l\<rparr>" by simp
  from True ext ns have "lx_state l \<in> {LX_NAME, LX_NUMBER, LX_OPERATOR}"
    by (cases "lx_state l") auto
  with True ext char_kindD(4) [OF k] show ?thesis
    using lex_inv_grow [OF inv n _ _ _ _ l'] by blast
next
  case False
  with step obtain l1 where l1: "lex_flush code l = Inr l1"
    and l': "l' = (lex_grow (lex_enter s n l1))\<lparr>lx_col := f (lex_enter s n l1)\<rparr>"
    by (auto simp: bindE_eq_Inr_iff)
  show ?thesis
    using lex_inv_flushed_enter [OF l1 inv ns n _ _ start(2) _ l'] char_kindD(4) [OF k] start
    by simp
qed

lemma lex_flush_INIT [simp]: "lx_state l = LX_INIT \<Longrightarrow> lex_flush code l = Inr l"
  by (simp add: lex_flush_def)

lemma lex_word_steps:
  "lx_state l \<noteq> LX_STRING \<Longrightarrow> lex_operator code i l =
     bindE (if lx_state l = LX_OPERATOR then Inr l
            else bindE (lex_flush code l) (\<lambda>l. Inr (lex_enter LX_OPERATOR i l)))
       (\<lambda>l. Inr ((lex_grow l)\<lparr>lx_col := lx_col l\<rparr>))"
  "lx_state l \<noteq> LX_STRING \<Longrightarrow> lex_number code i l =
     bindE (if lx_state l = LX_NAME \<or> lx_state l = LX_NUMBER then Inr l
            else bindE (lex_flush code l) (\<lambda>l. Inr (lex_enter LX_NUMBER i l)))
       (\<lambda>l. Inr ((lex_grow l)\<lparr>lx_col := lx_col l\<rparr>))"
  "lx_state l \<noteq> LX_STRING \<Longrightarrow> lx_state l \<noteq> LX_NUMBER \<Longrightarrow> lex_name code i l =
     bindE (if lx_state l = LX_NAME then Inr l
            else bindE (lex_flush code l) (\<lambda>l. Inr (lex_enter LX_NAME i l)))
       (\<lambda>l. Inr ((lex_grow l)\<lparr>lx_col := lx_col l + 1\<rparr>))"
  by (cases "lx_state l"; simp add: lex_operator_def lex_number_def lex_name_def lex_grow_def)+

lemma lex_step_inv:
  assumes inv: "lex_inv code n l" and n: "n < length code" and step: "lex_step code n l = Inr l'"
  shows "lex_inv code (Suc n) l'"
proof (cases "lx_state l = LX_STRING")
  case True
  with step have "l' = lex_in_string code n l" by (simp add: lex_step_def)
  with lex_inv_string [OF inv n True] show ?thesis by simp
next
  case ns: False
  note step' = step [unfolded lex_step_kind [OF ns]]
  have pend: "lx_state l \<in> {LX_NAME, LX_NUMBER, LX_OPERATOR} \<Longrightarrow> word_ok (lx_state l) (lex_pending code l)"
    using inv by (simp add: lex_inv_def)
  show ?thesis
  proof (cases "char_kind (code ! n)")
    case CK_QUOTE
    with step' obtain l1 where l1: "lex_flush code l = Inr l1"
      and l': "l' = (lex_grow (lex_enter LX_STRING n l1))\<lparr>lx_col := lx_col l1\<rparr>"
      by (auto simp: bindE_eq_Inr_iff lex_grow_def lex_enter_def)
    show ?thesis
      using lex_inv_flushed_enter [OF l1 inv ns n _ _ _ _ l'] char_kindD(1) [OF CK_QUOTE]
      by (simp add: delimiters_def)
  next
    case CK_DELIMITER
    with step' obtain l1 where l1: "lex_flush code l = Inr l1"
      and l': "l' = (if code ! n = CHR 0x0A
        then (lex_enter LX_INIT n l1)\<lparr>lx_row := lx_row l1 + 1, lx_col := -1\<rparr> else lex_enter LX_INIT n l1)"
      by (auto simp: bindE_eq_Inr_iff Let_def lex_enter_def split: if_splits)
    have l'': "l' = (lex_enter LX_INIT n l1)\<lparr>lx_ret := lx_ret l1 @ [], lx_row := lx_row l',
        lx_col := lx_col l'\<rparr>"
      by (simp add: l' lex_enter_def)
    show ?thesis
      using lex_inv_closed [OF l1 inv ns n _ _ _ l''] char_kindD(2) [OF CK_DELIMITER] by simp
  next
    case CK_SYMBOL
    with step' obtain l1 ty where l1: "lex_flush code l = Inr l1"
      and ty: "symbol_token (code ! n) = Inr ty"
      and l': "l' = lex_enter LX_INIT n (l1\<lparr>lx_ret := lx_ret l1 @
        [\<lparr>tk_type = ty, tk_text = slice_of code n 1, tk_row = lx_row l1, tk_col = lx_col l1\<rparr>]\<rparr>)"
      by (auto simp: bindE_eq_Inr_iff)
    let ?t = "\<lparr>tk_type = ty, tk_text = slice_of code n 1, tk_row = lx_row l1, tk_col = lx_col l1\<rparr>"
    have l'': "l' = (lex_enter LX_INIT n l1)\<lparr>lx_ret := lx_ret l1 @ [?t], lx_row := lx_row l1,
        lx_col := lx_col l1\<rparr>"
      by (simp add: l' lex_enter_def)
    show ?thesis
      using lex_inv_closed [OF l1 inv ns n _ _ _ l'', of ?t] char_kindD(3) [OF CK_SYMBOL] ty n
      by (simp add: slice_of_one)
  next
    case CK_OPERATOR
    with step' have "bindE (if lx_state l = LX_OPERATOR then Inr l
        else bindE (lex_flush code l) (\<lambda>l. Inr (lex_enter LX_OPERATOR n l)))
        (\<lambda>l. Inr ((lex_grow l)\<lparr>lx_col := lx_col l\<rparr>)) = Inr l'"
      by (simp add: lex_word_steps ns)
    then show ?thesis
      by (rule lex_inv_word [OF inv n ns, rotated 5])
        (use CK_OPERATOR pend word_ok_snoc(1) in auto)
  next
    case CK_NUMBER
    with step' have "bindE (if lx_state l = LX_NAME \<or> lx_state l = LX_NUMBER then Inr l
        else bindE (lex_flush code l) (\<lambda>l. Inr (lex_enter LX_NUMBER n l)))
        (\<lambda>l. Inr ((lex_grow l)\<lparr>lx_col := lx_col l\<rparr>)) = Inr l'"
      by (simp add: lex_word_steps ns)
    then show ?thesis
      by (rule lex_inv_word [OF inv n ns, rotated 5])
        (use CK_NUMBER pend word_ok_snoc(2) in auto)
  next
    case CK_NAME
    with step' have "lx_state l \<noteq> LX_NUMBER" by (auto simp: lex_name_def)
    with step' CK_NAME have "bindE (if lx_state l = LX_NAME then Inr l
        else bindE (lex_flush code l) (\<lambda>l. Inr (lex_enter LX_NAME n l)))
        (\<lambda>l. Inr ((lex_grow l)\<lparr>lx_col := lx_col l + 1\<rparr>)) = Inr l'"
      by (simp add: lex_word_steps ns)
    then show ?thesis
      by (rule lex_inv_word [OF inv n ns, rotated 5])
        (use CK_NAME pend word_ok_snoc(3) in auto)
  qed
qed

lemma lex_run_inv: "lex_run code n = Inr l \<Longrightarrow> n \<le> length code \<Longrightarrow> lex_inv code n l"
proof (induction n arbitrary: l)
  case 0
  then show ?case by (simp add: lex_inv_init)
next
  case (Suc n)
  then obtain l1 where "lex_run code n = Inr l1" "lex_step code n l1 = Inr l"
    by (auto simp: bindE_eq_Inr_iff)
  with Suc show ?case using lex_step_inv by simp
qed

lemma lex_finish_flush:
  "lx_state l \<noteq> LX_STRING \<Longrightarrow> lex_finish code l = bindE (lex_flush code l) (\<lambda>l. Inr (lx_ret l))"
  by (cases "lx_state l") (auto simp: lex_finish_def lex_flush_def bindE_def split: sum.splits)

lemma tokenize_flushed:
  assumes "tokenize code = Inr ts"
  shows "(\<forall>t \<in> set ts. lexeme (tk_type t) (tk_text t)) \<and> concat (map token_image ts) = visible False code"
proof -
  from assms obtain l where run: "lex_run code (length code) = Inr l" and fin: "lex_finish code l = Inr ts"
    by (auto simp: tokenize_def bindE_eq_Inr_iff)
  have inv: "lex_inv code (length code) l" by (rule lex_run_inv [OF run]) simp
  have ns: "lx_state l \<noteq> LX_STRING" using fin by (auto simp: lex_finish_def)
  with fin obtain l1 where "lex_flush code l = Inr l1" "ts = lx_ret l1"
    by (auto simp: lex_finish_flush bindE_eq_Inr_iff)
  with lex_flush_spec [OF _ inv ns] show ?thesis by fastforce
qed

section \<open>Printing tokens and lexing them again\<close>

text \<open>A token list as code again: every token's bytes, followed by one space.\<close>

definition print_lexemes :: "(token_type \<times> string) list \<Rightarrow> string" where
  "print_lexemes xs = concat (map (\<lambda>(ty, w). lexeme_image ty w @ '' '') xs)"

lemma lex_start:
  assumes "lx_state l = LX_INIT"
    and "(s, char_kind (code ! n)) \<in>
           {(LX_OPERATOR, CK_OPERATOR), (LX_NUMBER, CK_NUMBER), (LX_NAME, CK_NAME)}"
  shows "\<exists>x. lex_step code n l = Inr (l\<lparr>lx_state := s, lx_from := n, lx_len := 1, lx_col := x\<rparr>)"
  using assms
  by (cases l) (auto simp: lex_step_kind lex_operator_def lex_number_def lex_name_def lex_enter_def lex_grow_def)

lemma lex_extend:
  assumes "(lx_state l, char_kind (code ! n)) \<in>
             {(LX_OPERATOR, CK_OPERATOR), (LX_NUMBER, CK_NUMBER), (LX_NAME, CK_NAME), (LX_NAME, CK_NUMBER)}"
  shows "\<exists>x. lex_step code n l = Inr (l\<lparr>lx_len := lx_len l + 1, lx_col := x\<rparr>)"
  using assms
  by (cases l) (auto simp: lex_step_kind lex_operator_def lex_number_def lex_name_def lex_enter_def lex_grow_def)

lemma word_ok_start:
  "word_ok s w \<Longrightarrow> (s, char_kind (w ! 0)) \<in>
     {(LX_OPERATOR, CK_OPERATOR), (LX_NUMBER, CK_NUMBER), (LX_NAME, CK_NAME)}"
  by (cases s; cases w) auto

lemma word_ok_extend:
  "word_ok s w \<Longrightarrow> Suc j < length w \<Longrightarrow> (s, char_kind (w ! Suc j)) \<in>
     {(LX_OPERATOR, CK_OPERATOR), (LX_NUMBER, CK_NUMBER), (LX_NAME, CK_NAME), (LX_NAME, CK_NUMBER)}"
  by (cases s; cases w) (auto simp: list_all_length)

lemma lex_word_run:
  assumes run: "lex_run code n = Inr l" "lx_state l = LX_INIT" and ok: "word_ok s w"
    and w: "\<And>i. i < length w \<Longrightarrow> code ! (n + i) = w ! i"
  shows "Suc j \<le> length w \<Longrightarrow> \<exists>x. lex_run code (n + Suc j) =
           Inr (l\<lparr>lx_state := s, lx_from := n, lx_len := Suc j, lx_col := x\<rparr>)"
proof (induction j)
  case 0
  then have "code ! n = w ! 0" using w [of 0] by (cases w) auto
  then show ?case using run lex_start [of l s code n] word_ok_start [OF ok] by simp
next
  case (Suc j)
  then obtain x where
    IH: "lex_run code (Suc (n + j)) = Inr (l\<lparr>lx_state := s, lx_from := n, lx_len := Suc j, lx_col := x\<rparr>)"
    by auto
  have c: "code ! Suc (n + j) = w ! Suc j" using w [of "Suc j"] Suc.prems by simp
  show ?case
    using IH lex_extend [of "l\<lparr>lx_state := s, lx_from := n, lx_len := Suc j, lx_col := x\<rparr>" code "Suc (n + j)"]
      word_ok_extend [OF ok, of j] Suc.prems c by simp
qed

lemma lex_string_run:
  assumes run: "lex_run code n = Inr l" "lx_state l = LX_INIT" and q: "CHR 0x22 \<notin> set w"
    and c: "code ! n = CHR 0x22" and w: "\<And>i. i < length w \<Longrightarrow> code ! (Suc n + i) = w ! i"
  shows "j \<le> length w \<Longrightarrow> \<exists>x. lex_run code (Suc n + j) =
           Inr (l\<lparr>lx_state := LX_STRING, lx_from := n, lx_len := Suc j, lx_col := x\<rparr>)"
proof (induction j)
  case 0
  then show ?case using run c
    by (cases l) (auto simp: lex_step_def lex_enter_def lex_grow_def)
next
  case (Suc j)
  then obtain x where
    IH: "lex_run code (Suc n + j) = Inr (l\<lparr>lx_state := LX_STRING, lx_from := n, lx_len := Suc j, lx_col := x\<rparr>)"
    by auto
  from Suc.prems have j: "j < length w" by simp
  then have "code ! (Suc n + j) \<noteq> CHR 0x22"
    using w [OF j] q nth_mem [OF j] by metis
  with IH show ?case by (auto simp: lex_step_def lex_in_string_def lex_grow_def Let_def)
qed

lemma add_token_lexeme:
  "word_ok s w \<Longrightarrow> (s = LX_NAME \<Longrightarrow> ty = word_type w) \<Longrightarrow> (s = LX_NUMBER \<Longrightarrow> ty = TK_NUMBER) \<Longrightarrow>
   (s = LX_OPERATOR \<Longrightarrow> operator_token w = Inr ty) \<Longrightarrow>
   \<exists>t. add_token s ret w row col = Inr (ret @ [t]) \<and> token_lexeme t = (ty, w)"
  by (cases s) (auto simp: add_word_token_def add_operator_def token_lexeme_def word_type_def)

lemma nth_prefix: "take (length u) (drop n code) = u \<Longrightarrow> i < length u \<Longrightarrow> code ! (n + i) = u ! i"
proof -
  assume u: "take (length u) (drop n code) = u" and i: "i < length u"
  have "n < length code" using arg_cong [OF u, of length] i by simp
  then show ?thesis using i nth_take [of i "length u" "drop n code"] u by simp
qed

lemma lex_space:
  assumes "lex_run code n = Inr l" "code ! n = CHR '' ''" "lex_flush code l = Inr l1"
    "lx_state l \<noteq> LX_STRING"
  shows "lex_run code (Suc n) = Inr (lex_enter LX_INIT n l1)"
  using assms by (simp add: lex_step_def Let_def delimiters_def)

lemma lex_token:
  assumes run: "lex_run code n = Inr l" "lx_state l = LX_INIT" and lex: "lexeme ty w"
    and here: "take (length (lexeme_image ty w @ '' '')) (drop n code) = lexeme_image ty w @ '' ''"
  shows "\<exists>l'. lex_run code (n + length (lexeme_image ty w @ '' '')) = Inr l' \<and>
           lx_state l' = LX_INIT \<and> map token_lexeme (lx_ret l') = map token_lexeme (lx_ret l) @ [(ty, w)]"
proof -
  note nth = nth_prefix [OF here]
  have slice: "slice_of code n (length w) = w" if "ty \<noteq> TK_STRING_LITERAL"
    using that arg_cong [OF here, of "take (length w)"]
    by (simp add: slice_of_def lexeme_image_def take_take)
  consider (str) "ty = TK_STRING_LITERAL" "CHR 0x22 \<notin> set w"
    | (word) s where "word_ok s w" "ty \<noteq> TK_STRING_LITERAL" "s = LX_NAME \<Longrightarrow> ty = word_type w"
        "s = LX_NUMBER \<Longrightarrow> ty = TK_NUMBER" "s = LX_OPERATOR \<Longrightarrow> operator_token w = Inr ty"
    | (sym) c where "c \<in> set symbols" "w = [c]" "symbol_token c = Inr ty"
    using lex word_type_not_string operator_token_not_string unfolding lexeme_def
    by (metis lexer_state.distinct token_type.distinct)
  then show ?thesis
  proof cases
    case str
    let ?n = "Suc n + length w"
    have c: "code ! n = CHR 0x22" using nth [of 0] str by (simp add: lexeme_image_def)
    have w: "code ! (Suc n + i) = w ! i" if "i < length w" for i
      using nth [of "Suc i"] that str by (simp add: lexeme_image_def nth_append)
    have q: "code ! ?n = CHR 0x22" using nth [of "Suc (length w)"] str
      by (simp add: lexeme_image_def nth_append)
    have sp: "code ! Suc ?n = CHR '' ''" using nth [of "Suc (Suc (length w))"] str
      by (simp add: lexeme_image_def nth_append)
    have sl: "slice_of code (Suc n) (length w) = w"
      using arg_cong [OF here, of "\<lambda>u. take (length w) (tl u)"] str
      by (simp add: slice_of_def lexeme_image_def tl_take tl_drop drop_Suc take_take)
    from lex_string_run [OF run str(2) c w, of "length w"] obtain x where
      "lex_run code ?n = Inr (l\<lparr>lx_state := LX_STRING, lx_from := n, lx_len := Suc (length w), lx_col := x\<rparr>)"
      by auto
    with q obtain l1 where l1: "lex_run code (Suc ?n) = Inr l1" "lx_state l1 = LX_INIT"
      "map token_lexeme (lx_ret l1) = map token_lexeme (lx_ret l) @ [(ty, w)]"
      using sl str by (simp add: lex_step_def lex_in_string_def lex_enter_def Let_def token_lexeme_def)
    from lex_space [OF l1(1) sp] l1 str show ?thesis
      by (simp add: lex_enter_def lexeme_image_def)
  next
    case word
    have w: "code ! (n + i) = w ! i" if "i < length w" for i
      using nth [of i] that word(2) by (simp add: lexeme_image_def nth_append)
    have sp: "code ! (n + length w) = CHR '' ''"
      using nth [of "length w"] word(2) by (simp add: lexeme_image_def nth_append)
    from word(1) obtain k where k: "length w = Suc k" by (cases s; cases w) auto
    from lex_word_run [OF run word(1) w, of k] obtain x where
      r: "lex_run code (n + length w) = Inr (l\<lparr>lx_state := s, lx_from := n, lx_len := length w, lx_col := x\<rparr>)"
      by (auto simp: k)
    from add_token_lexeme [OF word(1,3-5)] obtain t where
      t: "add_token s (lx_ret l) w (lx_row l) x = Inr (lx_ret l @ [t])" "token_lexeme t = (ty, w)" by blast
    have s: "s \<noteq> LX_INIT" "s \<noteq> LX_STRING" using word(1) by auto
    from lex_space [OF r sp] t s slice [OF word(2)] word(2) show ?thesis
      by (simp add: lex_flush_def lex_enter_def lexeme_image_def)
  next
    case sym
    then have ns: "ty \<noteq> TK_STRING_LITERAL" using symbol_token_not_string by auto
    have c: "code ! n = c" and sp: "code ! Suc n = CHR '' ''"
      using nth [of 0] nth [of 1] sym ns by (simp_all add: lexeme_image_def)
    have "c \<noteq> CHR 0x22" "c \<notin> set delimiters" using sym(1) by (auto simp: symbols_def delimiters_def)
    then obtain l1 where l1: "lex_run code (Suc n) = Inr l1" "lx_state l1 = LX_INIT"
      "map token_lexeme (lx_ret l1) = map token_lexeme (lx_ret l) @ [(ty, w)]"
      using run c sym slice [OF ns]
      by (simp add: lex_step_def lex_enter_def Let_def token_lexeme_def)
    from lex_space [OF l1(1) sp] l1 sym ns show ?thesis
      by (simp add: lex_enter_def lexeme_image_def)
  qed
qed

lemma lex_lexemes:
  assumes "list_all (\<lambda>(ty, w). lexeme ty w) xs"
    and "lex_run code n = Inr l" "lx_state l = LX_INIT"
    and "drop n code = print_lexemes xs"
  shows "\<exists>l'. lex_run code (n + length (print_lexemes xs)) = Inr l' \<and> lx_state l' = LX_INIT \<and>
           map token_lexeme (lx_ret l') = map token_lexeme (lx_ret l) @ xs"
  using assms
proof (induction xs arbitrary: n l)
  case Nil
  then show ?case by (simp add: print_lexemes_def)
next
  case (Cons x xs)
  obtain ty w where x: "x = (ty, w)" by (cases x)
  let ?img = "lexeme_image ty w @ '' ''"
  have pr: "print_lexemes (x # xs) = ?img @ print_lexemes xs" by (simp add: print_lexemes_def x)
  have here: "take (length ?img) (drop n code) = ?img" using Cons.prems(4) pr by simp
  have rest: "drop (n + length ?img) code = print_lexemes xs"
    using Cons.prems(4) pr drop_drop [of "length ?img" n code] by (simp add: add.commute)
  from lex_token [OF Cons.prems(2,3) _ here] Cons.prems(1) x obtain l1 where
    l1: "lex_run code (n + length ?img) = Inr l1" "lx_state l1 = LX_INIT"
      "map token_lexeme (lx_ret l1) = map token_lexeme (lx_ret l) @ [x]" by auto
  from Cons.IH [OF _ l1(1,2) rest] Cons.prems(1) l1(3) show ?case
    by (auto simp: pr add.assoc)
qed

lemma tokenize_print_lexemes:
  assumes "list_all (\<lambda>(ty, w). lexeme ty w) xs"
  shows "\<exists>ts. tokenize (print_lexemes xs) = Inr ts \<and> map token_lexeme ts = xs"
proof -
  have "lex_run (print_lexemes xs) 0 = Inr lex_init" "lx_state lex_init = LX_INIT"
    "map token_lexeme (lx_ret lex_init) = []" by (simp_all add: lex_init_def)
  with lex_lexemes [OF assms, of "print_lexemes xs" 0 lex_init] show ?thesis
    by (auto simp: tokenize_def lex_finish_def)
qed

section \<open>Failures\<close>

lemma symbols_known: "c \<in> set symbols \<Longrightarrow> symbol_token c \<noteq> Inl e"
  by (auto simp: symbols_def symbol_token_def)

lemma operator_token_Inl:
  "operator_token w = Inl e \<Longrightarrow> word_ok LX_OPERATOR w \<Longrightarrow> e = Abort \<and> (w = ''!'' \<or> w = ''|'')"
  by (cases w)
    (auto simp: operator_token_def symbol_token_def char_kind_def operator_tokens_def
      split: option.splits if_splits)

lemma add_token_Inl:
  "add_token s ret w row col = Inl e \<Longrightarrow> word_ok s w \<Longrightarrow> e = Abort \<and> (w = ''!'' \<or> w = ''|'')"
  by (cases s) (auto simp: add_operator_def bindE_eq_Inl_iff dest!: operator_token_Inl)

lemma lex_flush_Inl:
  assumes "lex_flush code l = Inl e" "lex_inv code n l" "lx_state l \<noteq> LX_STRING"
  shows "e = Abort \<and> (CHR ''!'' \<in> set code \<or> CHR ''|'' \<in> set code)"
proof -
  have s: "lx_state l \<in> {LX_NAME, LX_NUMBER, LX_OPERATOR}"
    using assms(1,3) by (cases "lx_state l") (auto simp: lex_flush_def)
  let ?w = "lex_pending code l"
  have "add_token (lx_state l) (lx_ret l) ?w (lx_row l) (lx_col l) = Inl e"
    using assms(1) s by (auto simp: lex_flush_def lex_pending_def bindE_eq_Inl_iff)
  moreover have "word_ok (lx_state l) ?w" using assms(2) s unfolding lex_inv_def by blast
  ultimately have "e = Abort \<and> (?w = ''!'' \<or> ?w = ''|'')" by (rule add_token_Inl)
  moreover have "set ?w \<subseteq> set code"
    by (auto simp: lex_pending_def slice_of_def dest: in_set_takeD in_set_dropD)
  ultimately show ?thesis by auto
qed

text \<open>One step fails only on a word inside a number or on a lone operator without a token.\<close>

lemma lex_step_Inl:
  assumes "lex_step code n l = Inl e" "lex_inv code n l"
  shows "(\<exists>m. e = RuntimeError m) \<or> e = Abort \<and> (CHR ''!'' \<in> set code \<or> CHR ''|'' \<in> set code)"
proof (cases "lx_state l = LX_STRING")
  case True
  with assms(1) show ?thesis by (simp add: lex_step_def)
next
  case ns: False
  note flush = lex_flush_Inl [OF _ assms(2) ns]
  note step = assms(1) [unfolded lex_step_kind [OF ns]]
  show ?thesis
  proof (cases "char_kind (code ! n)")
    case CK_SYMBOL
    with step flush symbols_known char_kindD(3) [OF CK_SYMBOL] show ?thesis
      by (auto simp: bindE_eq_Inl_iff)
  next
    case CK_NAME
    show ?thesis
    proof (cases "lx_state l = LX_NUMBER")
      case True
      with step CK_NAME show ?thesis by (auto simp: lex_name_def)
    next
      case False
      with step CK_NAME ns flush show ?thesis
        by (auto simp: lex_word_steps bindE_eq_Inl_iff split: if_splits)
    qed
  qed (use step ns flush in \<open>auto simp: lex_word_steps bindE_eq_Inl_iff Let_def split: if_splits\<close>)
qed

lemma lex_run_Inl:
  "lex_run code n = Inl e \<Longrightarrow> n \<le> length code \<Longrightarrow>
     (\<exists>m. e = RuntimeError m) \<or> e = Abort \<and> (CHR ''!'' \<in> set code \<or> CHR ''|'' \<in> set code)"
proof (induction n)
  case 0
  then show ?case by simp
next
  case (Suc n)
  then consider "lex_run code n = Inl e" | l where "lex_run code n = Inr l" "lex_step code n l = Inl e"
    by (auto simp: bindE_eq_Inl_iff)
  then show ?case
    using Suc lex_step_Inl lex_run_inv [of code n] by cases auto
qed

lemma tokenize_Inl:
  assumes "tokenize code = Inl e"
  shows "(\<exists>m. e = RuntimeError m) \<or> e = Abort \<and> (CHR ''!'' \<in> set code \<or> CHR ''|'' \<in> set code)"
proof -
  consider "lex_run code (length code) = Inl e"
    | l where "lex_run code (length code) = Inr l" "lex_finish code l = Inl e"
    using assms by (auto simp: tokenize_def bindE_eq_Inl_iff)
  then show ?thesis
  proof cases
    case 1
    then show ?thesis by (rule lex_run_Inl) simp
  next
    case (2 l)
    show ?thesis
    proof (cases "lx_state l = LX_STRING")
      case True
      with 2 show ?thesis by (auto simp: lex_finish_def)
    next
      case False
      with 2 lex_run_inv [OF 2(1)] lex_flush_Inl [OF _ _ False] show ?thesis
        by (auto simp: lex_finish_flush bindE_eq_Inl_iff)
    qed
  qed
qed

section \<open>Positions\<close>

definition pos_ok :: "nat \<Rightarrow> lexer \<Rightarrow> bool" where
  "pos_ok n l \<longleftrightarrow> 1 \<le> lx_row l \<and> lx_row l \<le> 1 + int n \<and> -1 \<le> lx_col l \<and> lx_col l \<le> int n"

definition tokens_pos_ok :: "nat \<Rightarrow> token list \<Rightarrow> bool" where
  "tokens_pos_ok n ts \<longleftrightarrow>
     list_all (\<lambda>t. -1 \<le> tk_row t \<and> tk_row t \<le> 1 + int n \<and> -1 \<le> tk_col t \<and> tk_col t \<le> int n) ts"

lemma tokens_pos_ok_mono: "tokens_pos_ok n ts \<Longrightarrow> tokens_pos_ok (Suc n) ts"
  by (auto simp: tokens_pos_ok_def list_all_iff)

lemma tokens_pos_ok_snoc:
  "tokens_pos_ok n (ts @ [t]) \<longleftrightarrow> tokens_pos_ok n ts \<and>
     -1 \<le> tk_row t \<and> tk_row t \<le> 1 + int n \<and> -1 \<le> tk_col t \<and> tk_col t \<le> int n"
  by (auto simp: tokens_pos_ok_def)

lemma add_token_pos:
  assumes "add_token s ret w row col = Inr ret'" "tokens_pos_ok n ret"
    "1 \<le> row" "row \<le> 1 + int n" "-1 \<le> col" "col \<le> int n"
  shows "tokens_pos_ok n ret'"
  using assms
  by (cases s) (auto simp: add_word_token_def add_operator_def bindE_eq_Inr_iff tokens_pos_ok_def
      split: if_splits)

lemma lex_flush_pos:
  assumes "lex_flush code l = Inr l'" "tokens_pos_ok n (lx_ret l)" "pos_ok n l"
  shows "tokens_pos_ok n (lx_ret l') \<and> pos_ok n l'"
  using assms
  by (auto simp: lex_flush_def bindE_eq_Inr_iff pos_ok_def intro: add_token_pos split: if_splits)

lemma pos_ok_upd [simp]:
  "pos_ok n (lex_enter s i l) = pos_ok n l" "pos_ok n (lex_grow l) = pos_ok n l"
  "lx_ret (lex_enter s i l) = lx_ret l" "lx_ret (lex_grow l) = lx_ret l"
  by (simp_all add: pos_ok_def lex_enter_def lex_grow_def)

lemma pos_ok_mono:
  "pos_ok n l \<Longrightarrow> pos_ok (Suc n) l"
  "pos_ok n l \<Longrightarrow> pos_ok (Suc n) (l\<lparr>lx_col := lx_col l + 1\<rparr>)"
  "pos_ok n l \<Longrightarrow> pos_ok (Suc n) (l\<lparr>lx_row := lx_row l + 1, lx_col := -1\<rparr>)"
  "pos_ok n l \<Longrightarrow> pos_ok n (l\<lparr>lx_ret := r\<rparr>)"
  "pos_ok n l \<Longrightarrow> pos_ok (Suc n) ((lex_grow l)\<lparr>lx_col := lx_col l + 1\<rparr>)"
  "pos_ok n l \<Longrightarrow> pos_ok (Suc n) ((lex_grow l)\<lparr>lx_col := lx_col l\<rparr>)"
  by (auto simp: pos_ok_def lex_grow_def)

lemma lex_step_pos:
  assumes step: "lex_step code i l = Inr l'" and ok: "tokens_pos_ok n (lx_ret l)" "pos_ok n l"
  shows "tokens_pos_ok (Suc n) (lx_ret l') \<and> pos_ok (Suc n) l'"
proof (cases "lx_state l = LX_STRING")
  case True
  with assms show ?thesis
    by (auto simp: lex_step_def lex_in_string_def Let_def tokens_pos_ok_snoc tokens_pos_ok_mono
        pos_ok_def lex_enter_def lex_grow_def split: if_splits)
next
  case ns: False
  note fl = lex_flush_pos [OF _ ok]
  note step' = step [unfolded lex_step_kind [OF ns]]
  show ?thesis
  proof (cases "char_kind (code ! i)")
    case CK_NAME
    with step' have "lx_state l \<noteq> LX_NUMBER" by (auto simp: lex_name_def)
    with CK_NAME step' ns fl ok show ?thesis
      by (auto simp: lex_word_steps bindE_eq_Inr_iff tokens_pos_ok_mono pos_ok_mono split: if_splits)
  next
    case CK_SYMBOL
    with step' obtain l1 ty where l1: "lex_flush code l = Inr l1"
      and l': "l' = lex_enter LX_INIT i (l1\<lparr>lx_ret := lx_ret l1 @
        [\<lparr>tk_type = ty, tk_text = slice_of code i 1, tk_row = lx_row l1, tk_col = lx_col l1\<rparr>]\<rparr>)"
      by (auto simp: bindE_eq_Inr_iff)
    from fl [OF l1] show ?thesis
      by (auto simp: l' tokens_pos_ok_snoc tokens_pos_ok_mono pos_ok_def lex_enter_def)
  qed (use step' ns fl ok in \<open>auto simp: lex_word_steps bindE_eq_Inr_iff Let_def tokens_pos_ok_mono
      pos_ok_mono split: if_splits\<close>)
qed

lemma lex_run_pos: "lex_run code n = Inr l \<Longrightarrow> tokens_pos_ok n (lx_ret l) \<and> pos_ok n l"
proof (induction n arbitrary: l)
  case 0
  then show ?case by (auto simp: lex_init_def tokens_pos_ok_def pos_ok_def)
next
  case (Suc n)
  then obtain l1 where "lex_run code n = Inr l1" "lex_step code n l1 = Inr l"
    by (auto simp: bindE_eq_Inr_iff)
  with Suc.IH lex_step_pos show ?case by blast
qed

section \<open>Reserved words\<close>

text \<open>ASCII upper case, and the claim that clearing bit 5 is the same on reserved words.\<close>

definition ascii_upper :: "char \<Rightarrow> char" where
  "ascii_upper c = (if 97 \<le> (of_char c :: nat) \<and> (of_char c :: nat) \<le> 122
                    then char_of ((of_char c :: nat) - 32) else c)"

definition upper_letter :: "char \<Rightarrow> bool" where
  "upper_letter u \<longleftrightarrow> 65 \<le> (of_char u :: nat) \<and> (of_char u :: nat) \<le> 90"

lemma of_char_clear_bit5:
  "(of_char c :: nat) = of_char (clear_bit5 c) + (if digit5 c then 32 else 0)"
  by (cases c) (simp add: clear_bit5_def)

lemma digit5_odd: "digit5 c \<longleftrightarrow> odd ((of_char c :: nat) div 32)"
proof -
  have "bit (of_char c :: nat) 5 = digit5 c" 
    unfolding of_char_def bit_horner_sum_bit_iff by simp
  then show ?thesis by (simp add: bit_iff_odd)
qed

lemma clear_bit5_upper:
  assumes "upper_letter u"
  shows "clear_bit5 c = u \<longleftrightarrow> ascii_upper c = u"
proof -
  let ?n = "of_char c :: nat" and ?m = "of_char u :: nat"
  have m: "65 \<le> ?m" "?m \<le> 90" using assms by (simp_all add: upper_letter_def)
  have "of_char (clear_bit5 c) = (if digit5 c then ?n - 32 else ?n)"
    using of_char_clear_bit5 [of c] by (auto simp del: of_char_eq_iff)
  then have eq: "of_char (clear_bit5 c) = (if odd (?n div 32) then ?n - 32 else ?n)"
    by (simp only: digit5_odd)
  have low: "?m div 32 = 2" using m by (intro div_nat_eqI) auto
  show ?thesis
  proof (cases "97 \<le> ?n \<and> ?n \<le> 122")
    case True
    then have "?n div 32 = 3" by (intro div_nat_eqI) auto
    with True eq have "(of_char (clear_bit5 c) :: nat) = of_char (ascii_upper c)"
      by (simp add: ascii_upper_def of_char_of)
    then show ?thesis by simp
  next
    case False
    have "of_char (clear_bit5 c) = ?m \<Longrightarrow> ?n = ?m" using eq m False by (auto split: if_splits)
    moreover have "?n = ?m \<Longrightarrow> of_char (clear_bit5 c) = ?m" using eq low by simp
    ultimately have "clear_bit5 c = u \<longleftrightarrow> c = u" by auto
    moreover have "ascii_upper c = c" using False by (auto simp: ascii_upper_def)
    ultimately show ?thesis by simp
  qed
qed

lemma reserved_upper: "t \<in> set reserved_words \<Longrightarrow> list_all upper_letter (token_type_str t)"
  by (auto simp: reserved_words_def upper_letter_def)

lemma clear_bit5_word:
  "list_all upper_letter v \<Longrightarrow> map clear_bit5 w = v \<longleftrightarrow> map ascii_upper w = v"
proof (induction v arbitrary: w)
  case Nil
  then show ?case by simp
next
  case (Cons u v)
  then show ?case by (cases w) (auto simp: clear_bit5_upper)
qed

lemma as_reserved_upper:
  "as_reserved w = (case List.find (\<lambda>t. map ascii_upper w = token_type_str t) reserved_words of
                      Some t \<Rightarrow> t | None \<Rightarrow> TK_INVALID)"
proof -
  have "List.find (\<lambda>t. map clear_bit5 w = token_type_str t) reserved_words =
        List.find (\<lambda>t. map ascii_upper w = token_type_str t) reserved_words"
    by (rule find_cong) (simp_all add: clear_bit5_word reserved_upper)
  then show ?thesis by (simp add: as_reserved_def)
qed

lemma in_reserverd_word_upper:
  "in_reserverd_word w \<longleftrightarrow> map ascii_upper w \<in> token_type_str ` set reserved_words"
  using clear_bit5_word reserved_upper by (auto simp: in_reserverd_word_def Let_def list_ex_iff)

section \<open>Properties\<close>

text \<open>
  C9. Nothing of the code is lost or invented by the lexer: when \<open>tokenize\<close> returns, every
  token is a well-formed lexeme of its type, and the bytes of the tokens one after the
  other (string literals with their quotes) are the code without the delimiters outside
  string literals.
\<close>

theorem tokenize_lossless:
  assumes "tokenize code = Inr ts"
  shows "concat (map token_image ts) = visible False code \<and>
         (\<forall>t \<in> set ts. lexeme (tk_type t) (tk_text t))"
  using tokenize_flushed [OF assms] by simp

theorem tokenize_lossless_witness:
  "\<exists>ts. tokenize ''let s= [f(12),a.b <=3]'' = Inr ts \<and> length ts = 15 \<and>
     concat (map token_image ts) = ''lets=[f(12),a.b<=3]''"
proof -
  have "case tokenize ''let s= [f(12),a.b <=3]'' of Inl e \<Rightarrow> False | Inr ts \<Rightarrow> length ts = 15"
    by code_simp
  then obtain ts where ts: "tokenize ''let s= [f(12),a.b <=3]'' = Inr ts" and "length ts = 15"
    by (auto split: sum.splits)
  moreover have "visible False ''let s= [f(12),a.b <=3]'' = ''lets=[f(12),a.b<=3]''"
    by code_simp
  ultimately show ?thesis using tokenize_lossless [OF ts] by auto
qed

text \<open>
  Printing the tokens of any accepted code, separated by spaces, and lexing the result
  gives the same tokens (types and texts): \<open>tokenize\<close> is a retraction onto printed
  token lists.
\<close>

theorem tokenize_reprint:
  assumes "tokenize code = Inr ts"
  shows "\<exists>ts'. tokenize (print_lexemes (map token_lexeme ts)) = Inr ts' \<and>
           map token_lexeme ts' = map token_lexeme ts"
proof (rule tokenize_print_lexemes)
  show "list_all (\<lambda>(ty, w). lexeme ty w) (map token_lexeme ts)"
    using tokenize_flushed [OF assms] by (auto simp: list_all_iff token_lexeme_def)
qed

theorem tokenize_reprint_witness:
  "\<exists>ts ts'. tokenize ''x=y+1'' = Inr ts \<and> map tk_text ts = [''x'', ''='', ''y'', ''+'', ''1''] \<and>
     tokenize (print_lexemes (map token_lexeme ts)) = Inr ts' \<and> map token_lexeme ts' = map token_lexeme ts"
proof -
  have "case tokenize ''x=y+1'' of Inl e \<Rightarrow> False
        | Inr ts \<Rightarrow> map tk_text ts = [''x'', ''='', ''y'', ''+'', ''1'']"
    by code_simp
  then obtain ts where ts: "tokenize ''x=y+1'' = Inr ts"
    and texts: "map tk_text ts = [''x'', ''='', ''y'', ''+'', ''1'']"
    by (auto split: sum.splits)
  obtain ts' where "tokenize (print_lexemes (map token_lexeme ts)) = Inr ts'"
    and "map token_lexeme ts' = map token_lexeme ts"
    using tokenize_reprint [OF ts] by blast
  with ts texts show ?thesis by (intro exI [of _ ts] exI [of _ ts'] conjI)
qed

text \<open>
  C23. The ways lexing fails: an exception with a message (a letter inside a number, an
  unterminated string literal), or a process abort, and the abort only when the code
  contains \<open>!\<close> or \<open>|\<close>. No other failure is possible.
\<close>

theorem tokenize_failures:
  assumes "tokenize code = Inl e"
  shows "(\<exists>m. e = RuntimeError m) \<or> e = Abort \<and> (CHR ''!'' \<in> set code \<or> CHR ''|'' \<in> set code)"
  using assms by (rule tokenize_Inl)

theorem tokenize_failures_witness:
  "\<exists>e. tokenize ''1e12'' = Inl e \<and> (\<exists>m. e = RuntimeError m)"
proof -
  have "case tokenize ''1e12'' of Inl e \<Rightarrow> e \<noteq> Abort | Inr ts \<Rightarrow> False" by code_simp
  then obtain e where e: "tokenize ''1e12'' = Inl e" and "e \<noteq> Abort"
    by (auto split: sum.splits)
  with tokenize_failures [OF e] show ?thesis by blast
qed



text \<open>
  Clearing bit 5 recognises reserved words exactly as ASCII case-insensitive comparison
  does: a word is reserved iff its upper-case form is the name of a reserved token, and
  \<open>as_reserved\<close> returns the first token with that name.
\<close>

theorem reserved_words_case_insensitive:
  "(in_reserverd_word w \<longleftrightarrow> map ascii_upper w \<in> token_type_str ` set reserved_words) \<and>
   as_reserved w = (case List.find (\<lambda>t. map ascii_upper w = token_type_str t) reserved_words of
                      Some t \<Rightarrow> t | None \<Rightarrow> TK_INVALID)"
  using in_reserverd_word_upper as_reserved_upper by blast

text \<open>
  An operator made of one \<open>!\<close> or one \<open>|\<close> has no token, and reading one ends the
  process: \<open>symbol_token\<close> calls \<open>abort()\<close>.
\<close>

theorem lone_operator_aborts:
  "tokenize ''a ! b'' = Inl Abort \<and> tokenize ''a | b'' = Inl Abort"
  by code_simp

text \<open>
  An identifier's \<open>row\<close> is the lexer's column counter and its \<open>col\<close> is zero,
  whatever line it is on.
\<close>

theorem identifier_position_swapped:
  assumes "add_token LX_NAME ret word row col = Inr ret'" "\<not> in_reserverd_word word"
  shows "ret' = ret @ [\<lparr>tk_type = TK_IDENTIFIER, tk_text = word, tk_row = col, tk_col = 0\<rparr>]"
  using assms by (simp add: add_word_token_def)

theorem identifier_position_swapped_witness:
  "\<exists>ret'. add_token LX_NAME [] ''abc'' 7 2 = Inr ret' \<and> \<not> in_reserverd_word ''abc'' \<and>
     map tk_row ret' = [2]"
proof -
  have n: "\<not> in_reserverd_word ''abc''" by code_simp
  have "add_token LX_NAME [] ''abc'' 7 2 = Inr (add_word_token [] ''abc'' 7 2)" by simp
  from identifier_position_swapped [OF this n] n this show ?thesis by simp
qed

end
