(* ===== verification/Reir_Parse_Stmt.thy ===== *)
theory Reir_Parse_Stmt
  imports Reir_Print_Expr Reir_Tokenize
begin

text \<open>
  The statement parser of \<^verbatim>\<open>src/reir/exec/ast_statement_parser.cpp\<close> and the entry point
  of \<^verbatim>\<open>src/reir/exec/parser.cpp\<close>. As for expressions, a constructor that calls
  \<open>parse_statement\<close> takes it as an argument and \<open>parse_statement_f\<close> ties the knot; the
  interface \<open>stmt_parser\<close> shows that the bounds are enough. The loop of \<open>parse\<close> is
  different: it can run forever, so its bound is an argument and the properties say when no
  bound is enough.
\<close>

section \<open>Statement constructors\<close>

fun block_loop :: "stmt option parser \<Rightarrow> nat \<Rightarrow> stmt list parser" where
  "block_loop ps 0 s = Inl OutOfFuel"
| "block_loop ps (Suc k) s =
     bindE (ts_get s) (\<lambda>t.
     if tk_type t = TK_CLOSE_BRACE then Inr ([], s)
     else bindE (ps s) (\<lambda>(stmt, s).
          bindE (block_loop ps k s) (\<lambda>(ss, s).
          Inr (case stmt of None \<Rightarrow> ss | Some x \<Rightarrow> x # ss, s))))"

definition Block_new :: "stmt option parser \<Rightarrow> stmt list parser" where
  "Block_new ps s =
     bindE (accept TK_OPEN_BRACE s) (\<lambda>(_, s).
     bindE (block_loop ps (Suc (remaining s)) s) (\<lambda>(ss, s).
     bindE (accept TK_CLOSE_BRACE s) (\<lambda>(_, s).
     Inr (ss, s))))"

definition Transaction_new :: "stmt option parser \<Rightarrow> stmt parser" where
  "Transaction_new ps s =
     bindE (accept TK_TRANSACTION s) (\<lambda>(_, s).
     bindE (ts_get s) (\<lambda>t.
     let (isolation, s) = (if tk_type t \<noteq> TK_OPEN_BRACE then (tk_text t, ts_next s)
                           else (''SERIALIZABLE'', s))
     in bindE (expect TK_OPEN_BRACE s) (\<lambda>_.
        bindE (Block_new ps s) (\<lambda>(ss, s).
        Inr (Transaction isolation ss, s)))))"

definition Let_new :: "stmt parser" where
  "Let_new s =
     bindE (accept TK_LET s) (\<lambda>(_, s).
     bindE (ts_get s) (\<lambda>t.
     bindE (if tk_type t = TK_OPEN_ANGLE
            then bindE (parse_row_type s) (\<lambda>(ty, s). Inr (Some ty, s))
            else Inr (None, s)) (\<lambda>(ty, s).
     bindE (accept TK_IDENTIFIER s) (\<lambda>(name, s).
     bindE (accept TK_EQUAL s) (\<lambda>(_, s).
     bindE (parse_expr s) (\<lambda>(e, s).
     Inr (Let name ty e, s)))))))"

definition DefineTuple_new :: "stmt parser" where
  "DefineTuple_new s =
     bindE (accept TK_TUPLE s) (\<lambda>(_, s).
     bindE (accept TK_IDENTIFIER s) (\<lambda>(name, s).
     bindE (parse_type s) (\<lambda>(ty, s).
     if \<not> is_TupleType ty then Inl (RuntimeError ''invalid define tuple'')
     else Inr (DefineTuple name ty, s))))"

definition If_new :: "stmt option parser \<Rightarrow> stmt parser" where
  "If_new ps s =
     bindE (accept TK_IF s) (\<lambda>(_, s).
     bindE (parse_expr s) (\<lambda>(cond, s).
     bindE (expect TK_OPEN_BRACE s) (\<lambda>_.
     bindE (Block_new ps s) (\<lambda>(t, s).
     if \<not> ts_has_next s then Inr (If cond t None, s)
     else bindE (ts_get s) (\<lambda>tok.
          if tk_type tok \<noteq> TK_ELSE then Inr (If cond t None, s)
          else let s = ts_next s
               in bindE (expect TK_OPEN_BRACE s) (\<lambda>_.
                  bindE (Block_new ps s) (\<lambda>(f, s).
                  Inr (If cond t (Some f), s))))))))"

definition ExprStatement_new :: "stmt parser" where
  "ExprStatement_new s = bindE (parse_expr s) (\<lambda>(e, s). Inr (ExprStatement e, s))"

definition Define_new :: "stmt parser" where
  "Define_new s =
     bindE (accept TK_DEFINE s) (\<lambda>(_, s).
     bindE (parse_row_type s) (\<lambda>(ty, s).
     bindE (accept TK_IDENTIFIER s) (\<lambda>(name, s).
     Inr (Define (if is_TupleType ty then Some ty else None) name, s))))"

text \<open>
  An omitted clause of \<open>for\<close> leaves its member uninitialised; the third clause is omitted
  only before another semicolon.
\<close>

definition For_clause :: "'a parser \<Rightarrow> 'a slot parser" where
  "For_clause p s =
     bindE (ts_get s) (\<lambda>t.
     if tk_type t \<noteq> TK_SEMICOLON then bindE (p s) (\<lambda>(x, s). Inr (Ref x, s))
     else Inr (Uninit, s))"

definition For_init :: "stmt option parser \<Rightarrow> stmt slot parser" where
  "For_init ps s =
     bindE (ts_get s) (\<lambda>t.
     if tk_type t \<noteq> TK_SEMICOLON
     then bindE (ps s) (\<lambda>(x, s). Inr (case x of None \<Rightarrow> Null | Some i \<Rightarrow> Ref i, s))
     else Inr (Uninit, s))"

definition For_new :: "stmt option parser \<Rightarrow> stmt parser" where
  "For_new ps s =
     bindE (accept TK_FOR s) (\<lambda>(_, s).
     bindE (For_init ps s) (\<lambda>(init, s).
     bindE (accept TK_SEMICOLON s) (\<lambda>(_, s).
     bindE (For_clause parse_expr s) (\<lambda>(cond, s).
     bindE (accept TK_SEMICOLON s) (\<lambda>(_, s).
     bindE (For_clause parse_expr s) (\<lambda>(every, s).
     bindE (expect TK_OPEN_BRACE s) (\<lambda>_.
     bindE (Block_new ps s) (\<lambda>(blk, s).
     Inr (For init cond every blk, s)))))))))"

definition Emit_new :: "stmt parser" where
  "Emit_new s =
     bindE (accept TK_EMIT s) (\<lambda>(_, s).
     bindE (parse_expr s) (\<lambda>(e, s). Inr (Emit e, s)))"

definition Insert_new :: "stmt parser" where
  "Insert_new s =
     bindE (accept TK_INSERT s) (\<lambda>(_, s).
     bindE (accept TK_IDENTIFIER s) (\<lambda>(table, s).
     bindE (expect TK_OPEN_BRACE s) (\<lambda>_.
     bindE (parse_expr s) (\<lambda>(e, s). Inr (Insert table e, s)))))"

definition Scan_new :: "stmt option parser \<Rightarrow> stmt parser" where
  "Scan_new ps s =
     bindE (accept TK_SCAN s) (\<lambda>(_, s).
     bindE (accept TK_IDENTIFIER s) (\<lambda>(table, s).
     bindE (accept TK_COMMA s) (\<lambda>(_, s).
     bindE (ts_get s) (\<lambda>t.
     let s = ts_next s
     in bindE (expect TK_OPEN_BRACE s) (\<lambda>_.
        bindE (Block_new ps s) (\<lambda>(blk, s).
        Inr (Scan table (tk_text t) blk, s)))))))"

definition some_stmt :: "(stmt \<times> token_stream) res \<Rightarrow> (stmt option \<times> token_stream) res" where
  "some_stmt m = bindE m (\<lambda>(x, s). Inr (Some x, s))"

definition parse_statement_body :: "stmt option parser \<Rightarrow> stmt option parser" where
  "parse_statement_body ps s =
     bindE (guardE (ts_has_next s) AssertFailed) (\<lambda>_.
     bindE (ts_get s) (\<lambda>t. let ty = tk_type t in
     if ty = TK_CLOSE_BRACE then Inr (None, s)
     else if ty = TK_OPEN_BRACE
     then bindE (Block_new ps s) (\<lambda>(ss, s). Inr (Some (Block ss), s))
     else if ty = TK_TRANSACTION then some_stmt (Transaction_new ps s)
     else if ty = TK_LET then some_stmt (Let_new s)
     else if ty = TK_IF then some_stmt (If_new ps s)
     else if ty = TK_FOR then some_stmt (For_new ps s)
     else if ty = TK_DEFINE then some_stmt (Define_new s)
     else if ty = TK_EMIT then some_stmt (Emit_new s)
     else if ty = TK_INSERT then some_stmt (Insert_new s)
     else if ty = TK_SCAN then some_stmt (Scan_new ps s)
     else if ty = TK_BREAK then Inr (Some (Jump break_jump), ts_next s)
     else if ty = TK_CONTINUE then Inr (Some (Jump continue_jump), ts_next s)
     else if ty \<in> {TK_OPEN_BRACKET, TK_OPEN_PAREN, TK_NUMBER, TK_STRING_LITERAL, TK_IDENTIFIER}
     then some_stmt (ExprStatement_new s)
     else if ty = TK_TUPLE then some_stmt (DefineTuple_new s)
     else Inl (RuntimeError (''un-parsable token: '' @ token_type_str ty))))"

fun parse_statement_f :: "nat \<Rightarrow> stmt option parser" where
  "parse_statement_f 0 s = Inl OutOfFuel"
| "parse_statement_f (Suc n) s = parse_statement_body (parse_statement_f n) s"

definition parse_statement :: "stmt option parser" where
  "parse_statement s = parse_statement_f (Suc (remaining s)) s"

section \<open>The entry point\<close>

fun parse_loop :: "nat \<Rightarrow> stmt list \<Rightarrow> token_stream \<Rightarrow> stmt list res" where
  "parse_loop 0 global_block s = Inl OutOfFuel"
| "parse_loop (Suc k) global_block s =
     (if \<not> ts_has_next s then Inr global_block
      else bindE (parse_statement s) (\<lambda>(entry, s).
           parse_loop k (case entry of None \<Rightarrow> global_block | Some x \<Rightarrow> global_block @ [x]) s))"

text \<open>\<open>parse(code, fun)\<close>: the block the callback is called with.\<close>

definition parse :: "nat \<Rightarrow> string \<Rightarrow> stmt res" where
  "parse k code =
     bindE (tokenize code) (\<lambda>token_list.
     bindE (parse_loop k [] (token_stream_new token_list)) (\<lambda>ss. Inr (Block ss)))"

section \<open>Consumption and bounds\<close>

declare block_loop.simps [simp del]

lemma parse_row_type_advances: "parse_row_type s = Inr (x, s') \<Longrightarrow> advances s s'"
  by (auto simp: parse_row_type_def bindE_eq_Inr_iff dest!: accept_advances types.p_advances intro: cursor_trans)

lemma parse_row_type_total [simp]: "parse_row_type s \<noteq> Inl OutOfFuel"
  by (auto simp: parse_row_type_def bindE_eq_Inl_iff)

lemma Let_new_advances: "Let_new s = Inr (x, s') \<Longrightarrow> advances s s'"
  by (auto simp: Let_new_def bindE_eq_Inr_iff cursor_defs split: if_splits
      dest!: accept_advances parse_row_type_advances exprs.p_advances)

lemma Let_new_total [simp]: "Let_new s \<noteq> Inl OutOfFuel"
  by (auto simp: Let_new_def bindE_eq_Inl_iff split: if_splits)

lemma DefineTuple_new_advances: "DefineTuple_new s = Inr (x, s') \<Longrightarrow> advances s s'"
  by (auto simp: DefineTuple_new_def bindE_eq_Inr_iff cursor_defs split: if_splits
      dest!: accept_advances types.p_advances)

lemma DefineTuple_new_total [simp]: "DefineTuple_new s \<noteq> Inl OutOfFuel"
  by (auto simp: DefineTuple_new_def bindE_eq_Inl_iff split: if_splits)

lemma Define_new_advances: "Define_new s = Inr (x, s') \<Longrightarrow> advances s s'"
  by (auto simp: Define_new_def bindE_eq_Inr_iff cursor_defs dest!: accept_advances parse_row_type_advances)

lemma Define_new_total [simp]: "Define_new s \<noteq> Inl OutOfFuel"
  by (auto simp: Define_new_def bindE_eq_Inl_iff)

lemma expr_stmt_advances:
  "Emit_new s = Inr (x, s') \<Longrightarrow> advances s s'" "Insert_new s = Inr (x, s') \<Longrightarrow> advances s s'"
  "ExprStatement_new s = Inr (x, s') \<Longrightarrow> advances s s'"
  by (auto simp: Emit_new_def Insert_new_def ExprStatement_new_def bindE_eq_Inr_iff cursor_defs
      dest!: accept_advances exprs.p_advances)

lemma expr_stmt_total [simp]:
  "Emit_new s \<noteq> Inl OutOfFuel" "Insert_new s \<noteq> Inl OutOfFuel" "ExprStatement_new s \<noteq> Inl OutOfFuel"
  by (auto simp: Emit_new_def Insert_new_def ExprStatement_new_def bindE_eq_Inl_iff)

lemma For_clause_moves: "For_clause parse_expr s = Inr (x, s') \<Longrightarrow> moves s s'"
  by (auto simp: For_clause_def bindE_eq_Inr_iff split: if_splits
      dest: get_next_advances exprs.p_advances advances_moves)

lemma For_clause_total [simp]: "For_clause parse_expr s \<noteq> Inl OutOfFuel"
  by (auto simp: For_clause_def bindE_eq_Inl_iff)

text \<open>
  The interface of the statement parser: a statement consumes tokens; a null pointer means
  that the cursor is on a closing brace and has not moved.
\<close>

locale stmt_parser =
  fixes p :: "stmt option parser" and n :: nat
  assumes stmt_advances: "p s = Inr (Some x, s') \<Longrightarrow> advances s s'"
    and null_stays: "p s = Inr (None, s') \<Longrightarrow> s' = s \<and> (\<exists>t. ts_get s = Inr t \<and> tk_type t = TK_CLOSE_BRACE)"
    and stmt_fuel: "p s = Inl OutOfFuel \<Longrightarrow> n \<le> remaining s"
begin

lemma p_moves: "p s = Inr (x, s') \<Longrightarrow> moves s s'"
  by (cases x) (auto dest!: null_stays intro: moves_refl_get advances_moves [OF stmt_advances])

lemma block_loop_moves: "block_loop p k s = Inr (x, s') \<Longrightarrow> moves s s'"
proof (induction k arbitrary: s x)
  case (Suc k)
  then obtain t where t: "ts_get s = Inr t" by (auto simp: block_loop.simps bindE_eq_Inr_iff)
  with Suc.prems consider "s' = s"
    | st s1 y where "p s = Inr (st, s1)" "block_loop p k s1 = Inr (y, s')"
    by (auto simp: block_loop.simps bindE_eq_Inr_iff split: if_splits)
  then show ?case
  proof cases
    case 1
    with t show ?thesis by (simp add: moves_refl_get)
  next
    case 2
    from p_moves [OF 2(1)] Suc.IH [OF 2(2)] show ?thesis by (rule moves_trans)
  qed
qed (simp add: block_loop.simps)

lemma block_loop_fuel: "block_loop p k s = Inl OutOfFuel \<Longrightarrow> k \<le> remaining s \<or> n \<le> remaining s"
proof (induction k arbitrary: s)
  case (Suc k)
  then obtain t where t: "ts_get s = Inr t" "tk_type t \<noteq> TK_CLOSE_BRACE"
    by (auto simp: block_loop.simps bindE_eq_Inl_iff split: if_splits)
  with Suc.prems consider "p s = Inl OutOfFuel"
    | st s1 where "p s = Inr (st, s1)" "block_loop p k s1 = Inl OutOfFuel"
    by (auto simp: block_loop.simps bindE_eq_Inl_iff)
  then show ?case
  proof cases
    case 1
    then show ?thesis by (simp add: stmt_fuel)
  next
    case 2
    then obtain x where "st = Some x" using null_stays [of s s1] t by (cases st) auto
    with 2 stmt_advances have "advances s s1" by blast
    with Suc.IH [OF 2(2)] advances_remaining show ?thesis by fastforce
  qed
qed (simp add: block_loop.simps)

lemma Block_new_advances: "Block_new p s = Inr (x, s') \<Longrightarrow> advances s s'"
  by (auto simp: Block_new_def bindE_eq_Inr_iff cursor_defs dest!: accept_advances block_loop_moves)

lemma Block_new_fuel: "Block_new p s = Inl OutOfFuel \<Longrightarrow> n < remaining s"
  by (auto simp: Block_new_def bindE_eq_Inl_iff cursor_defs remaining_def
      dest!: accept_advances block_loop_fuel)

lemma Transaction_new_advances: "Transaction_new p s = Inr (x, s') \<Longrightarrow> advances s s'"
  by (auto simp: Transaction_new_def bindE_eq_Inr_iff cursor_defs split: if_splits
      dest!: accept_advances Block_new_advances)

lemma Transaction_new_fuel: "Transaction_new p s = Inl OutOfFuel \<Longrightarrow> n < remaining s"
  by (auto simp: Transaction_new_def bindE_eq_Inl_iff cursor_defs remaining_def split: if_splits
      dest!: accept_advances Block_new_fuel)

lemma If_new_advances: "If_new p s = Inr (x, s') \<Longrightarrow> advances s s'"
  by (auto simp: If_new_def bindE_eq_Inr_iff cursor_defs Let_def split: if_splits
      dest!: accept_advances exprs.p_advances Block_new_advances)

lemma If_new_fuel: "If_new p s = Inl OutOfFuel \<Longrightarrow> n < remaining s"
  by (auto simp: If_new_def bindE_eq_Inl_iff cursor_defs remaining_def Let_def split: if_splits
      dest!: accept_advances exprs.p_advances Block_new_advances Block_new_fuel)

lemma For_init_moves: "For_init p s = Inr (x, s') \<Longrightarrow> moves s s'"
  by (auto simp: For_init_def bindE_eq_Inr_iff split: if_splits dest: get_next_advances p_moves)

lemma For_init_fuel: "For_init p s = Inl OutOfFuel \<Longrightarrow> n \<le> remaining s"
  by (auto simp: For_init_def bindE_eq_Inl_iff dest: stmt_fuel split: if_splits)

lemma For_new_advances: "For_new p s = Inr (x, s') \<Longrightarrow> advances s s'"
  by (auto simp: For_new_def bindE_eq_Inr_iff cursor_defs
      dest!: accept_advances For_init_moves For_clause_moves Block_new_advances)

lemma For_new_fuel: "For_new p s = Inl OutOfFuel \<Longrightarrow> n < remaining s"
  by (auto simp: For_new_def bindE_eq_Inl_iff cursor_defs remaining_def
      dest!: accept_advances For_init_moves For_init_fuel For_clause_moves Block_new_fuel)

lemma Scan_new_advances: "Scan_new p s = Inr (x, s') \<Longrightarrow> advances s s'"
  by (auto simp: Scan_new_def bindE_eq_Inr_iff cursor_defs Let_def
      dest!: accept_advances Block_new_advances)

lemma Scan_new_fuel: "Scan_new p s = Inl OutOfFuel \<Longrightarrow> n < remaining s"
  by (auto simp: Scan_new_def bindE_eq_Inl_iff cursor_defs remaining_def Let_def
      dest!: accept_advances Block_new_fuel)

lemmas stmt_new_advances =
  Block_new_advances Transaction_new_advances Let_new_advances If_new_advances For_new_advances
  Define_new_advances expr_stmt_advances Scan_new_advances DefineTuple_new_advances

lemmas stmt_new_fuel =
  Block_new_fuel Transaction_new_fuel If_new_fuel For_new_fuel Scan_new_fuel

lemma body_stmt_parser: "stmt_parser (parse_statement_body p) (Suc n)"
proof unfold_locales
  fix s s' x
  assume "parse_statement_body p s = Inr (Some x, s')"
  then show "advances s s'"
    by (auto simp: parse_statement_body_def Let_def some_stmt_def bindE_eq_Inr_iff split: if_splits
        dest: stmt_new_advances get_next_advances)
next
  fix s s'
  assume "parse_statement_body p s = Inr (None, s')"
  then show "s' = s \<and> (\<exists>t. ts_get s = Inr t \<and> tk_type t = TK_CLOSE_BRACE)"
    by (auto simp: parse_statement_body_def Let_def some_stmt_def bindE_eq_Inr_iff split: if_splits)
next
  fix s
  assume "parse_statement_body p s = Inl OutOfFuel"
  then show "Suc n \<le> remaining s"
    by (auto simp: parse_statement_body_def Let_def some_stmt_def bindE_eq_Inl_iff split: if_splits
        dest: stmt_new_fuel)
qed

end

lemma parse_statement_f_bounded: "stmt_parser (parse_statement_f n) n"
proof (induction n)
  case 0
  show ?case by unfold_locales simp_all
next
  case (Suc n)
  from stmt_parser.body_stmt_parser [OF this] show ?case by (simp add: stmt_parser_def)
qed

interpretation stmt_f: stmt_parser "parse_statement_f n" n for n
  by (rule parse_statement_f_bounded)

section \<open>The recursion bound does not matter\<close>

context stmt_parser
begin

lemma block_loop_cong:
  "agree_below r p q \<Longrightarrow> remaining s < r \<Longrightarrow> block_loop p k s = block_loop q k s"
proof (induction k arbitrary: s)
  case (Suc k)
  have "block_loop p k s1 = block_loop q k s1" if "p s = Inr (x, s1)" for x s1
    using Suc moves_remaining [OF p_moves [OF that]] by simp
  then show ?case
    using agree_belowD [OF Suc.prems] by (auto simp: block_loop.simps intro!: bindE_cong)
qed (simp add: block_loop.simps)

lemma Block_new_cong:
  "agree_below r p q \<Longrightarrow> remaining s \<le> r \<Longrightarrow> Block_new p s = Block_new q s"
  by (auto simp: Block_new_def block_loop_cong intro!: bindE_accept_cong bindE_cong)

lemma agree_after: "agree_below (remaining s) p q \<Longrightarrow> advances s s1 \<Longrightarrow> Block_new p s1 = Block_new q s1"
  by (rule Block_new_cong [of "remaining s"]) (auto dest: advances_remaining)

lemma Transaction_new_cong:
  "agree_below (remaining s) p q \<Longrightarrow> Transaction_new p s = Transaction_new q s"
  by (auto simp: Transaction_new_def remaining_def intro!: bindE_accept_cong bindE_cong Block_new_cong)

lemma If_new_cong:
  assumes "agree_below (remaining s) p q"
  shows "If_new p s = If_new q s"
proof -
  have 1: "Block_new p s2 = Block_new q s2"
    if "accept TK_IF s = Inr (x, s1)" "parse_expr s1 = Inr (e, s2)" for x s1 e s2
    using accept_advances [OF that(1)] exprs.p_advances [OF that(2)]
    by (intro agree_after [OF assms]) (auto intro: cursor_trans)
  have 2: "Block_new p (ts_next s3) = Block_new q (ts_next s3)"
    if "accept TK_IF s = Inr (x, s1)" "parse_expr s1 = Inr (e, s2)" "Block_new q s2 = Inr (b, s3)" "ts_get s3 = Inr t" for x s1 e s2 b s3 t
    using accept_advances [OF that(1)] exprs.p_advances [OF that(2)] Block_new_advances [of s2 b s3] that(3)
      1 [OF that(1,2)] ts_get_advances [OF that(4)]
    by (intro agree_after [OF assms]) (auto simp: cursor_defs)
  show ?thesis using 1 2 by (auto simp: If_new_def Let_def intro!: bindE_cong)
qed

lemma For_new_cong:
  assumes "agree_below (remaining s) p q"
  shows "For_new p s = For_new q s"
proof -
  have 1: "For_init p s1 = For_init q s1" if "accept TK_FOR s = Inr (x, s1)" for x s1
    using agree_belowD [OF assms accept_remaining [OF that]] by (simp add: For_init_def cong: if_cong)
  have 2: "Block_new p s6 = Block_new q s6"
    if "accept TK_FOR s = Inr (x1, s1)" "For_init q s1 = Inr (x2, s2)" "accept TK_SEMICOLON s2 = Inr (x3, s3)"
      "For_clause parse_expr s3 = Inr (x4, s4)" "accept TK_SEMICOLON s4 = Inr (x5, s5)"
      "For_clause parse_expr s5 = Inr (x6, s6)" for x1 s1 x2 s2 x3 s3 x4 s4 x5 s5 x6 s6
    using accept_advances [OF that(1)] For_init_moves [of s1 x2 s2] 1 [OF that(1)] that(2)
      accept_advances [OF that(3)] For_clause_moves [OF that(4)] accept_advances [OF that(5)]
      For_clause_moves [OF that(6)]
    by (intro agree_after [OF assms]) (auto simp: cursor_defs)
  show ?thesis using 1 2 by (auto simp: For_new_def intro!: bindE_cong)
qed

lemma Scan_new_cong:
  assumes "agree_below (remaining s) p q"
  shows "Scan_new p s = Scan_new q s"
proof -
  have "Block_new p (ts_next s3) = Block_new q (ts_next s3)"
    if "accept TK_SCAN s = Inr (x1, s1)" "accept TK_IDENTIFIER s1 = Inr (x2, s2)" "accept TK_COMMA s2 = Inr (x3, s3)"
      "ts_get s3 = Inr t" for x1 s1 x2 s2 x3 s3 t
    using accept_advances [OF that(1)] accept_advances [OF that(2)]
      accept_advances [OF that(3)] ts_get_advances [OF that(4)]
    by (intro agree_after [OF assms]) (auto simp: cursor_defs)
  then show ?thesis by (auto simp: Scan_new_def Let_def intro!: bindE_cong)
qed

lemma parse_statement_body_cong:
  "agree_below (remaining s) p q \<Longrightarrow> parse_statement_body p s = parse_statement_body q s"
  by (simp add: parse_statement_body_def Let_def Block_new_cong [of "remaining s"] Transaction_new_cong
      If_new_cong For_new_cong Scan_new_cong cong: if_cong)

end

lemma parse_statement_f_stable:
  "remaining s < n \<Longrightarrow> remaining s < m \<Longrightarrow> parse_statement_f n s = parse_statement_f m s"
proof (induction n arbitrary: m s)
  case (Suc n)
  then obtain m' where m: "m = Suc m'" by (cases m) auto
  have "agree_below (remaining s) (parse_statement_f n) (parse_statement_f m')"
    using Suc.prems by (auto simp: agree_below_def m intro!: Suc.IH)
  from stmt_f.parse_statement_body_cong [OF this] show ?case by (simp add: m)
qed simp

declare parse_statement_f.simps(2) [simp del]

lemma parse_statement_unfold: "parse_statement s = parse_statement_body parse_statement s"
proof -
  have "agree_below (remaining s) (parse_statement_f (remaining s)) parse_statement"
    by (auto simp: agree_below_def parse_statement_def intro!: parse_statement_f_stable)
  then show ?thesis
    by (simp add: parse_statement_def parse_statement_f.simps stmt_f.parse_statement_body_cong)
qed

interpretation stmts: stmt_parser parse_statement n for n
  by unfold_locales
     (use stmt_f.stmt_advances stmt_f.null_stays stmt_f.stmt_fuel in \<open>fastforce simp: parse_statement_def\<close>)+

lemma parse_statement_total [simp]: "parse_statement s \<noteq> Inl OutOfFuel"
  using stmts.stmt_fuel [of s "Suc (remaining s)"] by auto

section \<open>The loop of parse\<close>

declare parse_loop.simps [simp del]

lemma parse_loop_stuck:
  assumes "parse_statement s = Inr (None, s)" "ts_has_next s"
  shows "parse_loop k acc s = Inl OutOfFuel"
  using assms by (induction k) (simp_all add: parse_loop.simps)

lemma parse_loop_decided:
  assumes "remaining s < k"
  shows "(\<forall>k'. remaining s < k' \<longrightarrow> parse_loop k' acc s = parse_loop k acc s) \<and>
    (parse_loop k acc s = Inl OutOfFuel \<longrightarrow>
       (\<forall>k'. parse_loop k' acc s = Inl OutOfFuel) \<and>
       (\<exists>s' t. moves s s' \<and> ts_get s' = Inr t \<and> tk_type t = TK_CLOSE_BRACE))"
  using assms
proof (induction k arbitrary: acc s)
  case (Suc k)
  consider "\<not> ts_has_next s" | e where "ts_has_next s" "parse_statement s = Inl e"
    | s1 where "ts_has_next s" "parse_statement s = Inr (None, s1)"
    | x s1 where "ts_has_next s" "parse_statement s = Inr (Some x, s1)"
    by (metis option.exhaust sumE surj_pair)
  then show ?case
  proof cases
    case 1
    then have "parse_loop (Suc j) acc s = Inr acc" for j by (simp add: parse_loop.simps)
    then show ?thesis using gr0_conv_Suc by (metis Inl_Inr_False less_nat_zero_code neq0_conv)
  next
    case (2 e)
    then have "parse_loop (Suc j) acc s = Inl e" for j by (simp add: parse_loop.simps)
    moreover have "e \<noteq> OutOfFuel" using 2(2) parse_statement_total [of s] by auto
    ultimately show ?thesis using gr0_conv_Suc by (metis Inl_inject less_nat_zero_code neq0_conv)
  next
    case (3 s1)
    from stmts.null_stays [OF 3(2)] obtain t where "s1 = s" "ts_get s = Inr t" "tk_type t = TK_CLOSE_BRACE"
      by blast
    then have "parse_loop k' acc s = Inl OutOfFuel" for k'
      using 3 by (simp add: parse_loop_stuck)
    moreover have "moves s s" by (rule moves_refl_get) fact
    ultimately show ?thesis using \<open>ts_get s = Inr t\<close> \<open>tk_type t = TK_CLOSE_BRACE\<close> by auto
  next
    case (4 x s1)
    have adv: "advances s s1" by (rule stmts.stmt_advances [OF 4(2)])
    have step: "parse_loop (Suc j) acc s = parse_loop j (acc @ [x]) s1" for j
      using 4 by (simp add: parse_loop.simps)
    have "remaining s1 < k" using Suc.prems advances_remaining [OF adv] by simp
    note IH = Suc.IH [OF this, of "acc @ [x]"]
    have "parse_loop k' acc s = parse_loop (Suc k) acc s" if "remaining s < k'" for k'
    proof (cases k')
      case (Suc j)
      with that advances_remaining [OF adv] IH show ?thesis by (simp add: step)
    qed (use that in simp)
    moreover have "parse_loop k' acc s = Inl OutOfFuel" if "parse_loop (Suc k) acc s = Inl OutOfFuel" for k'
      using that IH by (cases k') (simp_all add: step, simp add: parse_loop.simps)
    moreover have "\<exists>s' t. moves s s' \<and> ts_get s' = Inr t \<and> tk_type t = TK_CLOSE_BRACE"
      if "parse_loop (Suc k) acc s = Inl OutOfFuel"
      using that IH adv by (auto simp: step intro: advances_moves advances_moves_trans)
    ultimately show ?thesis by blast
  qed
qed simp

lemma ts_get_has_next: "ts_get s = Inr t \<Longrightarrow> ts_has_next s"
  by (auto simp: ts_has_next_def ts_get_Inr_iff)

lemma moves_token: "moves s s' \<Longrightarrow> ts_get s' = Inr t \<Longrightarrow> t \<in> set (ts_tokens s)"
  by (auto simp: moves_def ts_get_Inr_iff)

section \<open>Properties\<close>

text \<open>
  C11. Parsing a statement always ends; it satisfies the recursive equation of the code; a
  statement that is returned has consumed at least one token and stayed within the token
  list, and a null pointer is returned exactly on a closing brace, which stays unread.
\<close>

theorem parse_statement_returns:
  "parse_statement s \<noteq> Inl OutOfFuel \<and> parse_statement s = parse_statement_body parse_statement s \<and>
   (\<forall>x s'. parse_statement s = Inr (Some x, s') \<longrightarrow> advances s s') \<and>
   (\<forall>s'. parse_statement s = Inr (None, s') \<longleftrightarrow> s' = s \<and> (\<exists>t. ts_get s = Inr t \<and> tk_type t = TK_CLOSE_BRACE))"
proof -
  have "parse_statement s = Inr (None, s)" if "ts_get s = Inr t" "tk_type t = TK_CLOSE_BRACE" for t
    using that ts_get_has_next [OF that(1)]
    by (subst parse_statement_unfold) (simp add: parse_statement_body_def)
  with parse_statement_unfold [of s] stmts.stmt_advances stmts.null_stays show ?thesis by auto
qed

theorem parse_statement_returns_witness:
  "let s = token_stream_new [demo_token TK_BREAK ''break'', demo_token TK_CLOSE_BRACE ''}'']
   in parse_statement s = Inr (Some (Jump break_jump), ts_next s) \<and> advances s (ts_next s) \<and>
      parse_statement (ts_next s) = Inr (None, ts_next s)"
proof -
  define s where "s = token_stream_new [demo_token TK_BREAK ''break'', demo_token TK_CLOSE_BRACE ''}'']"
  have 1: "parse_statement s = Inr (Some (Jump break_jump), ts_next s)" unfolding s_def by code_simp
  have 2: "ts_get (ts_next s) = Inr (demo_token TK_CLOSE_BRACE ''}'')" unfolding s_def by code_simp
  have 3: "tk_type (demo_token TK_CLOSE_BRACE ''}'') = TK_CLOSE_BRACE" by (simp add: demo_token_def)
  have "advances s (ts_next s)" using parse_statement_returns [of s] 1 by metis
  moreover have "parse_statement (ts_next s) = Inr (None, ts_next s)"
    using parse_statement_returns [of "ts_next s"] 2 3 by metis
  ultimately show ?thesis using 1 by (simp add: Let_def flip: s_def)
qed



text \<open>
  C27. A lone closing brace makes \<open>parse\<close> run forever: no number of loop passes ends it.
\<close>

theorem stray_brace_hangs: "parse k ''}'' = Inl OutOfFuel"
proof -
  have "case tokenize ''}'' of Inl e \<Rightarrow> False
        | Inr ts \<Rightarrow> parse_statement (token_stream_new ts) = Inr (None, token_stream_new ts) \<and> ts_has_next (token_stream_new ts)"
    by code_simp
  then obtain ts where "tokenize ''}'' = Inr ts"
    "parse_statement (token_stream_new ts) = Inr (None, token_stream_new ts)" "ts_has_next (token_stream_new ts)"
    by (auto split: sum.splits)
  then show ?thesis by (simp add: parse_def parse_loop_stuck)
qed

text \<open>
  C25. A parsed \<open>for\<close> always has its step expression, and its first two clauses are
  either present or uninitialised, never null: the step cannot be omitted, although the
  other two can.
\<close>

theorem parsed_for_clauses:
  assumes "parse_statement s = Inr (Some (For init cond every blk), s')"
  shows "(\<exists>e. every = Ref e) \<and> init \<noteq> Null \<and> cond \<noteq> Null"
proof -
  from assms have "For_new parse_statement s = Inr (For init cond every blk, s')"
    by (subst (asm) parse_statement_unfold)
       (auto simp: parse_statement_body_def Let_def some_stmt_def bindE_eq_Inr_iff Transaction_new_def
         Let_new_def If_new_def Define_new_def Emit_new_def Insert_new_def Scan_new_def
         ExprStatement_new_def DefineTuple_new_def split: if_splits)
  then obtain s1 s2 x s3 s5 s6 where init: "For_init parse_statement s1 = Inr (init, s2)"
    and semi: "accept TK_SEMICOLON s2 = Inr (x, s3)" and "\<exists>s4. For_clause parse_expr s3 = Inr (cond, s4)"
    and every: "For_clause parse_expr s5 = Inr (every, s6)" and brace: "expect TK_OPEN_BRACE s6 = Inr ()"
    by (auto simp: For_new_def bindE_eq_Inr_iff)
  then have "cond \<noteq> Null" by (auto simp: For_clause_def bindE_eq_Inr_iff split: if_splits)
  moreover have "\<exists>e. every = Ref e"
    using every brace by (auto simp: For_clause_def expect_def bindE_eq_Inr_iff split: if_splits)
  moreover have "init \<noteq> Null"
  proof
    assume "init = Null"
    with init have "parse_statement s1 = Inr (None, s2)"
      by (auto simp: For_init_def bindE_eq_Inr_iff split: if_splits option.splits)
    from stmts.null_stays [OF this] semi show False by (auto simp: accept_def bindE_eq_Inr_iff)
  qed
  ultimately show ?thesis by blast
qed

theorem parsed_for_clauses_witness:
  "\<exists>s e s'. parse_statement s = Inr (Some (For Uninit Uninit (Ref e) []), s')"
proof -
  let ?s = "token_stream_new [demo_token TK_FOR ''for'', demo_token TK_SEMICOLON '';'', demo_token TK_SEMICOLON '';'',
    demo_token TK_IDENTIFIER ''i'', demo_token TK_OPEN_BRACE ''{'', demo_token TK_CLOSE_BRACE ''}'']"
  have "case parse_statement ?s of Inr (Some (For Uninit Uninit e []), s') \<Rightarrow> True | _ \<Rightarrow> False"
    by code_simp
  then obtain e s' where p: "parse_statement ?s = Inr (Some (For Uninit Uninit e []), s')"
    by (auto split: sum.splits prod.splits option.splits stmt.splits slot.splits list.splits)
  from parsed_for_clauses [OF p] p show ?thesis by blast
qed

end
