(* ===== verification/Reir_Source.thy ===== *)
theory Reir_Source
  imports Reir_Print_Expr Reir_Tokenize
begin

text \<open>
  From trees to source text: the lexemes of a printed expression are lexemes of the lexer, so
  that the lexer and the parser can be composed. \<open>spellable\<close> says of the names and string
  literals of a tree that they can be written down at all.
\<close>

definition spelled :: "(token_type \<times> string) list \<Rightarrow> bool" where
  "spelled xs \<longleftrightarrow> list_all (\<lambda>(ty, w). lexeme ty w) xs"

fun spellable :: "expr \<Rightarrow> bool" where
  "spellable (PrimaryExpression t v) \<longleftrightarrow>
     (case vi_value (mv_value v) of VStr s \<Rightarrow> CHR 0x22 \<notin> set s | _ \<Rightarrow> True)"
| "spellable (PrimaryNested t e) \<longleftrightarrow> spellable e"
| "spellable (BinaryExpression t op l r) \<longleftrightarrow> spellable l \<and> spellable r"
| "spellable (PointerOf t e) \<longleftrightarrow> (case e of None \<Rightarrow> True | Some e' \<Rightarrow> spellable e')"
| "spellable (RowLiteral t es) \<longleftrightarrow> list_all spellable es"
| "spellable (ArrayLiteral t es) \<longleftrightarrow> list_all spellable es"
| "spellable (VariableReference t n) \<longleftrightarrow> lexeme TK_IDENTIFIER n"
| "spellable (FunctionCall t p as) \<longleftrightarrow> spellable p \<and> list_all spellable as"
| "spellable (ArrayReference t p i) \<longleftrightarrow> (case p of None \<Rightarrow> True | Some p' \<Rightarrow> spellable p') \<and> spellable i"
| "spellable (MemberReference t p n off) \<longleftrightarrow> spellable p \<and> lexeme TK_IDENTIFIER n"
| "spellable (Assign t a v) \<longleftrightarrow> spellable a \<and> spellable v"

section \<open>Spelling\<close>

lemma spelled_simps [simp]:
  "spelled []" "spelled ((ty, w) # xs) \<longleftrightarrow> lexeme ty w \<and> spelled xs"
  "spelled (xs @ ys) \<longleftrightarrow> spelled xs \<and> spelled ys"
  by (simp_all add: spelled_def)

lemma lexeme_symbols [simp]:
  "lexeme TK_OPEN_PAREN ''(''" "lexeme TK_CLOSE_PAREN '')''" "lexeme TK_OPEN_BRACE ''{''"
  "lexeme TK_CLOSE_BRACE ''}''" "lexeme TK_OPEN_BRACKET ''[''" "lexeme TK_CLOSE_BRACKET '']''"
  "lexeme TK_COMMA '',''" "lexeme TK_PERIOD ''.''" "lexeme TK_EQUAL ''=''" "lexeme TK_AND ''&''"
  by code_simp+

lemma lexeme_operator: "op \<noteq> OP_NONE \<Longrightarrow> lexeme (fst (op_lexeme op)) (snd (op_lexeme op))"
proof -
  have "list_all (\<lambda>op. op = OP_NONE \<or> lexeme (fst (op_lexeme op)) (snd (op_lexeme op))) operators_list"
    by code_simp
  moreover have "op \<in> set operators_list" by (cases op) (simp_all add: operators_list_def)
  ultimately show "op \<noteq> OP_NONE \<Longrightarrow> lexeme (fst (op_lexeme op)) (snd (op_lexeme op))"
    by (auto simp: list_all_iff)
qed

lemma digit_numbers: "is_digit c \<Longrightarrow> c \<in> set numbers"
proof -
  assume "is_digit c"
  then have "of_char c \<in> set [48, 49, 50, 51, 52, 53, 54, 55, 56, 57 :: nat]"
    unfolding is_digit_def by simp presburger
  then have "char_of (of_char c :: nat) \<in> set (map char_of [48, 49, 50, 51, 52, 53, 54, 55, 56, 57 :: nat])"
    unfolding set_map by (rule imageI)
  then have "c \<in> set (map char_of [48, 49, 50, 51, 52, 53, 54, 55, 56, 57 :: nat])"
    by (simp only: char_of_char)
  also have "map char_of [48, 49, 50, 51, 52, 53, 54, 55, 56, 57 :: nat] = ''0123456789''"
    by (simp add: char_of_def bit_numeral_rec bit_Suc_0_iff)
  finally show ?thesis by (auto simp: numbers_def)
qed

lemma numbers_kind: "c \<in> set numbers \<Longrightarrow> char_kind c = CK_NUMBER"
proof -
  have "list_all (\<lambda>c. char_kind c = CK_NUMBER) numbers" by code_simp
  then show "c \<in> set numbers \<Longrightarrow> char_kind c = CK_NUMBER" by (simp add: list_all_iff)
qed

lemma lexeme_number [simp]: "lexeme TK_NUMBER (show_nat n)"
  using show_nat_digits [of n]
  by (auto simp: lexeme_def show_nat_nonempty list_all_iff digit_numbers numbers_kind)

lemma lexeme_literal [simp]: "lexeme TK_STRING_LITERAL s \<longleftrightarrow> CHR 0x22 \<notin> set s"
  using word_type_not_string [of s] operator_token_not_string [of s] symbol_token_not_string
  unfolding lexeme_def by (metis token_type.distinct)

lemma spelled_list:
  "(\<And>e. e \<in> set es \<Longrightarrow> spelled (lex_expr False e)) \<Longrightarrow> spelled (lex_list es)"
  by (induction es) auto

lemma spelled_expr: "source_expr e \<Longrightarrow> spellable e \<Longrightarrow> spelled (lex_expr b e)"
proof (induction e arbitrary: b)
  case (PrimaryExpression t v)
  then show ?case by (auto split: val_variant.splits)
next
  case (BinaryExpression t op l r)
  then show ?case using lexeme_operator [of op] by (cases "op_lexeme op") (simp add: paren_def)
next
  case (ArrayReference t p i)
  then show ?case by (auto split: option.splits expr.splits)
qed (auto simp: paren_def list_all_iff intro!: spelled_list split: option.splits)

end
