(* ===== verification/Reir_Print_Stmt.thy ===== *)
theory Reir_Print_Stmt
  imports Reir_Parse_Stmt Reir_Source
begin

text \<open>
  What the statement parser accepts and what it builds: printers of types, statements and blocks
  into lexemes, and the proof that the parser reads them back. The language has no separator
  between statements: a statement that ends with an expression goes on when the next one begins
  with a parenthesis or a bracket, and the printed blocks are those where this does not happen.
\<close>

section \<open>Parsers that read given lexemes\<close>

type_synonym lexemes = "(token_type \<times> string) list"

text \<open>The parser turns these lexemes into this value, whatever suitable tokens follow.\<close>

definition reads :: "'a parser \<Rightarrow> (token list \<Rightarrow> bool) \<Rightarrow> lexemes \<Rightarrow> 'a \<Rightarrow> bool" where
  "reads p ok ls x \<longleftrightarrow>
     (\<forall>pre xs rest. map token_lexeme xs = ls \<longrightarrow> ok rest \<longrightarrow>
        p (stream pre (xs @ rest)) = Inr (x, stream (pre @ xs) rest))"

abbreviation always :: "token list \<Rightarrow> bool" where
  "always \<equiv> \<lambda>_. True"

text \<open>The tokens of the lexemes, followed by suitable ones, are suitable.\<close>

definition leads :: "(token list \<Rightarrow> bool) \<Rightarrow> lexemes \<Rightarrow> (token list \<Rightarrow> bool) \<Rightarrow> bool" where
  "leads ok ls ok' \<longleftrightarrow> (\<forall>xs rest. map token_lexeme xs = ls \<longrightarrow> ok rest \<longrightarrow> ok' (xs @ rest))"

lemma readsD: "reads p ok ls x \<Longrightarrow> map token_lexeme xs = ls \<Longrightarrow> ok rest \<Longrightarrow>
    p (stream pre (xs @ rest)) = Inr (x, stream (pre @ xs) rest)"
  by (simp add: reads_def)

lemma reads_return: "reads (\<lambda>s. Inr (x, s)) ok [] x"
  by (simp add: reads_def)

lemma reads_bind:
  assumes "reads p ok' ls x" "reads (f x) ok ms y" "leads ok ms ok'"
  shows "reads (\<lambda>s. bindE (p s) (\<lambda>(x, s). f x s)) ok (ls @ ms) y"
  unfolding reads_def
proof (intro allI impI)
  fix pre xs rest
  assume "map token_lexeme xs = ls @ ms" and ok: "ok rest"
  then obtain ys zs where xs: "xs = ys @ zs" "map token_lexeme ys = ls" "map token_lexeme zs = ms"
    by (auto simp: map_eq_append_conv)
  from assms(3) xs ok have "ok' (zs @ rest)" by (simp add: leads_def)
  from readsD [OF assms(1) xs(2) this, of pre] readsD [OF assms(2) xs(3) ok, of "pre @ ys"] xs(1)
  show "bindE (p (stream pre (xs @ rest))) (\<lambda>(x, s). f x s) = Inr (y, stream (pre @ xs) rest)" by simp
qed

lemma reads_bind_Cons:
  "reads p ok' [l] x \<Longrightarrow> reads (f x) ok ms y \<Longrightarrow> leads ok ms ok' \<Longrightarrow> reads (\<lambda>s. bindE (p s) (\<lambda>(x, s). f x s)) ok (l # ms) y"
  using reads_bind [of p ok' "[l]"] by simp

lemma leads_always [simp]: "leads ok ls always"
  by (simp add: leads_def)

lemma leads_Nil [simp]: "leads ok [] ok"
  by (simp add: leads_def)

lemma leads_stops [simp]: "ends_expr ty \<Longrightarrow> leads ok ((ty, w) # ls) stops"
  by (auto simp: leads_def map_eq_Cons_conv)

lemma reads_accept: "reads (accept ty) always [(ty, w)] w"
  by (auto simp: reads_def map_eq_Cons_conv)

lemma reads_weaken: "reads p ok ls x \<Longrightarrow> (\<And>rest. ok' rest \<Longrightarrow> ok rest) \<Longrightarrow> reads p ok' ls x"
  by (auto simp: reads_def)

text \<open>A parser that looks at the first token, and one that checks it.\<close>

lemma reads_peek:
  assumes "\<And>t. tk_type t = ty \<Longrightarrow> tk_text t = w \<Longrightarrow> reads (f t) ok ((ty, w) # ls) x"
  shows "reads (\<lambda>s. bindE (ts_get s) (\<lambda>t. f t s)) ok ((ty, w) # ls) x"
  using assms unfolding reads_def by (auto simp: map_eq_Cons_conv Cons_eq_map_conv) (metis list.simps(9) token_lexeme_eq(1) append_Cons)

lemma reads_expect:
  assumes "reads p ok ((ty, w) # ls) x"
  shows "reads (\<lambda>s. bindE (expect ty s) (\<lambda>_. p s)) ok ((ty, w) # ls) x"
  using assms unfolding reads_def expect_def by (auto simp: map_eq_Cons_conv expect_token_def)

text \<open>A parser that looks at the first token and goes on behind it.\<close>

lemma reads_take:
  assumes "\<And>t. tk_type t = ty \<Longrightarrow> tk_text t = w \<Longrightarrow> reads (f t) ok ls x"
  shows "reads (\<lambda>s. bindE (ts_get s) (\<lambda>t. f t (ts_next s))) ok ((ty, w) # ls) x"
  using assms unfolding reads_def by (auto simp: map_eq_Cons_conv)

text \<open>Two parsers that agree on streams with this first token.\<close>

lemma reads_first:
  assumes "reads q ok ((ty, w) # ls) x"
    and "\<And>pre t ts. tk_type t = ty \<Longrightarrow> tk_text t = w \<Longrightarrow> p (stream pre (t # ts)) = q (stream pre (t # ts))"
  shows "reads p ok ((ty, w) # ls) x"
  unfolding reads_def
proof (intro allI impI)
  fix pre xs rest
  assume xs: "map token_lexeme xs = (ty, w) # ls" "ok rest"
  then obtain t ys where "xs = t # ys" "tk_type t = ty" "tk_text t = w" by (auto simp: map_eq_Cons_conv)
  with readsD [OF assms(1) xs, of pre] assms(2) show "p (stream pre (xs @ rest)) = Inr (x, stream (pre @ xs) rest)" by simp
qed

lemma reads_parse_expr: "source_expr e \<Longrightarrow> reads parse_expr stops (lex_expr False e) e"
  using source_expr_reads [of e] by (simp add: reads_def reads_expr_def)

section \<open>Printing types\<close>

definition kw :: "token_type \<Rightarrow> token_type \<times> string" where
  "kw ty = (ty, token_type_str ty)"

definition lex_props :: "32 word \<Rightarrow> lexemes" where
  "lex_props pr =
     (if pr AND PROP_KEY \<noteq> 0 then [(TK_IDENTIFIER, ''key'')] else []) @
     (if pr AND PROP_NULLABLE \<noteq> 0 then [(TK_IDENTIFIER, ''nullable'')] else []) @
     (if pr AND PROP_UNIQUE \<noteq> 0 then [(TK_IDENTIFIER, ''unique'')] else [])"

fun lex_param :: "int option \<Rightarrow> lexemes" where
  "lex_param None = []"
| "lex_param (Some p) = [(TK_OPEN_PAREN, ''(''), (TK_NUMBER, show_nat (nat p)), (TK_CLOSE_PAREN, '')'')]"

type_synonym column = "string \<times> int option \<times> string \<times> 32 word"

fun lex_column :: "column \<Rightarrow> lexemes" where
  "lex_column (tn, p, nm, pr) =
     (word_type tn, tn) # lex_param p @ (TK_COLON, '':'') # (TK_IDENTIFIER, nm) # lex_props pr"

fun lex_columns :: "column list \<Rightarrow> lexemes" where
  "lex_columns [] = []"
| "lex_columns [c] = lex_column c"
| "lex_columns (c # cs) = lex_column c @ (TK_COMMA, '','') # lex_columns cs"

definition columns_type :: "column list \<Rightarrow> ty" where
  "columns_type cols =
     TupleType TY_TUPLE (map (\<lambda>(tn, p, nm, pr). nm) cols) (map (\<lambda>(tn, p, nm, pr). tn) cols)
       (map (\<lambda>(tn, p, nm, pr). pr) cols) (map (\<lambda>(tn, p, nm, pr). p) cols) []"

definition type_columns :: "ty \<Rightarrow> column list" where
  "type_columns t = zip (tt_type_names t) (zip (tt_params t) (zip (tt_names t) (tt_props t)))"

fun lex_ty :: "ty \<Rightarrow> lexemes" where
  "lex_ty (PrimaryType i) = [(TK_INT, ''int'')]"
| "lex_ty (ArrayType i) = [(TK_OPEN_BRACKET, ''[''), (TK_INT, ''int''), (TK_CLOSE_BRACKET, '']'')]"
| "lex_ty (TupleType i nms tns prs ps ts) =
     (TK_OPEN_BRACE, ''{'') # lex_columns (type_columns (TupleType i nms tns prs ps ts)) @ [(TK_CLOSE_BRACE, ''}'')]"

definition lex_row_type :: "ty \<Rightarrow> lexemes" where
  "lex_row_type t = (TK_OPEN_ANGLE, ''<'') # lex_ty t @ [(TK_CLOSE_ANGLE, ''>'')]"

text \<open>The types the parser builds; a primary type can only be \<open>int\<close>.\<close>

definition source_column :: "column \<Rightarrow> bool" where
  "source_column c =
     (case c of (tn, p, nm, pr) \<Rightarrow>
        (case p of None \<Rightarrow> True | Some q \<Rightarrow> 0 \<le> q \<and> q < 2 ^ 31) \<and>
        pr = (if pr AND PROP_KEY \<noteq> 0 then PROP_KEY else 0) OR (if pr AND PROP_NULLABLE \<noteq> 0 then PROP_NULLABLE else 0) OR
          (if pr AND PROP_UNIQUE \<noteq> 0 then PROP_UNIQUE else 0))"

fun source_ty :: "ty \<Rightarrow> bool" where
  "source_ty (PrimaryType i) \<longleftrightarrow> i = TY_INTEGER"
| "source_ty (ArrayType i) \<longleftrightarrow> i = TY_INTEGER"
| "source_ty (TupleType i nms tns prs ps ts) \<longleftrightarrow>
     (let cs = type_columns (TupleType i nms tns prs ps ts) in
      cs \<noteq> [] \<and> TupleType i nms tns prs ps ts = columns_type cs \<and> list_all source_column cs)"

section \<open>Reading types\<close>

definition no_word :: "token list \<Rightarrow> bool" where
  "no_word ts \<longleftrightarrow> (\<exists>t us. ts = t # us \<and> tk_type t \<noteq> TK_IDENTIFIER)"

lemma leads_no_word [simp]: "ty \<noteq> TK_IDENTIFIER \<Longrightarrow> leads ok ((ty, w) # ls) no_word"
  by (auto simp: leads_def no_word_def map_eq_Cons_conv)

fun prop_bit :: "string \<Rightarrow> 32 word option" where
  "prop_bit w = (if w = ''key'' then Some PROP_KEY else if w = ''nullable'' then Some PROP_NULLABLE
     else if w = ''unique'' then Some PROP_UNIQUE else None)"

lemma props_read:
  "map token_lexeme xs = map (Pair TK_IDENTIFIER) ws \<Longrightarrow> list_all (\<lambda>w. prop_bit w \<noteq> None) ws \<Longrightarrow> no_word rest \<Longrightarrow>
   length xs < k \<Longrightarrow> parse_props k pr (stream pre (xs @ rest)) =
     Inr (foldl (\<lambda>a w. a OR the (prop_bit w)) pr ws, stream (pre @ xs) rest)"
proof (induction ws arbitrary: xs k pr pre)
  case Nil
  then show ?case by (cases k) (auto simp: no_word_def loop_simps)
next
  case (Cons w ws)
  then obtain x ys where xs: "xs = x # ys" "tk_type x = TK_IDENTIFIER" "tk_text x = w" "map token_lexeme ys = map (Pair TK_IDENTIFIER) ws"
    by (auto simp: map_eq_Cons_conv)
  obtain k' where k: "k = Suc k'" "length ys < k'" using Cons.prems(4) xs(1) by (cases k) auto
  from Cons.IH [OF xs(4) _ Cons.prems(3) k(2), of _ "pre @ [x]"] Cons.prems(2) show ?case
    by (auto simp: xs k(1) loop_simps split: if_splits)
qed

lemma reads_props:
  assumes "source_column (tn, p, nm, pr)"
  shows "reads (\<lambda>s. parse_props (Suc (remaining s)) PROP_NONE s) no_word (lex_props pr) pr"
proof -
  define ws where "ws = (if pr AND PROP_KEY \<noteq> 0 then [''key''] else []) @ (if pr AND PROP_NULLABLE \<noteq> 0 then [''nullable''] else []) @
     (if pr AND PROP_UNIQUE \<noteq> 0 then [''unique''] else [])"
  have "lex_props pr = map (Pair TK_IDENTIFIER) ws" "list_all (\<lambda>w. prop_bit w \<noteq> None) ws" by (auto simp: ws_def lex_props_def)
  moreover have "pr = (if pr AND PROP_KEY \<noteq> 0 then PROP_KEY else 0) OR (if pr AND PROP_NULLABLE \<noteq> 0 then PROP_NULLABLE else 0) OR
      (if pr AND PROP_UNIQUE \<noteq> 0 then PROP_UNIQUE else 0)"
    using assms by (simp add: source_column_def)
  then have "foldl (\<lambda>a w. a OR the (prop_bit w)) PROP_NONE ws = pr"
    unfolding ws_def by (auto simp: PROP_NONE_def or.assoc split: if_splits)
  ultimately show ?thesis using props_read [of _ ws] unfolding reads_def by simp
qed

lemma column_read:
  assumes "source_column c" "map token_lexeme xs = lex_column c" "no_word rest"
  shows "parse_column (stream pre (xs @ rest)) = Inr (c, stream (pre @ xs) rest)"
proof -
  obtain tn p nm pr where c: "c = (tn, p, nm, pr)" using prod_cases4 by blast
  from assms(2) obtain x ys a b zs where xs: "xs = x # ys @ a # b # zs" "tk_text x = tn" "map token_lexeme ys = lex_param p"
    "tk_type a = TK_COLON" "tk_type b = TK_IDENTIFIER" "tk_text b = nm" "map token_lexeme zs = lex_props pr"
    by (auto simp: c map_eq_Cons_conv map_eq_append_conv)
  have "parse_param (stream (pre @ [x]) (ys @ a # b # zs @ rest)) = Inr (p, stream (pre @ [x] @ ys) (a # b # zs @ rest))"
  proof (cases p)
    case None
    with xs show ?thesis by (simp add: parse_param_def)
  next
    case (Some q)
    then have "stoi (show_nat (nat q)) = Inr q" using assms(1) stoi_show_nat [of "nat q"] by (simp add: c source_column_def)
    with xs Some show ?thesis by (auto simp: parse_param_def map_eq_Cons_conv expect_token_def)
  qed
  moreover from readsD [OF reads_props [OF assms(1) [unfolded c]] xs(7) assms(3), of "pre @ [x] @ ys @ [a, b]"]
  have "parse_props (Suc (remaining (stream (pre @ x # ys @ [a, b]) (zs @ rest)))) PROP_NONE (stream (pre @ x # ys @ [a, b]) (zs @ rest)) =
      Inr (pr, stream (pre @ x # ys @ a # b # zs) rest)" by simp
  ultimately show ?thesis using xs by (simp add: parse_column_def c)
qed

lemma columns_read:
  assumes "list_all source_column cs" "cs \<noteq> []" "map token_lexeme xs = lex_columns cs" "tk_type b = TK_CLOSE_BRACE" "length xs < k"
  shows "parse_columns k (stream pre (xs @ b # rest)) = Inr (cs, stream (pre @ xs) (b # rest))"
  using assms
proof (induction cs arbitrary: xs k pre rule: lex_columns.induct)
  case (2 c)
  from 2 column_read [of c xs "b # rest" pre] show ?case by (cases k) (auto simp: loop_simps no_word_def)
next
  case (3 c d cs)
  then obtain ys a zs where xs: "xs = ys @ a # zs" "map token_lexeme ys = lex_column c" "tk_type a = TK_COMMA"
    "map token_lexeme zs = lex_columns (d # cs)"
    by (auto simp: map_eq_append_conv map_eq_Cons_conv append_eq_map_conv Cons_eq_map_conv)
  have "parse_column (stream pre (ys @ a # zs @ b # rest)) = Inr (c, stream (pre @ ys) (a # zs @ b # rest))"
    using 3(2) xs column_read [of c ys "a # zs @ b # rest" pre] by (simp add: no_word_def)
  moreover obtain k' where k: "k = Suc k'" "length zs < k'" using 3(6) xs(1) by (cases k) auto
  ultimately show ?case using 3(1) [OF _ _ xs(4) _ k(2), of "pre @ ys @ [a]"] 3(2,5) xs by (simp add: loop_simps)
qed simp

lemma reads_int: "tk_type t = TK_INT \<Longrightarrow> tk_text t = ''int'' \<Longrightarrow>
    parse_type (stream pre (t # rest)) = Inr (PrimaryType TY_INTEGER, stream (pre @ [t]) rest)"
  by (subst parse_type_unfold) (simp add: parse_type_body_def PrimaryType_new_def expect_token_def type_parse_def)

lemma reads_type: "source_ty t \<Longrightarrow> reads parse_type always (lex_ty t) t"
  unfolding reads_def
proof (intro allI impI)
  fix pre xs rest
  assume t: "source_ty t" and xs: "map token_lexeme xs = lex_ty t"
  show "parse_type (stream pre (xs @ rest)) = Inr (t, stream (pre @ xs) rest)"
  proof (cases t)
    case (PrimaryType i)
    with t xs show ?thesis by (auto simp: map_eq_Cons_conv reads_int)
  next
    case (ArrayType i)
    with t xs show ?thesis
      by (subst parse_type_unfold) (auto simp: map_eq_Cons_conv parse_type_body_def ArrayType_new_def reads_int)
  next
    case (TupleType i nms tns prs ps ts)
    from xs obtain a ys b where x: "xs = a # ys @ [b]" "tk_type a = TK_OPEN_BRACE" "tk_type b = TK_CLOSE_BRACE"
      "map token_lexeme ys = lex_columns (type_columns t)"
      by (auto simp: TupleType map_eq_Cons_conv map_eq_append_conv)
    have "list_all source_column (type_columns t)" "type_columns t \<noteq> []" "t = columns_type (type_columns t)"
      using t by (simp_all add: TupleType Let_def)
    moreover from columns_read [OF this(1,2) x(4,3), of "Suc (length (ys @ b # rest))" "pre @ [a]" rest]
    have "parse_columns (Suc (Suc (length ys + length rest))) (stream (pre @ [a]) (ys @ b # rest)) =
        Inr (type_columns t, stream (pre @ a # ys) (b # rest))" by simp
    ultimately show ?thesis
      by (subst parse_type_unfold) (simp add: x parse_type_body_def TupleType_new_def columns_type_def)
  qed
qed

lemma reads_row_type: "source_ty t \<Longrightarrow> reads parse_row_type always (lex_row_type t) t"
  unfolding parse_row_type_def lex_row_type_def
  by (intro reads_bind_Cons [OF reads_accept] reads_bind [OF reads_type] reads_return leads_always) simp

section \<open>Printing statements\<close>

fun lex_stmt :: "stmt \<Rightarrow> lexemes" and lex_block :: "stmt list \<Rightarrow> lexemes" where
  "lex_stmt (Block ss) = (TK_OPEN_BRACE, ''{'') # lex_block ss @ [(TK_CLOSE_BRACE, ''}'')]"
| "lex_stmt (Transaction isolation ss) =
     kw TK_TRANSACTION # (TK_IDENTIFIER, isolation) # (TK_OPEN_BRACE, ''{'') # lex_block ss @ [(TK_CLOSE_BRACE, ''}'')]"
| "lex_stmt (Define t name) = kw TK_DEFINE # (case t of None \<Rightarrow> [] | Some t' \<Rightarrow> lex_row_type t') @ [(TK_IDENTIFIER, name)]"
| "lex_stmt (For init cond every ss) =
     kw TK_FOR # (case init of Ref i \<Rightarrow> lex_stmt i | _ \<Rightarrow> []) @ (TK_SEMICOLON, '';'') #
     (case cond of Ref e \<Rightarrow> lex_expr False e | _ \<Rightarrow> []) @ (TK_SEMICOLON, '';'') #
     (case every of Ref e \<Rightarrow> lex_expr False e | _ \<Rightarrow> []) @
     (TK_OPEN_BRACE, ''{'') # lex_block ss @ [(TK_CLOSE_BRACE, ''}'')]"
| "lex_stmt (Jump continue_jump) = [kw TK_CONTINUE]"
| "lex_stmt (Jump break_jump) = [kw TK_BREAK]"
| "lex_stmt (Emit e) = kw TK_EMIT # lex_expr False e"
| "lex_stmt (Insert table e) = kw TK_INSERT # (TK_IDENTIFIER, table) # lex_expr False e"
| "lex_stmt (Scan table row ss) =
     kw TK_SCAN # (TK_IDENTIFIER, table) # (TK_COMMA, '','') # (TK_IDENTIFIER, row) #
     (TK_OPEN_BRACE, ''{'') # lex_block ss @ [(TK_CLOSE_BRACE, ''}'')]"
| "lex_stmt (Let name t e) =
     kw TK_LET # (case t of None \<Rightarrow> [] | Some t' \<Rightarrow> lex_row_type t') @ (TK_IDENTIFIER, name) # (TK_EQUAL, ''='') # lex_expr False e"
| "lex_stmt (DefineTuple name t) = kw TK_TUPLE # (TK_IDENTIFIER, name) # lex_ty t"
| "lex_stmt (If cond t f) =
     kw TK_IF # lex_expr False cond @ (TK_OPEN_BRACE, ''{'') # lex_block t @ (TK_CLOSE_BRACE, ''}'') #
     (case f of None \<Rightarrow> [] | Some f' \<Rightarrow> kw TK_ELSE # (TK_OPEN_BRACE, ''{'') # lex_block f' @ [(TK_CLOSE_BRACE, ''}'')])"
| "lex_stmt (ExprStatement e) = lex_expr False e"
| "lex_block [] = []"
| "lex_block (s # ss) = lex_stmt s @ lex_block ss"

text \<open>The statements after which an expression may go on.\<close>

fun open_end :: "stmt \<Rightarrow> bool" where
  "open_end (Emit _) \<longleftrightarrow> True"
| "open_end (Insert _ _) \<longleftrightarrow> True"
| "open_end (Let _ _ _) \<longleftrightarrow> True"
| "open_end (ExprStatement _) \<longleftrightarrow> True"
| "open_end _ \<longleftrightarrow> False"

definition first_kind :: "lexemes \<Rightarrow> token_type" where
  "first_kind ls = (case ls of [] \<Rightarrow> TK_INVALID | l # _ \<Rightarrow> fst l)"

text \<open>The statements the parser builds, and the sequences that can be written without separators.\<close>

fun source_stmt :: "stmt \<Rightarrow> bool" and source_block :: "stmt list \<Rightarrow> bool" where
  "source_stmt (Block ss) \<longleftrightarrow> source_block ss"
| "source_stmt (Transaction isolation ss) \<longleftrightarrow> source_block ss"
| "source_stmt (Define t name) \<longleftrightarrow> (case t of None \<Rightarrow> False | Some t' \<Rightarrow> source_ty t' \<and> is_TupleType t')"
| "source_stmt (For init cond every ss) \<longleftrightarrow>
     (case init of Uninit \<Rightarrow> True | Null \<Rightarrow> False | Ref i \<Rightarrow> source_stmt i) \<and>
     (case cond of Uninit \<Rightarrow> True | Null \<Rightarrow> False | Ref e \<Rightarrow> source_expr e) \<and>
     (case every of Ref e \<Rightarrow> source_expr e | _ \<Rightarrow> False) \<and> source_block ss"
| "source_stmt (Jump j) \<longleftrightarrow> True"
| "source_stmt (Emit e) \<longleftrightarrow> source_expr e"
| "source_stmt (Insert table e) \<longleftrightarrow> source_expr e \<and> first_kind (lex_expr False e) = TK_OPEN_BRACE"
| "source_stmt (Scan table row ss) \<longleftrightarrow> source_block ss"
| "source_stmt (Let name t e) \<longleftrightarrow> (case t of None \<Rightarrow> True | Some t' \<Rightarrow> source_ty t') \<and> source_expr e"
| "source_stmt (DefineTuple name t) \<longleftrightarrow> source_ty t \<and> is_TupleType t"
| "source_stmt (If cond t f) \<longleftrightarrow> source_expr cond \<and> source_block t \<and> (case f of None \<Rightarrow> True | Some f' \<Rightarrow> source_block f')"
| "source_stmt (ExprStatement e) \<longleftrightarrow> source_expr e \<and> first_kind (lex_expr False e) \<notin> {TK_AND, TK_OPEN_BRACE}"
| "source_block [] \<longleftrightarrow> True"
| "source_block (s # ss) \<longleftrightarrow> source_stmt s \<and> source_block ss \<and>
     (open_end s \<longrightarrow> ss \<noteq> [] \<longrightarrow> first_kind (lex_block ss) \<notin> {TK_OPEN_PAREN, TK_OPEN_BRACKET})"

section \<open>Reading statements\<close>

definition follows :: "stmt \<Rightarrow> token list \<Rightarrow> bool" where
  "follows s ts \<longleftrightarrow>
     (case ts of [] \<Rightarrow> True | t # _ \<Rightarrow> tk_type t \<noteq> TK_ELSE \<and> (open_end s \<longrightarrow> ends_expr (tk_type t)))"

definition stmt_starters :: "token_type set" where
  "stmt_starters = {TK_OPEN_BRACE, TK_TRANSACTION, TK_LET, TK_IF, TK_FOR, TK_DEFINE, TK_EMIT, TK_INSERT, TK_SCAN, TK_BREAK, TK_CONTINUE,
     TK_OPEN_BRACKET, TK_OPEN_PAREN, TK_NUMBER, TK_STRING_LITERAL, TK_IDENTIFIER, TK_TUPLE}"

lemma lex_stmt_start: "source_stmt s \<Longrightarrow> \<exists>ty w ys. lex_stmt s = (ty, w) # ys \<and> ty \<in> stmt_starters"
proof (cases s)
  case (Jump j)
  then show ?thesis by (cases j) (simp_all add: kw_def stmt_starters_def)
next
  case (ExprStatement e)
  assume "source_stmt s"
  with ExprStatement lex_expr_start [of e False] show ?thesis by (auto simp: starters_def stmt_starters_def first_kind_def)
qed (simp_all add: kw_def stmt_starters_def)

lemma parse_statement_at:
  "parse_statement (stream pre (t # ts)) = parse_statement_body parse_statement (stream pre (t # ts))"
  by (rule parse_statement_unfold)

lemma reads_statement:
  assumes "reads p ok ((ty, w) # ls) x"
    and "\<And>pre t ts. tk_type t = ty \<Longrightarrow> parse_statement_body parse_statement (stream pre (t # ts)) = some_stmt (p (stream pre (t # ts)))"
  shows "reads parse_statement ok ((ty, w) # ls) (Some x)"
  unfolding reads_def
proof (intro allI impI)
  fix pre xs rest
  assume xs: "map token_lexeme xs = (ty, w) # ls" "ok rest"
  then obtain t ys where t: "xs = t # ys" "tk_type t = ty" by (auto simp: map_eq_Cons_conv)
  from readsD [OF assms(1) xs, of pre] show "parse_statement (stream pre (xs @ rest)) = Inr (Some x, stream (pre @ xs) rest)"
    by (simp add: t(1) parse_statement_at assms(2) [OF t(2)] some_stmt_def)
qed

definition reads_block :: "stmt list \<Rightarrow> bool" where
  "reads_block ss \<longleftrightarrow>
     (\<forall>pre xs (b :: token) rest k. map token_lexeme xs = lex_block ss \<longrightarrow> tk_type b = TK_CLOSE_BRACE \<longrightarrow> length xs < k \<longrightarrow>
        block_loop parse_statement k (stream pre (xs @ b # rest)) = Inr (ss, stream (pre @ xs) (b # rest)))"

lemma block_starts: "source_block ss \<Longrightarrow> ss \<noteq> [] \<Longrightarrow> first_kind (lex_block ss) \<in> stmt_starters"
proof (cases ss)
  case (Cons s ss')
  assume "source_block ss"
  with Cons lex_stmt_start [of s] show ?thesis by (auto simp: first_kind_def)
qed simp

lemma starter_ends: "ty \<in> stmt_starters \<Longrightarrow> ty \<noteq> TK_ELSE \<and> ty \<noteq> TK_CLOSE_BRACE \<and> ty \<noteq> TK_SEMICOLON \<and>
    (ty \<notin> {TK_OPEN_PAREN, TK_OPEN_BRACKET} \<longrightarrow> ends_expr ty)"
  by (auto simp: stmt_starters_def ends_expr_def)

lemma block_follows:
  assumes "source_block (s # ss)" "map token_lexeme zs = lex_block ss"
    and "case rest of [] \<Rightarrow> True | b # _ \<Rightarrow> tk_type b = TK_CLOSE_BRACE"
  shows "follows s (zs @ rest)"
proof (cases "ss = []")
  case True
  then show ?thesis using assms(2,3) by (auto simp: follows_def split: list.splits)
next
  case False
  obtain z zs' where z: "zs = z # zs'" "tk_type z = first_kind (lex_block ss)"
    using assms(2) block_starts [of ss] assms(1) False
    by (cases zs) (auto simp: first_kind_def stmt_starters_def token_lexeme_def split: list.splits)
  with starter_ends [OF block_starts [of ss]] assms(1) False show ?thesis by (auto simp: follows_def)
qed

lemma reads_block_Cons:
  assumes "reads parse_statement (follows s) (lex_stmt s) (Some s)" "reads_block ss" "source_block (s # ss)"
  shows "reads_block (s # ss)"
  unfolding reads_block_def
proof (intro allI impI)
  fix pre xs and b :: token and rest k
  assume xs: "map token_lexeme xs = lex_block (s # ss)" and b: "tk_type b = TK_CLOSE_BRACE" and k: "length xs < k"
  then obtain ys zs where x: "xs = ys @ zs" "map token_lexeme ys = lex_stmt s" "map token_lexeme zs = lex_block ss"
    by (auto simp: map_eq_append_conv)
  obtain ty w ls where "lex_stmt s = (ty, w) # ls" "ty \<in> stmt_starters" using lex_stmt_start [of s] assms(3) by auto
  then obtain t ys' where t: "ys = t # ys'" "tk_type t \<in> stmt_starters" using x(2) by (auto simp: map_eq_Cons_conv)
  from block_follows [OF assms(3) x(3), of "b # rest"] b have "follows s (zs @ b # rest)" by simp
  from readsD [OF assms(1) x(2) this, of pre] have "parse_statement (stream pre (t # ys' @ zs @ b # rest)) =
      Inr (Some s, stream (pre @ ys) (zs @ b # rest))" by (simp add: t(1))
  moreover obtain k' where "k = Suc k'" "length zs < k'" using k x(1) t(1) by (cases k) auto
  moreover have "tk_type t \<noteq> TK_CLOSE_BRACE" using starter_ends [OF t(2)] by simp
  ultimately show "block_loop parse_statement k (stream pre (xs @ b # rest)) = Inr (s # ss, stream (pre @ xs) (b # rest))"
    using assms(2) x(3) b by (simp add: reads_block_def x(1) t(1) block_loop.simps)
qed

lemma reads_Block_new: "reads_block ss \<Longrightarrow>
    reads (Block_new parse_statement) always ((TK_OPEN_BRACE, w) # lex_block ss @ [(TK_CLOSE_BRACE, w')]) ss"
  unfolding reads_def
proof (intro allI impI)
  fix pre xs rest
  assume ss: "reads_block ss" and "map token_lexeme xs = (TK_OPEN_BRACE, w) # lex_block ss @ [(TK_CLOSE_BRACE, w')]"
  then obtain a ys b where x: "xs = a # ys @ [b]" "tk_type a = TK_OPEN_BRACE" "map token_lexeme ys = lex_block ss" "tk_type b = TK_CLOSE_BRACE"
    by (auto simp: map_eq_Cons_conv map_eq_append_conv)
  with ss have "block_loop parse_statement (Suc (length (ys @ b # rest))) (stream (pre @ [a]) (ys @ b # rest)) =
      Inr (ss, stream ((pre @ [a]) @ ys) (b # rest))"
    by (auto simp: reads_block_def)
  then show "Block_new parse_statement (stream pre (xs @ rest)) = Inr (ss, stream (pre @ xs) rest)"
    using x by (simp add: Block_new_def)
qed

lemmas reads_steps = reads_bind_Cons [OF reads_accept] reads_expect reads_return leads_always leads_Nil

lemma reads_last: "reads p ok ls x \<Longrightarrow> reads (\<lambda>s. bindE (p s) (\<lambda>(x, s). Inr (f x, s))) ok ls (f x)"
  using reads_bind [of p ok ls x "\<lambda>x s. Inr (f x, s)" ok "[]" "f x"] reads_return [of "f x" ok] by simp

lemma reads_Emit_new: "source_expr e \<Longrightarrow> reads Emit_new stops ((TK_EMIT, w) # lex_expr False e) (Emit e)"
  unfolding Emit_new_def by (intro reads_bind_Cons [OF reads_accept] reads_last reads_parse_expr leads_always)

lemma reads_Insert_new:
  assumes "source_expr e" "first_kind (lex_expr False e) = TK_OPEN_BRACE"
  shows "reads Insert_new stops ((TK_INSERT, w) # (TK_IDENTIFIER, table) # lex_expr False e) (Insert table e)"
proof -
  obtain v ls where e: "lex_expr False e = (TK_OPEN_BRACE, v) # ls"
    using assms lex_expr_start [of e False] by (auto simp: first_kind_def)
  show ?thesis
    unfolding Insert_new_def e
    by (intro reads_bind_Cons [OF reads_accept] reads_expect leads_always reads_last)
       (use reads_parse_expr [OF assms(1)] e in simp)
qed

lemma reads_Let_new:
  assumes "source_expr e" "case t of None \<Rightarrow> True | Some t' \<Rightarrow> source_ty t'"
  shows "reads Let_new stops ((TK_LET, w) # (case t of None \<Rightarrow> [] | Some t' \<Rightarrow> lex_row_type t') @
    (TK_IDENTIFIER, name) # (TK_EQUAL, v) # lex_expr False e) (Let name t e)"
proof -
  let ?rest = "\<lambda>ty s. bindE (accept TK_IDENTIFIER s) (\<lambda>(name, s). bindE (accept TK_EQUAL s) (\<lambda>(_, s).
     bindE (parse_expr s) (\<lambda>(e, s). Inr (Let name ty e, s))))"
  have rest: "reads (?rest t) stops ((TK_IDENTIFIER, name) # (TK_EQUAL, v) # lex_expr False e) (Let name t e)"
    by (intro reads_bind_Cons [OF reads_accept] reads_last reads_parse_expr assms leads_always)
  have "reads (\<lambda>s. bindE (ts_get s) (\<lambda>tok. bindE (if tk_type tok = TK_OPEN_ANGLE
            then bindE (parse_row_type s) (\<lambda>(ty, s). Inr (Some ty, s)) else Inr (None, s)) (\<lambda>(ty, s). ?rest ty s))) stops
      ((case t of None \<Rightarrow> [] | Some t' \<Rightarrow> lex_row_type t') @ (TK_IDENTIFIER, name) # (TK_EQUAL, v) # lex_expr False e) (Let name t e)"
  proof (cases t)
    case None
    with rest show ?thesis by (auto intro!: reads_peek)
  next
    case (Some t')
    have "reads (\<lambda>s. bindE (bindE (parse_row_type s) (\<lambda>(ty, s). Inr (Some ty, s))) (\<lambda>(ty, s). ?rest ty s)) stops
        (lex_row_type t' @ (TK_IDENTIFIER, name) # (TK_EQUAL, v) # lex_expr False e) (Let name t e)"
      by (intro reads_bind [OF reads_last [OF reads_row_type]] leads_always) (use assms(2) rest Some in auto)
    then show ?thesis unfolding Some lex_row_type_def by (auto intro!: reads_peek)
  qed
  then show ?thesis unfolding Let_new_def by (intro reads_bind_Cons [OF reads_accept] leads_always)
qed

lemma reads_Define_new:
  assumes "source_ty t" "is_TupleType t"
  shows "reads Define_new always ((TK_DEFINE, w) # lex_row_type t @ [(TK_IDENTIFIER, name)]) (Define (Some t) name)"
  unfolding Define_new_def
  by (intro reads_bind_Cons [OF reads_accept] reads_bind [OF reads_row_type] assms leads_always) (simp add: reads_return assms)

lemma reads_DefineTuple_new:
  assumes "source_ty t" "is_TupleType t"
  shows "reads DefineTuple_new always ((TK_TUPLE, w) # (TK_IDENTIFIER, name) # lex_ty t) (DefineTuple name t)"
proof -
  have "reads (\<lambda>s. bindE (parse_type s) (\<lambda>(ty, s). if \<not> is_TupleType ty then Inl (RuntimeError ''invalid define tuple'')
      else Inr (DefineTuple name ty, s))) always (lex_ty t @ []) (DefineTuple name t)"
    by (rule reads_bind [OF reads_type [OF assms(1)]]) (simp_all add: assms reads_return)
  then show ?thesis unfolding DefineTuple_new_def by (auto intro!: reads_bind_Cons [OF reads_accept])
qed

lemma reads_Scan_new:
  assumes "reads_block ss"
  shows "reads (Scan_new parse_statement) always ((TK_SCAN, w) # (TK_IDENTIFIER, table) # (TK_COMMA, v) # (TK_IDENTIFIER, row) #
    (TK_OPEN_BRACE, u) # lex_block ss @ [(TK_CLOSE_BRACE, u')]) (Scan table row ss)"
  unfolding Scan_new_def Let_def
  by (intro reads_bind_Cons [OF reads_accept] leads_always reads_take reads_expect) (auto intro!: reads_last reads_Block_new assms)

lemma reads_Transaction_new:
  assumes "reads_block ss"
  shows "reads (Transaction_new parse_statement) always ((TK_TRANSACTION, w) # (TK_IDENTIFIER, isolation) #
    (TK_OPEN_BRACE, u) # lex_block ss @ [(TK_CLOSE_BRACE, u')]) (Transaction isolation ss)"
proof -
  have "reads (\<lambda>s. bindE (ts_get s) (\<lambda>t. bindE (expect TK_OPEN_BRACE (ts_next s)) (\<lambda>_.
      bindE (Block_new parse_statement (ts_next s)) (\<lambda>(ss, s). Inr (Transaction (tk_text t) ss, s))))) always
      ((TK_IDENTIFIER, isolation) # (TK_OPEN_BRACE, u) # lex_block ss @ [(TK_CLOSE_BRACE, u')]) (Transaction isolation ss)"
    by (intro reads_take reads_expect) (auto intro!: reads_last reads_Block_new assms)
  then have "reads (\<lambda>s. bindE (ts_get s) (\<lambda>t. let (isolation, s) = (if tk_type t \<noteq> TK_OPEN_BRACE then (tk_text t, ts_next s)
      else (''SERIALIZABLE'', s)) in bindE (expect TK_OPEN_BRACE s) (\<lambda>_. bindE (Block_new parse_statement s) (\<lambda>(ss, s).
      Inr (Transaction isolation ss, s))))) always
      ((TK_IDENTIFIER, isolation) # (TK_OPEN_BRACE, u) # lex_block ss @ [(TK_CLOSE_BRACE, u')]) (Transaction isolation ss)"
    by (rule reads_first) simp
  then show ?thesis unfolding Transaction_new_def by (intro reads_bind_Cons [OF reads_accept] leads_always)
qed

definition no_else :: "token list \<Rightarrow> bool" where
  "no_else ts \<longleftrightarrow> (case ts of [] \<Rightarrow> True | t # _ \<Rightarrow> tk_type t \<noteq> TK_ELSE)"

lemma reads_If_new:
  assumes "source_expr cond" "reads_block t" "case f of None \<Rightarrow> True | Some f' \<Rightarrow> reads_block f'"
  shows "reads (If_new parse_statement) no_else ((TK_IF, w) # lex_expr False cond @ (TK_OPEN_BRACE, u) # lex_block t @ (TK_CLOSE_BRACE, u') #
    (case f of None \<Rightarrow> [] | Some f' \<Rightarrow> (TK_ELSE, v) # (TK_OPEN_BRACE, u) # lex_block f' @ [(TK_CLOSE_BRACE, u')])) (If cond t f)"
proof -
  let ?rest = "\<lambda>t s. if \<not> ts_has_next s then Inr (If cond t None, s)
     else bindE (ts_get s) (\<lambda>tok. if tk_type tok \<noteq> TK_ELSE then Inr (If cond t None, s)
          else let s = ts_next s in bindE (expect TK_OPEN_BRACE s) (\<lambda>_. bindE (Block_new parse_statement s) (\<lambda>(f, s).
                  Inr (If cond t (Some f), s))))"
  let ?ls = "case f of None \<Rightarrow> [] | Some f' \<Rightarrow> (TK_ELSE, v) # (TK_OPEN_BRACE, u) # lex_block f' @ [(TK_CLOSE_BRACE, u')]"
  have rest: "reads (?rest t) no_else ?ls (If cond t f)"
  proof (cases f)
    case None
    then show ?thesis by (auto simp: reads_def no_else_def split: list.splits)
  next
    case (Some f')
    have "reads (\<lambda>s. bindE (ts_get s) (\<lambda>tok. bindE (expect TK_OPEN_BRACE (ts_next s)) (\<lambda>_.
        bindE (Block_new parse_statement (ts_next s)) (\<lambda>(f, s). Inr (If cond t (Some f), s))))) always ?ls (If cond t f)"
      unfolding Some option.case by (intro reads_take reads_expect reads_last [of _ _ _ _ "\<lambda>f. If cond t (Some f)"])
        (use assms(3) Some in \<open>auto intro!: reads_Block_new\<close>)
    then have "reads (?rest t) always ?ls (If cond t f)" unfolding Some option.case by (rule reads_first) (simp add: Let_def)
    then show ?thesis by (rule reads_weaken) simp
  qed
  have "reads (\<lambda>s. bindE (Block_new parse_statement s) (\<lambda>(t, s). ?rest t s)) no_else
      (((TK_OPEN_BRACE, u) # lex_block t @ [(TK_CLOSE_BRACE, u')]) @ ?ls) (If cond t f)"
    by (rule reads_bind [where f = ?rest and x = t, OF reads_Block_new [OF assms(2)] rest leads_always])
  then show ?thesis
    unfolding If_new_def
    by (intro reads_bind_Cons [OF reads_accept] leads_always reads_bind [OF reads_parse_expr [OF assms(1)]] reads_expect) simp_all
qed

lemma reads_For_clause:
  assumes "case x of Uninit \<Rightarrow> True | Null \<Rightarrow> False | Ref e \<Rightarrow> source_expr e" "ty \<in> {TK_SEMICOLON, TK_OPEN_BRACE}"
    "ty = TK_OPEN_BRACE \<longrightarrow> x \<noteq> Uninit" and that: "reads (f x) ok ((ty, w) # ls) y"
  shows "reads (\<lambda>s. bindE (For_clause parse_expr s) (\<lambda>(c, s). f c s)) ok ((case x of Ref e \<Rightarrow> lex_expr False e | _ \<Rightarrow> []) @ (ty, w) # ls) y"
proof (cases x)
  case Uninit
  with assms have "ty = TK_SEMICOLON" by auto
  have "reads (\<lambda>s. bindE (For_clause parse_expr s) (\<lambda>(c, s). f c s)) ok ((ty, w) # ls) y"
    by (rule reads_first [OF that]) (simp add: For_clause_def Uninit \<open>ty = TK_SEMICOLON\<close>)
  with Uninit show ?thesis by simp
next
  case (Ref e)
  obtain ty' w' ls' where e: "lex_expr False e = (ty', w') # ls'" "ty' \<noteq> TK_SEMICOLON"
    using lex_expr_start [of e False] assms(1) Ref by (auto simp: starters_def)
  have "reads (For_clause parse_expr) stops (lex_expr False e) (Ref e)"
    unfolding For_clause_def e(1)
    using reads_last [OF reads_parse_expr, of e Ref] assms(1) Ref e by (intro reads_peek) simp
  moreover have "ends_expr ty" using assms(2) by auto
  ultimately show ?thesis using reads_bind [of "For_clause parse_expr" stops "lex_expr False e" "Ref e" f ok "(ty, w) # ls" y] that Ref by simp
qed (use assms in simp)

lemma reads_For_init:
  assumes "case x of Uninit \<Rightarrow> True | Null \<Rightarrow> False | Ref i \<Rightarrow> source_stmt i \<and> reads parse_statement (follows i) (lex_stmt i) (Some i)"
    and that: "reads (f x) ok ((TK_SEMICOLON, w) # ls) y"
  shows "reads (\<lambda>s. bindE (For_init parse_statement s) (\<lambda>(c, s). f c s)) ok
    ((case x of Ref i \<Rightarrow> lex_stmt i | _ \<Rightarrow> []) @ (TK_SEMICOLON, w) # ls) y"
proof (cases x)
  case Uninit
  have "reads (\<lambda>s. bindE (For_init parse_statement s) (\<lambda>(c, s). f c s)) ok ((TK_SEMICOLON, w) # ls) y"
    by (rule reads_first [OF that]) (simp add: For_init_def Uninit)
  with Uninit show ?thesis by simp
next
  case (Ref i)
  obtain ty' w' ls' where i: "lex_stmt i = (ty', w') # ls'" "ty' \<noteq> TK_SEMICOLON"
    using lex_stmt_start [of i] starter_ends assms(1) Ref by auto
  have "reads (For_init parse_statement) (follows i) (lex_stmt i) (Ref i)"
    unfolding For_init_def i(1)
    using reads_last [of parse_statement "follows i" "lex_stmt i" "Some i" "\<lambda>x. case x of None \<Rightarrow> Null | Some i \<Rightarrow> Ref i"] assms(1) Ref i
    by (intro reads_peek) simp
  moreover have "leads ok ((TK_SEMICOLON, w) # ls) (follows i)" by (auto simp: leads_def follows_def map_eq_Cons_conv)
  ultimately show ?thesis
    using reads_bind [of "For_init parse_statement" "follows i" "lex_stmt i" "Ref i" f ok "(TK_SEMICOLON, w) # ls" y] that Ref by simp
qed (use assms in simp)

lemma reads_For_new:
  assumes "case init of Uninit \<Rightarrow> True | Null \<Rightarrow> False | Ref i \<Rightarrow> source_stmt i \<and> reads parse_statement (follows i) (lex_stmt i) (Some i)"
    "case cond of Uninit \<Rightarrow> True | Null \<Rightarrow> False | Ref e \<Rightarrow> source_expr e" "every = Ref e" "source_expr e" "reads_block ss"
  shows "reads (For_new parse_statement) always ((TK_FOR, w) # (case init of Ref i \<Rightarrow> lex_stmt i | _ \<Rightarrow> []) @ (TK_SEMICOLON, v) #
     (case cond of Ref e \<Rightarrow> lex_expr False e | _ \<Rightarrow> []) @ (TK_SEMICOLON, v) # (case every of Ref e \<Rightarrow> lex_expr False e | _ \<Rightarrow> []) @
     (TK_OPEN_BRACE, u) # lex_block ss @ [(TK_CLOSE_BRACE, u')]) (For init cond every ss)"
  unfolding For_new_def
  by (intro reads_bind_Cons [OF reads_accept] leads_always reads_For_init [OF assms(1)] reads_For_clause [OF assms(2)] reads_For_clause [of every]
        reads_expect reads_last [of _ _ _ _ "For init cond every"] reads_Block_new assms(5))
     (use assms(3,4) in simp_all)

lemma reads_Block:
  assumes "reads_block ss"
  shows "reads parse_statement always ((TK_OPEN_BRACE, w) # lex_block ss @ [(TK_CLOSE_BRACE, w')]) (Some (Block ss))"
  by (rule reads_first [OF reads_last [OF reads_Block_new [OF assms], of "\<lambda>ss. Some (Block ss)"]])
     (simp add: parse_statement_at parse_statement_body_def)

lemma source_stmt_reads:
  "source_stmt s \<Longrightarrow> reads parse_statement (follows s) (lex_stmt s) (Some s)"
  "source_block ss \<Longrightarrow> reads_block ss"
proof (induction s and ss rule: source_stmt_source_block.induct)
  case (1 ss)
  then show ?case by (auto intro: reads_weaken [OF reads_Block])
next
  case (2 isolation ss)
  then have "reads_block ss" by simp
  from reads_statement [OF reads_Transaction_new [OF this]] show ?case
    unfolding lex_stmt.simps kw_def by (rule reads_weaken) (simp_all add: parse_statement_body_def)
next
  case (3 t name)
  then obtain t' where t: "t = Some t'" "source_ty t'" "is_TupleType t'" by (auto split: option.splits)
  from reads_statement [OF reads_Define_new [OF t(2,3)]] show ?case
    unfolding lex_stmt.simps kw_def t(1) option.case by (rule reads_weaken) (simp_all add: parse_statement_body_def)
next
  case (4 init cond every ss)
  then obtain e where e: "every = Ref e" "source_expr e" by (auto split: slot.splits)
  have "case init of Uninit \<Rightarrow> True | Null \<Rightarrow> False | Ref i \<Rightarrow> source_stmt i \<and> reads parse_statement (follows i) (lex_stmt i) (Some i)"
    "case cond of Uninit \<Rightarrow> True | Null \<Rightarrow> False | Ref e \<Rightarrow> source_expr e" "reads_block ss"
    using 4 by (auto split: slot.splits)
  from reads_statement [OF reads_For_new [OF this(1,2) e this(3)]] show ?case
    unfolding lex_stmt.simps kw_def by (rule reads_weaken) (simp_all add: parse_statement_body_def)
next
  case (5 j)
  show ?case
    by (cases j) (auto simp: kw_def reads_def map_eq_Cons_conv parse_statement_at parse_statement_body_def)
next
  case (6 e)
  then have "source_expr e" by simp
  from reads_statement [OF reads_Emit_new [OF this]] show ?case
    unfolding lex_stmt.simps kw_def by (rule reads_weaken) (auto simp: parse_statement_body_def follows_def stops_def split: list.splits)
next
  case (7 table e)
  then have "source_expr e" "first_kind (lex_expr False e) = TK_OPEN_BRACE" by simp_all
  from reads_statement [OF reads_Insert_new [OF this]] show ?case
    unfolding lex_stmt.simps kw_def by (rule reads_weaken) (auto simp: parse_statement_body_def follows_def stops_def split: list.splits)
next
  case (8 table row ss)
  then have "reads_block ss" by simp
  from reads_statement [OF reads_Scan_new [OF this]] show ?case
    unfolding lex_stmt.simps kw_def by (rule reads_weaken) (simp_all add: parse_statement_body_def)
next
  case (9 name t e)
  then have "source_expr e" "case t of None \<Rightarrow> True | Some t' \<Rightarrow> source_ty t'" by simp_all
  from reads_statement [OF reads_Let_new [OF this]] show ?case
    unfolding lex_stmt.simps kw_def by (rule reads_weaken) (auto simp: parse_statement_body_def follows_def stops_def split: list.splits)
next
  case (10 name t)
  then have "source_ty t" "is_TupleType t" by simp_all
  from reads_statement [OF reads_DefineTuple_new [OF this]] show ?case
    unfolding lex_stmt.simps kw_def by (rule reads_weaken) (simp_all add: parse_statement_body_def)
next
  case (11 cond t f)
  then have "source_expr cond" "reads_block t" "case f of None \<Rightarrow> True | Some f' \<Rightarrow> reads_block f'" by (auto split: option.splits)
  from reads_statement [OF reads_If_new [OF this]] show ?case
    unfolding lex_stmt.simps kw_def by (rule reads_weaken) (auto simp: parse_statement_body_def follows_def no_else_def split: list.splits)
next
  case (12 e)
  then obtain ty w ls where e: "lex_expr False e = (ty, w) # ls" "ty \<in> {TK_OPEN_BRACKET, TK_OPEN_PAREN, TK_NUMBER, TK_STRING_LITERAL, TK_IDENTIFIER}"
    using lex_expr_start [of e False] by (auto simp: starters_def first_kind_def)
  have "reads ExprStatement_new stops (lex_expr False e) (ExprStatement e)"
    unfolding ExprStatement_new_def by (rule reads_last [OF reads_parse_expr]) (use 12 in simp)
  from reads_statement [OF this [unfolded e(1)]] show ?case
    unfolding lex_stmt.simps e(1) by (rule reads_weaken) (use e(2) in \<open>auto simp: parse_statement_body_def follows_def stops_def split: list.splits\<close>)
next
  case 13
  show ?case by (auto simp: reads_block_def block_loop.simps gr0_conv_Suc)
next
  case (14 s ss)
  then show ?case by (intro reads_block_Cons) simp_all
qed

lemma parse_loop_reads:
  "source_block ss \<Longrightarrow> map token_lexeme xs = lex_block ss \<Longrightarrow> length ss < k \<Longrightarrow>
   parse_loop k acc (stream pre xs) = Inr (acc @ ss)"
proof (induction ss arbitrary: k acc pre xs)
  case Nil
  then show ?case by (cases k) (simp_all add: parse_loop.simps)
next
  case (Cons s ss)
  from Cons.prems(2) obtain ys zs where x: "xs = ys @ zs" "map token_lexeme ys = lex_stmt s" "map token_lexeme zs = lex_block ss"
    by (auto simp: map_eq_append_conv)
  have s: "source_stmt s" "source_block ss" using Cons.prems(1) by simp_all
  obtain k' where k: "k = Suc k'" "length ss < k'" using Cons.prems(3) by (cases k) auto
  from block_follows [OF Cons.prems(1) x(3), of "[]"] have "follows s zs" by simp
  from readsD [OF source_stmt_reads(1) [OF s(1)] x(2) this, of pre] have "parse_statement (stream pre xs) = Inr (Some s, stream (pre @ ys) zs)"
    by (simp add: x(1))
  moreover have "xs \<noteq> []" using lex_stmt_start [OF s(1)] x(1,2) by auto
  ultimately show ?case using Cons.IH [OF s(2) x(3) k(2), of "acc @ [s]" "pre @ ys"] by (simp add: k(1) parse_loop.simps)
qed

section \<open>Source text\<close>

fun spellable_ty :: "ty \<Rightarrow> bool" where
  "spellable_ty (TupleType i nms tns prs ps ts) \<longleftrightarrow> list_all (lexeme TK_IDENTIFIER) nms \<and> list_all (word_ok LX_NAME) tns"
| "spellable_ty _ \<longleftrightarrow> True"

fun spellable_stmt :: "stmt \<Rightarrow> bool" where
  "spellable_stmt (Block ss) \<longleftrightarrow> list_all spellable_stmt ss"
| "spellable_stmt (Transaction isolation ss) \<longleftrightarrow> lexeme TK_IDENTIFIER isolation \<and> list_all spellable_stmt ss"
| "spellable_stmt (Define t name) \<longleftrightarrow> (case t of None \<Rightarrow> True | Some t' \<Rightarrow> spellable_ty t') \<and> lexeme TK_IDENTIFIER name"
| "spellable_stmt (For init cond every ss) \<longleftrightarrow>
     (case init of Ref i \<Rightarrow> spellable_stmt i | _ \<Rightarrow> True) \<and> (case cond of Ref e \<Rightarrow> spellable e | _ \<Rightarrow> True) \<and>
     (case every of Ref e \<Rightarrow> spellable e | _ \<Rightarrow> True) \<and> list_all spellable_stmt ss"
| "spellable_stmt (Jump j) \<longleftrightarrow> True"
| "spellable_stmt (Emit e) \<longleftrightarrow> spellable e"
| "spellable_stmt (Insert table e) \<longleftrightarrow> lexeme TK_IDENTIFIER table \<and> spellable e"
| "spellable_stmt (Scan table row ss) \<longleftrightarrow> lexeme TK_IDENTIFIER table \<and> lexeme TK_IDENTIFIER row \<and> list_all spellable_stmt ss"
| "spellable_stmt (Let name t e) \<longleftrightarrow>
     (case t of None \<Rightarrow> True | Some t' \<Rightarrow> spellable_ty t') \<and> lexeme TK_IDENTIFIER name \<and> spellable e"
| "spellable_stmt (DefineTuple name t) \<longleftrightarrow> lexeme TK_IDENTIFIER name \<and> spellable_ty t"
| "spellable_stmt (If cond t f) \<longleftrightarrow> spellable cond \<and> list_all spellable_stmt t \<and>
     (case f of None \<Rightarrow> True | Some f' \<Rightarrow> list_all spellable_stmt f')"
| "spellable_stmt (ExprStatement e) \<longleftrightarrow> spellable e"

lemma lexeme_words [simp]:
  "lexeme TK_IDENTIFIER ''key''" "lexeme TK_IDENTIFIER ''nullable''" "lexeme TK_IDENTIFIER ''unique''" "lexeme TK_INT ''int''"
  "lexeme TK_COLON '':''" "lexeme TK_SEMICOLON '';''" "lexeme TK_OPEN_ANGLE ''<''" "lexeme TK_CLOSE_ANGLE ''>''"
  by code_simp+

lemma lexeme_kw [simp]:
  "spelled (kw TK_TRANSACTION # ls) \<longleftrightarrow> spelled ls" "spelled (kw TK_LET # ls) \<longleftrightarrow> spelled ls" "spelled (kw TK_IF # ls) \<longleftrightarrow> spelled ls"
  "spelled (kw TK_ELSE # ls) \<longleftrightarrow> spelled ls" "spelled (kw TK_FOR # ls) \<longleftrightarrow> spelled ls" "spelled (kw TK_DEFINE # ls) \<longleftrightarrow> spelled ls"
  "spelled (kw TK_EMIT # ls) \<longleftrightarrow> spelled ls" "spelled (kw TK_INSERT # ls) \<longleftrightarrow> spelled ls" "spelled (kw TK_SCAN # ls) \<longleftrightarrow> spelled ls"
  "spelled (kw TK_BREAK # ls) \<longleftrightarrow> spelled ls" "spelled (kw TK_CONTINUE # ls) \<longleftrightarrow> spelled ls" "spelled (kw TK_TUPLE # ls) \<longleftrightarrow> spelled ls"
proof -
  have "list_all (\<lambda>ty. lexeme ty (token_type_str ty)) reserved_words" by code_simp
  then have "ty \<in> set reserved_words \<Longrightarrow> spelled (kw ty # ls) \<longleftrightarrow> spelled ls" for ty by (simp add: list_all_iff kw_def)
  then show "spelled (kw TK_TRANSACTION # ls) \<longleftrightarrow> spelled ls" "spelled (kw TK_LET # ls) \<longleftrightarrow> spelled ls" "spelled (kw TK_IF # ls) \<longleftrightarrow> spelled ls"
    "spelled (kw TK_ELSE # ls) \<longleftrightarrow> spelled ls" "spelled (kw TK_FOR # ls) \<longleftrightarrow> spelled ls" "spelled (kw TK_DEFINE # ls) \<longleftrightarrow> spelled ls"
    "spelled (kw TK_EMIT # ls) \<longleftrightarrow> spelled ls" "spelled (kw TK_INSERT # ls) \<longleftrightarrow> spelled ls" "spelled (kw TK_SCAN # ls) \<longleftrightarrow> spelled ls"
    "spelled (kw TK_BREAK # ls) \<longleftrightarrow> spelled ls" "spelled (kw TK_CONTINUE # ls) \<longleftrightarrow> spelled ls" "spelled (kw TK_TUPLE # ls) \<longleftrightarrow> spelled ls"
    by (simp_all add: reserved_words_def)
qed

lemma spelled_column: "word_ok LX_NAME tn \<Longrightarrow> lexeme TK_IDENTIFIER nm \<Longrightarrow> spelled (lex_column (tn, p, nm, pr))"
  by (cases p) (simp_all add: lex_props_def lexeme_def [of "word_type tn"])

lemma spelled_columns: "(\<And>c. c \<in> set cs \<Longrightarrow> spelled (lex_column c)) \<Longrightarrow> spelled (lex_columns cs)"
  by (induction cs rule: lex_columns.induct) simp_all

lemma spelled_ty: "spellable_ty t \<Longrightarrow> spelled (lex_ty t)"
proof (cases t)
  case (TupleType i nms tns prs ps ts)
  assume t: "spellable_ty t"
  have "spelled (lex_column (tn, p, nm, pr))" if "(tn, p, nm, pr) \<in> set (type_columns t)" for tn p nm pr
    using t set_zip_leftD [OF that [unfolded type_columns_def]]
      set_zip_leftD [OF set_zip_rightD [OF set_zip_rightD [OF that [unfolded type_columns_def]]]]
    by (intro spelled_column) (simp_all add: TupleType list_all_iff del: word_ok.simps)
  then have "spelled (lex_columns (type_columns t))" by (intro spelled_columns) (metis prod_cases4)
  then show ?thesis by (simp add: TupleType)
qed simp_all

lemma spelled_stmt:
  "source_stmt s \<Longrightarrow> spellable_stmt s \<Longrightarrow> spelled (lex_stmt s)"
  "source_block ss \<Longrightarrow> list_all spellable_stmt ss \<Longrightarrow> spelled (lex_block ss)"
proof (induction s and ss rule: source_stmt_source_block.induct)
  case (5 j)
  then show ?case by (cases j) simp_all
qed (auto simp: spelled_expr spelled_ty lex_row_type_def split: option.splits slot.splits)

lemma parse_source:
  assumes "source_block ss" "list_all spellable_stmt ss" "length ss < k"
  shows "parse k (print_lexemes (lex_block ss)) = Inr (Block ss)"
proof -
  obtain ts where ts: "tokenize (print_lexemes (lex_block ss)) = Inr ts" "map token_lexeme ts = lex_block ss"
    using tokenize_print_lexemes spelled_stmt(2) [OF assms(1,2)] unfolding spelled_def by blast
  from parse_loop_reads [OF assms(1) ts(2) assms(3), of "[]" "[]"] ts(1) show ?thesis
    by (simp add: parse_def stream_def token_stream_new_def)
qed

section \<open>Properties\<close>

text \<open>
  C5. Whole programs: the text of a sequence of statements, with every kind of statement, is lexed
  and parsed back into exactly that sequence, as the block \<open>parse\<close> hands to its callback. The
  condition \<open>source_block\<close> excludes trees no text has (a \<open>for\<close> without its third clause, a
  statement that begins with a row or an address) and an expression followed by a statement that
  begins with a parenthesis or a bracket, which the parser takes as a call or an index.
\<close>

theorem program_text_roundtrip:
  assumes "source_block ss" "list_all spellable_stmt ss" "length ss < k"
  shows "parse k (print_lexemes (lex_block ss)) = Inr (Block ss)"
  using assms by (rule parse_source)

definition demo_program :: "stmt list" where
  "demo_program =
     [Define (Some (TupleType TY_TUPLE [''id''] [''int''] [PROP_KEY] [None] [])) ''t'',
      Transaction ''s'' [Insert ''t'' (RowLiteral None [PrimaryExpression None (MaybeValue_int 7)])],
      Scan ''t'' ''r'' [If (BinaryExpression None OP_LESSTHAN (PrimaryExpression None (MaybeValue_int 1)) (VariableReference None ''y''))
        [Emit (VariableReference None ''r'')] None]]"

theorem program_text_roundtrip_witness:
  "parse 4 (''DEFINE < { int : id key } > t TRANSACTION s { INSERT t { 7 } } '' @
     ''SCAN t , r { IF 1 < y { EMIT r } } '') = Inr (Block demo_program)"
proof -
  have "source_block demo_program"
    by (simp add: demo_program_def type_columns_def columns_type_def source_column_def first_kind_def PROP_defs is_TupleType_def
        MaybeValue_int_def ValueImpl_int_def)
  moreover have "lexeme TK_IDENTIFIER ''id''" "lexeme TK_IDENTIFIER ''t''" "lexeme TK_IDENTIFIER ''s''" "lexeme TK_IDENTIFIER ''r''"
    "lexeme TK_IDENTIFIER ''y''" "word_ok LX_NAME ''int''" by code_simp+
  then have "list_all spellable_stmt demo_program"
    by (simp add: demo_program_def MaybeValue_int_def ValueImpl_int_def del: word_ok.simps)
  ultimately have "parse 4 (print_lexemes (lex_block demo_program)) = Inr (Block demo_program)"
    by (rule program_text_roundtrip) (simp add: demo_program_def)
  moreover have "word_type ''int'' = TK_INT" by code_simp
  then have "print_lexemes (lex_block demo_program) =
      ''DEFINE < { int : id key } > t TRANSACTION s { INSERT t { 7 } } '' @ ''SCAN t , r { IF 1 < y { EMIT r } } ''"
    by (simp add: demo_program_def print_lexemes_def lexeme_image_def kw_def lex_row_type_def type_columns_def lex_props_def PROP_defs
        paren_def MaybeValue_int_def ValueImpl_int_def show_nat.simps digit_char_def char_of_def bit_numeral_rec bit_Suc_0_iff)
  ultimately show ?thesis by simp
qed

end
