(* ===== verification/Reir_Schema.thy ===== *)
theory Reir_Schema
  imports Reir_Attribute
begin

text \<open>
  Table schemas, \<^verbatim>\<open>src/reir/db/schema.hpp\<close> and \<^verbatim>\<open>schema.cpp\<close>: the row encoder
  that splits a tuple into a key (prefixed by the table name and a colon) and a value, the
  fixed lengths, and the textual form kept in the metadata store.
\<close>

section \<open>Schema\<close>

record schema =
  sc_name :: string
  sc_attrs :: "attribute list"
  sc_keys :: "nat list"

definition Schema_default :: schema where
  "Schema_default = \<lparr>sc_name = [], sc_attrs = [], sc_keys = []\<rparr>"

definition Schema_new :: "string \<Rightarrow> attribute list \<Rightarrow> schema" where
  "Schema_new name attrs = \<lparr>sc_name = name, sc_attrs = attrs, sc_keys = []\<rparr>"

definition get_tuple_length :: "schema \<Rightarrow> nat \<Rightarrow> 64 word res" where
  "get_tuple_length sc idx =
     bindE (guardE (idx < length (sc_attrs sc)) Undefined) (\<lambda>_. attr_default_size (sc_attrs sc ! idx))"

definition fixed_key_length :: "schema \<Rightarrow> bool" where
  "fixed_key_length sc \<longleftrightarrow> list_all (\<lambda>a. \<not> (attr_is_key a \<and> \<not> attr_fixed_length a)) (sc_attrs sc)"

definition fixed_value_length :: "schema \<Rightarrow> bool" where
  "fixed_value_length sc \<longleftrightarrow>
     list_all (\<lambda>a. \<not> (\<not> attr_is_key a \<and> \<not> attr_fixed_length a)) (sc_attrs sc)"

text \<open>\<open>ret += attr.default_size()\<close> over the attributes a test selects.\<close>

fun add_default_sizes :: "(attribute \<Rightarrow> bool) \<Rightarrow> attribute list \<Rightarrow> 64 word \<Rightarrow> 64 word res" where
  "add_default_sizes P [] ret = Inr ret"
| "add_default_sizes P (a # as) ret =
     (if P a then bindE (attr_default_size a) (\<lambda>n. add_default_sizes P as (ret + n))
      else add_default_sizes P as ret)"

definition get_fixed_key_length :: "schema \<Rightarrow> 64 word res" where
  "get_fixed_key_length sc =
     (if \<not> fixed_key_length sc
      then Inl (RuntimeError ''you cannot get fixed length of variable length key'')
      else bindE (add_default_sizes attr_is_key (sc_attrs sc) (of_nat (length (sc_name sc)) + 1)) (\<lambda>ret.
           Inr (ret + 1)))"

definition get_fixed_value_length :: "schema \<Rightarrow> 64 word res" where
  "get_fixed_value_length sc =
     (if \<not> fixed_value_length sc
      then Inl (RuntimeError ''you cannot get fixed length of variable length key'')
      else add_default_sizes (\<lambda>a. \<not> attr_is_key a) (sc_attrs sc) 0)"

definition get_key_prefix :: "schema \<Rightarrow> string" where
  "get_key_prefix sc = sc_name sc @ '':''"

definition get_prefix :: "schema \<Rightarrow> string" where
  "get_prefix sc = sc_name sc @ '':''"

definition sc_is_key :: "schema \<Rightarrow> nat \<Rightarrow> bool res" where
  "sc_is_key sc idx =
     bindE (guardE (idx < length (sc_attrs sc)) Undefined) (\<lambda>_. Inr (attr_is_key (sc_attrs sc ! idx)))"

definition add_column :: "schema \<Rightarrow> attribute \<Rightarrow> schema" where
  "add_column sc a = sc\<lparr>sc_attrs := sc_attrs sc @ [a]\<rparr>"

definition check_tuple_size :: "schema \<Rightarrow> maybe_value list \<Rightarrow> unit res" where
  "check_tuple_size sc tuple =
     guardE (length tuple = length (sc_attrs sc)) (RuntimeError ''size does not match'')"

definition columns :: "schema \<Rightarrow> nat" where
  "columns sc = length (sc_attrs sc)"

definition each_attr :: "schema \<Rightarrow> (nat \<times> attribute) list" where
  "each_attr sc = enumerate 0 (sc_attrs sc)"

text \<open>
  The sum of \<open>attrs_[k].encoded_length(tuple[k])\<close> over the selected columns; a tuple that
  is too short is read out of range.
\<close>

fun sum_lengths :: "(attribute \<Rightarrow> bool) \<Rightarrow> attribute list \<Rightarrow> maybe_value list \<Rightarrow> nat \<Rightarrow> nat res" where
  "sum_lengths P [] vs len = Inr len"
| "sum_lengths P (a # as) vs len =
     (if P a
      then case vs of
             [] \<Rightarrow> Inl Undefined
           | v # vs' \<Rightarrow> bindE (attr_encoded_length a v) (\<lambda>n. sum_lengths P as vs' (len + n))
      else sum_lengths P as (tl vs) len)"

definition sc_encoded_length :: "schema \<Rightarrow> maybe_value list \<Rightarrow> nat res" where
  "sc_encoded_length sc tuple =
     bindE (check_tuple_size sc tuple) (\<lambda>_.
     sum_lengths (\<lambda>_. True) (sc_attrs sc) tuple (length (sc_name sc) + 1))"

definition key_length :: "schema \<Rightarrow> maybe_value list \<Rightarrow> nat res" where
  "key_length sc tuple = sum_lengths attr_is_key (sc_attrs sc) tuple (length (sc_name sc) + 1)"

definition value_length :: "schema \<Rightarrow> maybe_value list \<Rightarrow> nat res" where
  "value_length sc tuple = sum_lengths (\<lambda>a. \<not> attr_is_key a) (sc_attrs sc) tuple 0"

definition val_length :: "schema \<Rightarrow> maybe_value list \<Rightarrow> nat res" where
  "val_length sc tuple = sum_lengths (\<lambda>a. \<not> attr_is_key a) (sc_attrs sc) tuple 0"

text \<open>The loop of \<open>encode\<close>: write the cell, then advance by its encoded length.\<close>

fun encode_cells :: "attribute list \<Rightarrow> maybe_value list \<Rightarrow> string \<Rightarrow> nat \<Rightarrow> string res" where
  "encode_cells [] vs buffer offset = Inr buffer"
| "encode_cells (a # as) [] buffer offset = Inl Undefined"
| "encode_cells (a # as) (v # vs) buffer offset =
     bindE (attr_encode a v buffer offset) (\<lambda>buffer.
     bindE (attr_encoded_length a v) (\<lambda>n.
     encode_cells as vs buffer (offset + n)))"

definition sc_encode :: "schema \<Rightarrow> maybe_value list \<Rightarrow> string \<Rightarrow> string res" where
  "sc_encode sc tuple buffer =
     bindE (check_tuple_size sc tuple) (\<lambda>_.
     bindE (buf_write buffer 0 (sc_name sc)) (\<lambda>buffer.
     bindE (buf_write buffer (length (sc_name sc)) '':'') (\<lambda>buffer.
     encode_cells (sc_attrs sc) tuple buffer (length (sc_name sc) + 1))))"

fun decode_cells :: "attribute list \<Rightarrow> maybe_value list \<Rightarrow> string \<Rightarrow> nat \<Rightarrow> maybe_value list res" where
  "decode_cells [] vs buffer offset = Inr vs"
| "decode_cells (a # as) [] buffer offset = Inl Undefined"
| "decode_cells (a # as) (v # vs) buffer offset =
     bindE (attr_decode a buffer offset v) (\<lambda>v.
     bindE (attr_encoded_length a v) (\<lambda>n.
     bindE (decode_cells as vs buffer (offset + n)) (\<lambda>vs. Inr (v # vs))))"

definition sc_decode :: "schema \<Rightarrow> string \<Rightarrow> maybe_value list \<Rightarrow> maybe_value list res" where
  "sc_decode sc buffer tuple =
     bindE (check_tuple_size sc tuple) (\<lambda>_. decode_cells (sc_attrs sc) tuple buffer 0)"

text \<open>The loops of \<open>encode_key\<close> and \<open>encode_value\<close>: length first, then the cell.\<close>

fun encode_selected ::
    "(attribute \<Rightarrow> bool) \<Rightarrow> attribute list \<Rightarrow> maybe_value list \<Rightarrow> string \<Rightarrow> nat \<Rightarrow> string res" where
  "encode_selected P [] vs buffer offset = Inr buffer"
| "encode_selected P (a # as) vs buffer offset =
     (if P a
      then case vs of
             [] \<Rightarrow> Inl Undefined
           | v # vs' \<Rightarrow>
               bindE (attr_encoded_length a v) (\<lambda>advance.
               bindE (attr_encode a v buffer offset) (\<lambda>buffer.
               encode_selected P as vs' buffer (offset + advance)))
      else encode_selected P as (tl vs) buffer offset)"

definition encode_key :: "schema \<Rightarrow> maybe_value list \<Rightarrow> string \<Rightarrow> string res" where
  "encode_key sc tuple buff =
     bindE (buf_write buff 0 (sc_name sc)) (\<lambda>buff.
     bindE (buf_write buff (length (sc_name sc)) '':'') (\<lambda>buff.
     encode_selected attr_is_key (sc_attrs sc) tuple buff (length (sc_name sc) + 1)))"

definition encode_value :: "schema \<Rightarrow> maybe_value list \<Rightarrow> string \<Rightarrow> string res" where
  "encode_value sc tuple buff =
     encode_selected (\<lambda>a. \<not> attr_is_key a) (sc_attrs sc) tuple buff 0"

definition sc_serialize :: "schema \<Rightarrow> string" where
  "sc_serialize sc = sc_name sc @ '':'' @ concat (map attr_serialize (sc_attrs sc))"

function deserialize_attrs :: "string \<Rightarrow> attribute list res" where
  "deserialize_attrs s =
     (if s = [] then Inr []
      else bindE (attr_deserialize s) (\<lambda>(a, rest).
           bindE (deserialize_attrs rest) (\<lambda>as. Inr (a # as))))"
  by pat_completeness auto
termination
  by (relation "measure length") (auto dest: attr_deserialize_length)

declare deserialize_attrs.simps [simp del]

definition sc_deserialize :: "schema \<Rightarrow> string \<Rightarrow> schema res" where
  "sc_deserialize this buf =
     bindE (stream_until (CHR '':'') buf) (\<lambda>(name, s).
     bindE (deserialize_attrs s) (\<lambda>as.
     Inr (this\<lparr>sc_name := name, sc_attrs := as\<rparr>)))"

definition sc_show :: "schema \<Rightarrow> string" where
  "sc_show sc =
     ''('' @ sc_name sc @ '' '' @
     concat (map (\<lambda>(i, a). (if 0 < i then '', '' else []) @ attr_show a) (each_attr sc)) @ '')''"

definition sc_eq :: "schema \<Rightarrow> schema \<Rightarrow> bool" where
  "sc_eq sc rhs \<longleftrightarrow> sc_name sc = sc_name rhs \<and> list_all2 attr_eq (sc_attrs sc) (sc_attrs rhs)"

section \<open>Specification\<close>

text \<open>
  A schema the textual form can carry: no colon in the table name, no space in a column
  name, enumeration and parameter within \<open>long long\<close>. And the rows the encoder handles
  exactly: every selected cell is a present integer.
\<close>

definition attr_printable :: "attribute \<Rightarrow> bool" where
  "attr_printable a \<longleftrightarrow>
     CHR '' '' \<notin> set (attr_name a) \<and> unat (at_type (attr_ty a)) < 2 ^ 63 \<and> unat (at_param (attr_ty a)) < 2 ^ 63"

definition schema_printable :: "schema \<Rightarrow> bool" where
  "schema_printable sc \<longleftrightarrow> CHR '':'' \<notin> set (sc_name sc) \<and> list_all attr_printable (sc_attrs sc)"

definition int_cell :: "attribute \<Rightarrow> maybe_value \<Rightarrow> bool" where
  "int_cell a v \<longleftrightarrow> attr_ok a v \<and> is_integer (attr_ty a)"

definition int_row :: "(attribute \<Rightarrow> bool) \<Rightarrow> attribute list \<Rightarrow> maybe_value list \<Rightarrow> bool" where
  "int_row P as vs \<longleftrightarrow> list_all2 (\<lambda>a v. P a \<longrightarrow> int_cell a v) as vs"

fun row_bytes :: "(attribute \<Rightarrow> bool) \<Rightarrow> attribute list \<Rightarrow> maybe_value list \<Rightarrow> string" where
  "row_bytes P (a # as) (v # vs) = (if P a then attr_bytes a v else []) @ row_bytes P as vs"
| "row_bytes P _ _ = []"

definition key_bytes :: "schema \<Rightarrow> maybe_value list \<Rightarrow> string" where
  "key_bytes sc tuple = get_key_prefix sc @ row_bytes attr_is_key (sc_attrs sc) tuple"

section \<open>Facts\<close>

lemma deserialize_attrs_serialize:
  "list_all attr_printable as \<Longrightarrow> deserialize_attrs (concat (map attr_serialize as)) = Inr as"
proof (induction as)
  case Nil
  show ?case by (simp add: deserialize_attrs.simps)
next
  case (Cons a as)
  have "attr_serialize a \<noteq> []" by (simp add: attr_serialize_def)
  with Cons show ?case
    by (subst deserialize_attrs.simps) (simp add: attr_printable_def attr_deserialize_serialize)
qed

lemma sc_deserialize_serialize:
  "schema_printable sc \<Longrightarrow>
   sc_deserialize this (sc_serialize sc) = Inr (this\<lparr>sc_name := sc_name sc, sc_attrs := sc_attrs sc\<rparr>)"
  by (simp add: sc_deserialize_def sc_serialize_def schema_printable_def stream_until_found
      deserialize_attrs_serialize)

lemma sc_serialize_inj:
  assumes "schema_printable sc1" "schema_printable sc2" "sc_serialize sc1 = sc_serialize sc2"
  shows "sc_name sc1 = sc_name sc2 \<and> sc_attrs sc1 = sc_attrs sc2"
proof -
  have "sc_deserialize Schema_default (sc_serialize sc1) =
        Inr (Schema_default\<lparr>sc_name := sc_name sc2, sc_attrs := sc_attrs sc2\<rparr>)"
    using assms(2,3) by (simp add: sc_deserialize_serialize)
  with assms(1) show ?thesis by (simp add: sc_deserialize_serialize Schema_default_def)
qed

lemma int_cell_length: "int_cell a v \<Longrightarrow> attr_encoded_length a v = Inr (length (attr_bytes a v))"
  by (simp add: int_cell_def attr_encoded_length_eq)

lemma int_cell_encode: "int_cell a v \<Longrightarrow> attr_encode a v buffer off = buf_write buffer off (attr_bytes a v)"
  by (simp add: int_cell_def attr_encode_bytes)

lemma int_cell_bytes_length:
  "int_cell a v \<Longrightarrow> length (attr_bytes a v) = (if attr_prop a = PROP_NULLABLE then 9 else 8)"
  by (auto simp: int_cell_def attr_ok_def is_integer_def AT_defs attr_bytes_def value_bytes_def
      ValueImpl_int_def elim!: at_okE)

lemma buf_write_Nil [simp]: "buf_write buffer off [] = (if off \<le> length buffer then Inr buffer else Inl Undefined)"
  by (simp add: buf_write_def)

lemma buf_write_room: "buf_write buffer off d = Inr buffer' \<Longrightarrow> off + length d \<le> length buffer'"
  by (auto simp: buf_write_def split: if_splits)

lemma buf_write_step:
  "bindE (buf_write buffer off a) (\<lambda>buffer. buf_write buffer (off + length a) b) = buf_write buffer off (a @ b)"
  by (rule buf_write_append)

lemma sum_lengths_bytes:
  "int_row P as vs \<Longrightarrow> sum_lengths P as vs len = Inr (len + length (row_bytes P as vs))"
proof (induction as arbitrary: vs len)
  case Nil
  then show ?case by simp
next
  case (Cons a as)
  then obtain v vs' where vs: "vs = v # vs'" and r: "int_row P as vs'" "P a \<longrightarrow> int_cell a v"
    by (auto simp: int_row_def list_all2_Cons1)
  show ?case using Cons.IH [OF r(1)] r(2) by (simp add: vs int_cell_length)
qed

lemma encode_selected_bytes:
  assumes "int_row P as vs" "off \<le> length buffer"
  shows "encode_selected P as vs buffer off = buf_write buffer off (row_bytes P as vs)"
  using assms
proof (induction as arbitrary: vs buffer off)
  case Nil
  then show ?case by simp
next
  case (Cons a as)
  then obtain v vs' where vs: "vs = v # vs'" and r: "int_row P as vs'" "P a \<longrightarrow> int_cell a v"
    by (auto simp: int_row_def list_all2_Cons1)
  show ?case
  proof (cases "P a")
    case True
    have "encode_selected P (a # as) vs buffer off =
        bindE (buf_write buffer off (attr_bytes a v)) (\<lambda>buffer.
          encode_selected P as vs' buffer (off + length (attr_bytes a v)))"
      using True r(2) by (simp add: vs int_cell_length int_cell_encode)
    also have "\<dots> = bindE (buf_write buffer off (attr_bytes a v)) (\<lambda>buffer.
          buf_write buffer (off + length (attr_bytes a v)) (row_bytes P as vs'))"
      by (intro bindE_cong [OF refl] Cons.IH r(1) buf_write_room)
    finally show ?thesis using True by (simp add: vs buf_write_step)
  next
    case False
    with Cons.IH [OF r(1)] Cons.prems(2) show ?thesis by (simp add: vs)
  qed
qed

lemma encode_cells_bytes:
  assumes "int_row (\<lambda>_. True) as vs" "off \<le> length buffer"
  shows "encode_cells as vs buffer off = buf_write buffer off (row_bytes (\<lambda>_. True) as vs)"
  using assms
proof (induction as arbitrary: vs buffer off)
  case Nil
  then show ?case by simp
next
  case (Cons a as)
  then obtain v vs' where vs: "vs = v # vs'" and r: "int_row (\<lambda>_. True) as vs'" "int_cell a v"
    by (auto simp: int_row_def list_all2_Cons1)
  have "encode_cells (a # as) vs buffer off =
      bindE (buf_write buffer off (attr_bytes a v)) (\<lambda>buffer.
        buf_write buffer (off + length (attr_bytes a v)) (row_bytes (\<lambda>_. True) as vs'))"
    unfolding vs encode_cells.simps int_cell_encode [OF r(2)] int_cell_length [OF r(2)] bindE_Inr
    by (intro bindE_cong [OF refl] Cons.IH r(1) buf_write_room)
  then show ?case by (simp add: vs buf_write_step)
qed

lemma decode_cells_bytes:
  assumes "int_row (\<lambda>_. True) as vs" "length vs0 = length as"
    and "buf_read buffer off (length (row_bytes (\<lambda>_. True) as vs)) = Inr (row_bytes (\<lambda>_. True) as vs)"
  shows "decode_cells as vs0 buffer off = Inr vs"
  using assms
proof (induction as arbitrary: vs vs0 off)
  case Nil
  then show ?case by (simp add: int_row_def)
next
  case (Cons a as)
  then obtain v vs' where vs: "vs = v # vs'" and r: "int_row (\<lambda>_. True) as vs'" "int_cell a v"
    by (auto simp: int_row_def list_all2_Cons1)
  from Cons.prems(2) obtain v0 vs0' where vs0: "vs0 = v0 # vs0'" "length vs0' = length as"
    by (cases vs0) auto
  have "buf_read buffer off (length (attr_bytes a v) + length (row_bytes (\<lambda>_. True) as vs')) =
      Inr (attr_bytes a v @ row_bytes (\<lambda>_. True) as vs')"
    using Cons.prems(3) by (simp add: vs)
  note rd = buf_read_append [OF this]
  have "attr_decode a buffer off v0 = Inr v"
    using r(2) rd(1) by (intro attr_decode_bytes) (simp_all add: int_cell_def)
  moreover have "decode_cells as vs0' buffer (off + length (attr_bytes a v)) = Inr vs'"
    by (rule Cons.IH [OF r(1) vs0(2) rd(2)])
  ultimately show ?case using r(2) by (simp add: vs vs0(1) int_cell_length)
qed

lemma encode_key_bytes:
  assumes "int_row attr_is_key (sc_attrs sc) tuple"
  shows "encode_key sc tuple buff = buf_write buff 0 (key_bytes sc tuple)"
proof -
  have *: "encode_selected attr_is_key (sc_attrs sc) tuple b (length (sc_name sc) + 1) =
      buf_write b (length (sc_name sc) + 1) (row_bytes attr_is_key (sc_attrs sc) tuple)"
    if "length (sc_name sc) + 1 \<le> length b" for b
    using that by (rule encode_selected_bytes [OF assms])
  have "encode_key sc tuple buff =
      bindE (buf_write buff 0 (sc_name sc)) (\<lambda>buff.
      bindE (buf_write buff (length (sc_name sc)) '':'') (\<lambda>buff.
      buf_write buff (length (sc_name sc) + 1) (row_bytes attr_is_key (sc_attrs sc) tuple)))"
    unfolding encode_key_def
    by (intro bindE_cong refl *) (simp add: buf_write_room [of _ "length (sc_name sc)" "'':''", simplified])
  also have "\<dots> = buf_write buff 0 (key_bytes sc tuple)"
    using buf_write_step [of _ "length (sc_name sc)" "'':''"]
      buf_write_step [of buff 0 "sc_name sc" "'':'' @ row_bytes attr_is_key (sc_attrs sc) tuple"]
    by (simp add: key_bytes_def get_key_prefix_def)
  finally show ?thesis .
qed

lemma key_length_bytes:
  "int_row attr_is_key (sc_attrs sc) tuple \<Longrightarrow> key_length sc tuple = Inr (length (key_bytes sc tuple))"
  by (simp add: key_length_def sum_lengths_bytes key_bytes_def get_key_prefix_def)

lemma row_bytes_inj:
  assumes "int_row P as vs" "int_row P as ws" "row_bytes P as vs = row_bytes P as ws"
  shows "list_all2 (\<lambda>a (v, w). P a \<longrightarrow> v = w) as (zip vs ws)"
  using assms
proof (induction as arbitrary: vs ws)
  case Nil
  then show ?case by (simp add: int_row_def)
next
  case (Cons a as)
  then obtain v vs' w ws' where vs: "vs = v # vs'" "ws = w # ws'"
    and r: "int_row P as vs'" "int_row P as ws'" "P a \<longrightarrow> int_cell a v \<and> int_cell a w"
    by (auto simp: int_row_def list_all2_Cons1)
  have len: "P a \<longrightarrow> length (attr_bytes a v) = length (attr_bytes a w)"
    using r(3) by (simp add: int_cell_bytes_length)
  have eq: "P a \<longrightarrow> attr_bytes a v = attr_bytes a w" "row_bytes P as vs' = row_bytes P as ws'"
    using Cons.prems(3) append_eq_append_conv [of "attr_bytes a v" "attr_bytes a w"] len
    by (cases "P a"; simp add: vs)+
  then have "P a \<longrightarrow> v = w"
    using r(3) attr_codec.bytes_determine [of a v w] by (simp add: int_cell_def)
  with Cons.IH [OF r(1,2) eq(2)] show ?case by (simp add: vs)
qed

lemma prefix_disjoint:
  assumes "n1 @ CHR '':'' # r1 = n2 @ CHR '':'' # r2" "CHR '':'' \<notin> set n1" "CHR '':'' \<notin> set n2"
  shows "n1 = n2 \<and> r1 = r2"
proof -
  have "Inr (n1, r1) = stream_until (CHR '':'') (n1 @ CHR '':'' # r1)"
    by (rule stream_until_found [OF assms(2), symmetric])
  also have "\<dots> = stream_until (CHR '':'') (n2 @ CHR '':'' # r2)" by (simp only: assms(1))
  also have "\<dots> = Inr (n2, r2)" by (rule stream_until_found [OF assms(3)])
  finally show ?thesis by simp
qed

text \<open>The fixed size of an integer column, and the sum over the selected columns.\<close>

definition int_size :: "attribute \<Rightarrow> nat" where
  "int_size a = (if attr_prop a AND PROP_NULLABLE \<noteq> 0 then 9 else 8)"

fun int_sizes :: "(attribute \<Rightarrow> bool) \<Rightarrow> attribute list \<Rightarrow> nat" where
  "int_sizes P [] = 0"
| "int_sizes P (a # as) = (if P a then int_size a else 0) + int_sizes P as"

lemma attr_default_size_int: "is_integer (attr_ty a) \<Longrightarrow> attr_default_size a = Inr (of_nat (int_size a))"
  by (simp add: is_integer_def attr_default_size_def at_default_size_def int_size_def)

lemma add_default_sizes_int:
  "list_all (\<lambda>a. P a \<longrightarrow> is_integer (attr_ty a)) as \<Longrightarrow>
   add_default_sizes P as ret = Inr (ret + of_nat (int_sizes P as))"
  by (induction as arbitrary: ret) (simp_all add: attr_default_size_int)

lemma int_sizes_le: "int_sizes P as \<le> 9 * length as"
  by (induction as) (auto simp: int_size_def)

lemma int_row_types: "int_row P as vs \<Longrightarrow> list_all (\<lambda>a. P a \<longrightarrow> is_integer (attr_ty a)) as"
  unfolding int_row_def by (induction rule: list_all2_induct) (auto simp: int_cell_def)

lemma row_bytes_int_sizes: "int_row P as vs \<Longrightarrow> length (row_bytes P as vs) \<le> int_sizes P as"
  unfolding int_row_def
  by (induction rule: list_all2_induct)
     (auto simp: int_cell_bytes_length int_size_def PROP_defs)

lemma integer_fixed: "is_integer (attr_ty a) \<Longrightarrow> attr_fixed_length a"
  by (simp add: is_integer_def attr_fixed_length_def at_fixed_length_def AT_defs)

lemma int_types_fixed:
  "list_all (\<lambda>a. attr_is_key a \<longrightarrow> is_integer (attr_ty a)) (sc_attrs sc) \<Longrightarrow> fixed_key_length sc"
  "list_all (\<lambda>a. \<not> attr_is_key a \<longrightarrow> is_integer (attr_ty a)) (sc_attrs sc) \<Longrightarrow> fixed_value_length sc"
  by (auto simp: fixed_key_length_def fixed_value_length_def list_all_iff integer_fixed)

text \<open>A table \<open>t\<close> with one integer key column, for concrete examples.\<close>

definition one_int_key :: schema where
  "one_int_key =
     Schema_new ''t'' [\<lparr>attr_name = ''id'', attr_ty = AttrType_of_string ''int'', attr_prop = PROP_KEY\<rparr>]"

lemma one_int_key_row: "int_row P (sc_attrs one_int_key) [MaybeValue_int w]"
  by (simp add: int_row_def one_int_key_def Schema_new_def int_cell_def attr_ok_def at_ok_def
      AttrType_of_string_def is_integer_def MaybeValue_int_def value_ok_def ValueImpl_int_def)

section \<open>Properties\<close>

text \<open>
  C16. The textual form of a schema is read back exactly: for a table name without a colon
  and column names without a space, \<open>deserialize\<close> after \<open>serialize\<close> restores the name
  and every column with its type, parameter and property bits, whatever the target held.
\<close>

theorem schema_text_roundtrip:
  assumes "schema_printable sc"
  shows "\<exists>sc'. sc_deserialize this (sc_serialize sc) = Inr sc' \<and> sc_name sc' = sc_name sc \<and>
    sc_attrs sc' = sc_attrs sc \<and> sc_eq sc' sc"
  using sc_deserialize_serialize [OF assms, of this]
  by (simp add: sc_eq_def list.rel_refl attr_eq_def)

theorem schema_text_roundtrip_witness:
  "\<exists>sc'. sc_deserialize Schema_default ''t:(id (0 0) 2)(nm (2 16) 1)'' = Inr sc' \<and> sc_name sc' = ''t'' \<and>
     map attr_name (sc_attrs sc') = [''id'', ''nm'']"
proof -
  let ?sc = "Schema_new ''t'' [\<lparr>attr_name = ''id'', attr_ty = AttrType_of_string ''int'', attr_prop = PROP_KEY\<rparr>,
    \<lparr>attr_name = ''nm'', attr_ty = AttrType_of_string ''string'', attr_prop = PROP_NULLABLE\<rparr>]"
  have ok: "schema_printable ?sc"
    by (simp add: schema_printable_def Schema_new_def attr_printable_def AttrType_of_string_def AT_defs)
  have "sc_serialize ?sc = ''t:(id (0 0) 2)(nm (2 16) 1)''"
    by (simp add: sc_serialize_def Schema_new_def attr_serialize_def at_serialize_def AttrType_of_string_def
        AT_defs PROP_defs show_nat.simps digit_char_def char_of_def bit_numeral_rec bit_Suc_0_iff)
  with schema_text_roundtrip [OF ok, of Schema_default] show ?thesis by (auto simp: Schema_new_def)
qed

text \<open>
  C13. For a row whose key cells are present integers, \<open>encode_key\<close> stores the table
  name, a colon and the key cells one after the other, at the front of the buffer and
  nowhere else; the room it needs is exactly what \<open>key_length\<close> reports.
\<close>

theorem encode_key_exact:
  assumes "int_row attr_is_key (sc_attrs sc) tuple"
  shows "key_length sc tuple = Inr (length (key_bytes sc tuple)) \<and>
    encode_key sc tuple buff =
      (if length (key_bytes sc tuple) \<le> length buff
       then Inr (key_bytes sc tuple @ drop (length (key_bytes sc tuple)) buff) else Inl Undefined)"
  using assms by (simp add: key_length_bytes encode_key_bytes buf_write_def)

theorem encode_key_exact_witness:
  "let sc = one_int_key in key_length sc [MaybeValue_int 5] = Inr 10 \<and>
      (\<exists>k. encode_key sc [MaybeValue_int 5] (replicate 10 (CHR 0x00)) = Inr k \<and> take 3 k = [CHR ''t'', CHR '':'', CHR 0x05])"
proof -
  have key: "key_bytes one_int_key [MaybeValue_int 5] = ''t:'' @ bytes_of_u64 5"
    by (simp add: key_bytes_def get_key_prefix_def one_int_key_def Schema_new_def attr_is_key_def PROP_defs attr_bytes_def
        value_bytes_def MaybeValue_int_def ValueImpl_int_def)
  have "take 1 (bytes_of_u64 5) = [CHR 0x05]"
    by (simp add: bytes_of_u64_def char_of_def bit_numeral_rec bit_Suc_0_iff)
  then have "take 3 (''t:'' @ bytes_of_u64 5) = [CHR ''t'', CHR '':'', CHR 0x05]" by simp
  with encode_key_exact [OF one_int_key_row, of 5 "replicate 10 (CHR 0x00)"] show ?thesis by (simp add: key Let_def)
qed

text \<open>
  C14. Encoded keys identify rows: if two rows with present integer key cells give the same
  encoded key, they belong to tables of the same name (names without colons) and, for one
  schema, agree on every key column.
\<close>

theorem encoded_keys_identify:
  assumes "int_row attr_is_key (sc_attrs sc1) t1" "int_row attr_is_key (sc_attrs sc2) t2"
    and "CHR '':'' \<notin> set (sc_name sc1)" "CHR '':'' \<notin> set (sc_name sc2)"
    and "key_length sc1 t1 = Inr n1" "key_length sc2 t2 = Inr n2"
    and "encode_key sc1 t1 (replicate n1 c) = Inr k" "encode_key sc2 t2 (replicate n2 c) = Inr k"
  shows "sc_name sc1 = sc_name sc2 \<and>
    (sc_attrs sc1 = sc_attrs sc2 \<longrightarrow> list_all2 (\<lambda>a (v, w). attr_is_key a \<longrightarrow> v = w) (sc_attrs sc1) (zip t1 t2))"
proof -
  have "key_bytes sc1 t1 = k" "key_bytes sc2 t2 = k"
    using assms by (auto simp: key_length_bytes encode_key_bytes buf_write_def)
  then have "sc_name sc1 @ CHR '':'' # row_bytes attr_is_key (sc_attrs sc1) t1 =
      sc_name sc2 @ CHR '':'' # row_bytes attr_is_key (sc_attrs sc2) t2"
    by (simp add: key_bytes_def get_key_prefix_def)
  note same = prefix_disjoint [OF this assms(3,4)]
  have "list_all2 (\<lambda>a (v, w). attr_is_key a \<longrightarrow> v = w) (sc_attrs sc1) (zip t1 t2)"
    if "sc_attrs sc1 = sc_attrs sc2"
    using assms(2) same that by (intro row_bytes_inj [OF assms(1)]) simp_all
  with same show ?thesis by blast
qed

theorem encoded_keys_identify_witness:
  "let sc = one_int_key in \<exists>k. encode_key sc [MaybeValue_int 5] (replicate 10 (CHR 0x00)) = Inr k \<and> sc_name sc = ''t''"
proof -
  have len: "key_length one_int_key [MaybeValue_int 5] = Inr 10"
    using one_int_key_row by (simp add: key_length_bytes key_bytes_def get_key_prefix_def one_int_key_def Schema_new_def attr_is_key_def
        PROP_defs attr_bytes_def value_bytes_def MaybeValue_int_def ValueImpl_int_def)
  obtain k where k: "encode_key one_int_key [MaybeValue_int 5] (replicate 10 (CHR 0x00)) = Inr k"
    using one_int_key_row len by (auto simp: key_length_bytes encode_key_bytes buf_write_def)
  have name: "CHR '':'' \<notin> set (sc_name one_int_key)" by (simp add: one_int_key_def Schema_new_def)
  from encoded_keys_identify [OF one_int_key_row one_int_key_row name name len len k k] k show ?thesis
    by (simp add: one_int_key_def Schema_new_def)
qed

text \<open>
  C19. \<open>decode\<close> inverts \<open>encode\<close> on rows of present integers, provided it is given the
  bytes after the table prefix: \<open>encode\<close> writes the prefix, \<open>decode\<close> starts at offset
  zero and does not skip it.
\<close>

theorem encode_decode_row:
  assumes "int_row (\<lambda>_. True) (sc_attrs sc) tuple" "sc_encode sc tuple buffer = Inr buffer'"
    and "length tuple0 = length tuple"
  shows "take (length (get_key_prefix sc)) buffer' = get_key_prefix sc \<and>
    sc_decode sc (drop (length (get_key_prefix sc)) buffer') tuple0 = Inr tuple"
proof -
  let ?row = "row_bytes (\<lambda>_. True) (sc_attrs sc) tuple" and ?n = "length (sc_name sc) + 1"
  have len: "length tuple = length (sc_attrs sc)"
    using assms(1) by (simp add: int_row_def list_all2_lengthD)
  from assms(2) obtain x b where "buf_write buffer 0 (sc_name sc) = Inr x"
    "buf_write x (length (sc_name sc)) '':'' = Inr b" and b': "encode_cells (sc_attrs sc) tuple b ?n = Inr buffer'"
    unfolding sc_encode_def by (elim bindE_InrE) blast
  then have b: "buf_write buffer 0 (sc_name sc @ '':'') = Inr b"
    using buf_write_step [of buffer 0 "sc_name sc" "'':''"] by simp
  have n: "?n \<le> length b" using buf_write_room [OF b] by simp
  have w: "buf_write b ?n ?row = Inr buffer'" using b' encode_cells_bytes [OF assms(1) n] by simp
  then have buf': "buffer' = take ?n b @ ?row @ drop (?n + length ?row) b"
    by (auto simp: buf_write_def split: if_splits)
  have "take ?n b = sc_name sc @ '':''" using b by (auto simp: buf_write_def split: if_splits)
  moreover have "drop ?n buffer' = ?row @ drop (?n + length ?row) b"
    using n by (simp add: buf')
  moreover have "decode_cells (sc_attrs sc) tuple0 (?row @ rest) 0 = Inr tuple" for rest
    using assms(1,3) len by (intro decode_cells_bytes) (simp_all add: buf_read_def)
  ultimately show ?thesis
    using assms(3) len n by (simp add: sc_decode_def check_tuple_size_def get_key_prefix_def buf')
qed

theorem encode_decode_row_witness:
  "let sc = one_int_key in \<exists>b. sc_encode sc [MaybeValue_int 5] (replicate 10 (CHR 0x00)) = Inr b \<and>
      sc_decode sc (drop 2 b) [MaybeValue_default] = Inr [MaybeValue_int 5]"
proof -
  obtain b where b: "sc_encode one_int_key [MaybeValue_int 5] (replicate 10 (CHR 0x00)) = Inr b"
    by (simp add: sc_encode_def one_int_key_def Schema_new_def check_tuple_size_def buf_write_def attr_encode_def mv_get_def
        MaybeValue_int_def AttrType_of_string_def at_encode_def attr_encoded_length_def at_encoded_length_def
        AT_defs PROP_defs)
  from encode_decode_row [OF one_int_key_row b, of "[MaybeValue_default]"] b show ?thesis
    by (simp add: get_key_prefix_def one_int_key_def Schema_new_def numeral_2_eq_2)
qed

text \<open>
  C29. The encoded length of a string column is eight bytes short of what is written: a row
  of one non-key string column does not fit the buffer \<open>value_length\<close> asks for.
\<close>

theorem string_value_overflows:
  "let ty = \<lparr>at_type = AT_STRING, at_param = p\<rparr>; sc = Schema_new t [\<lparr>attr_name = n, attr_ty = ty, attr_prop = PROP_NONE\<rparr>]
    in value_length sc [MaybeValue_slice s] = Inr (length s) \<and>
       encode_value sc [MaybeValue_slice s] (replicate (length s) c) = Inl Undefined"
  by (simp add: one_int_key_def Schema_new_def value_length_def encode_value_def attr_is_key_def attr_encoded_length_def PROP_defs
      mv_get_def MaybeValue_slice_def at_encoded_length_def AT_defs attr_encode_def at_encode_def buf_write_def Let_def)

text \<open>
  C20. For a row of present integers, the fixed lengths the code generator allocates hold
  the encoded row: the key needs at most \<open>get_fixed_key_length() - 1\<close> bytes, the value at
  most \<open>get_fixed_value_length()\<close>; no sum wraps around while the sizes stay below
  \<open>2^64\<close>.
\<close>

theorem fixed_lengths_hold_row:
  assumes "int_row (\<lambda>_. True) (sc_attrs sc) tuple"
    and "length (sc_name sc) + 2 + 9 * columns sc < 2 ^ 64"
  shows "\<exists>kf vf kl vl. get_fixed_key_length sc = Inr kf \<and> get_fixed_value_length sc = Inr vf \<and>
    key_length sc tuple = Inr kl \<and> value_length sc tuple = Inr vl \<and> kl + 1 \<le> unat kf \<and> vl \<le> unat vf"
proof -
  let ?as = "sc_attrs sc" and ?nk = "\<lambda>a. \<not> attr_is_key a"
  have k: "int_row attr_is_key ?as tuple" and v: "int_row ?nk ?as tuple"
    using assms(1) by (auto simp: int_row_def intro: list_all2_mono)
  note kt = int_row_types [OF k] and vt = int_row_types [OF v]
  have "get_fixed_key_length sc = Inr (of_nat (length (sc_name sc) + 2 + int_sizes attr_is_key ?as))"
    using kt by (simp add: get_fixed_key_length_def int_types_fixed add_default_sizes_int)
  moreover have "get_fixed_value_length sc = Inr (of_nat (int_sizes ?nk ?as))"
    using vt by (simp add: get_fixed_value_length_def int_types_fixed add_default_sizes_int)
  moreover have "unat (of_nat (length (sc_name sc) + 2 + int_sizes attr_is_key ?as) :: 64 word) =
      length (sc_name sc) + 2 + int_sizes attr_is_key ?as"
    and "unat (of_nat (int_sizes ?nk ?as) :: 64 word) = int_sizes ?nk ?as"
    using assms(2) int_sizes_le [of attr_is_key ?as] int_sizes_le [of ?nk ?as]
    by (intro unat_of_nat_u64; simp add: columns_def)+
  ultimately show ?thesis
    using row_bytes_int_sizes [OF k] row_bytes_int_sizes [OF v]
    by (simp add: key_length_bytes [OF k] key_bytes_def get_key_prefix_def value_length_def sum_lengths_bytes [OF v])
qed

theorem fixed_lengths_hold_row_witness:
  "let sc = one_int_key in \<exists>kf kl. get_fixed_key_length sc = Inr kf \<and> key_length sc [MaybeValue_int 5] = Inr kl \<and> kl + 1 \<le> unat kf"
proof -
  have "length (sc_name one_int_key) + 2 + 9 * columns one_int_key < 2 ^ 64"
    by (simp add: one_int_key_def Schema_new_def columns_def)
  from fixed_lengths_hold_row [OF one_int_key_row this] show ?thesis by (simp only: Let_def) blast
qed

end
