(* ===== verification/Reir_Metadata.thy ===== *)
theory Reir_Metadata
  imports Reir_Schema
begin

text \<open>
  The table catalogue of \<^verbatim>\<open>src/reir/db/metadata.cpp\<close>: an in-memory map of schemas and
  their textual forms in LevelDB. LevelDB is not part of the repository: its \<open>Put\<close> and
  \<open>Get\<close> are the arguments \<open>put\<close> and \<open>get\<close>, and the properties name what they rely
  on (a key reads back what was last put under it, other keys are unaffected). Opening the
  database and printing the tables are not modelled.
\<close>

section \<open>MetaData\<close>

record 'db metadata =
  md_tables :: "string \<rightharpoonup> schema"
  md_db :: 'db

definition table_key :: "string \<Rightarrow> string" where
  "table_key name = ''table:global_schema:'' @ name"

definition create_table ::
    "('db \<Rightarrow> string \<Rightarrow> string \<Rightarrow> 'db) \<Rightarrow> 'db metadata \<Rightarrow> string \<Rightarrow> attribute list \<Rightarrow> 'db metadata" where
  "create_table put md name attr =
     (let key = table_key name; new_schema = Schema_new name attr
      in md\<lparr>md_tables := (case md_tables md key of None \<Rightarrow> (md_tables md)(key \<mapsto> new_schema)
                                              | Some _ \<Rightarrow> md_tables md),
            md_db := put (md_db md) key (sc_serialize new_schema)\<rparr>)"

definition drop_table :: "'db metadata \<Rightarrow> string \<Rightarrow> 'db metadata" where
  "drop_table md name = md"

definition get_schema ::
    "('db \<Rightarrow> string \<Rightarrow> string option) \<Rightarrow> 'db metadata \<Rightarrow> string \<Rightarrow> schema res" where
  "get_schema get md name =
     (case get (md_db md) (table_key name) of
        Some value \<Rightarrow> sc_deserialize Schema_default value
      | None \<Rightarrow> Inl (RuntimeError (''table '' @ name @ '' not found'')))"

section \<open>Specification\<close>

text \<open>
  The catalogue as a client sees it: a map from table names to columns, and the calls that
  change it. A store keeps its promise when it behaves like such a map.
\<close>

datatype catalog_call = Create string "attribute list" | Drop string

fun run_call ::
    "('db \<Rightarrow> string \<Rightarrow> string \<Rightarrow> 'db) \<Rightarrow> 'db metadata \<Rightarrow> catalog_call \<Rightarrow> 'db metadata" where
  "run_call put md (Create name attr) = create_table put md name attr"
| "run_call put md (Drop name) = drop_table md name"

fun catalog_step :: "(string \<rightharpoonup> attribute list) \<Rightarrow> catalog_call \<Rightarrow> (string \<rightharpoonup> attribute list)" where
  "catalog_step cat (Create name attr) = cat(name \<mapsto> attr)"
| "catalog_step cat (Drop name) = cat"

fun call_printable :: "catalog_call \<Rightarrow> bool" where
  "call_printable (Create name attr) = schema_printable (Schema_new name attr)"
| "call_printable (Drop name) = True"

definition catalog_rel ::
    "('db \<Rightarrow> string \<Rightarrow> string option) \<Rightarrow> 'db metadata \<Rightarrow> (string \<rightharpoonup> attribute list) \<Rightarrow> bool" where
  "catalog_rel get md cat \<longleftrightarrow>
     (\<forall>name. get_schema get md name =
        (case cat name of
           None \<Rightarrow> Inl (RuntimeError (''table '' @ name @ '' not found''))
         | Some attr \<Rightarrow> Inr (Schema_new name attr)))"

section \<open>Facts\<close>

lemma table_key_inj [simp]: "table_key a = table_key b \<longleftrightarrow> a = b"
  by (simp add: table_key_def)

lemma create_table_db: "md_db (create_table put md name attr) = put (md_db md) (table_key name) (sc_serialize (Schema_new name attr))"
  by (simp add: create_table_def Let_def)

lemma create_table_rel:
  assumes put_same: "\<And>db k v. get (put db k v) k = Some v"
    and put_other: "\<And>db k v k'. k' \<noteq> k \<Longrightarrow> get (put db k v) k' = get db k'"
    and "catalog_rel get md cat" "schema_printable (Schema_new name attr)"
  shows "catalog_rel get (create_table put md name attr) (cat(name \<mapsto> attr))"
proof -
  have "sc_deserialize Schema_default (sc_serialize (Schema_new name attr)) = Inr (Schema_new name attr)"
    using sc_deserialize_serialize [OF assms(4)] by (simp add: Schema_new_def Schema_default_def)
  then have "get_schema get (create_table put md name attr) name = Inr (Schema_new name attr)"
    by (simp add: get_schema_def create_table_db put_same)
  moreover have "get_schema get (create_table put md name attr) n = get_schema get md n" if "n \<noteq> name" for n
    using that by (simp add: get_schema_def create_table_db put_other)
  ultimately show ?thesis using assms(3) by (simp add: catalog_rel_def)
qed

lemma run_call_rel:
  assumes put_same: "\<And>db k v. get (put db k v) k = Some v"
    and put_other: "\<And>db k v k'. k' \<noteq> k \<Longrightarrow> get (put db k v) k' = get db k'"
    and "catalog_rel get md cat" "call_printable c"
  shows "catalog_rel get (run_call put md c) (catalog_step cat c)"
  using create_table_rel [OF put_same put_other assms(3)] assms(3,4) by (cases c) (simp_all add: drop_table_def)

lemma run_calls_rel:
  assumes put_same: "\<And>db k v. get (put db k v) k = Some v"
    and put_other: "\<And>db k v k'. k' \<noteq> k \<Longrightarrow> get (put db k v) k' = get db k'"
    and "catalog_rel get md cat" "list_all call_printable cs"
  shows "catalog_rel get (foldl (run_call put) md cs) (foldl catalog_step cat cs)"
  using assms(3,4)
proof (induction cs arbitrary: md cat)
  case (Cons c cs)
  then have "catalog_rel get (run_call put md c) (catalog_step cat c)"
    by (intro run_call_rel put_same put_other) simp_all
  with Cons show ?case by simp
qed simp

section \<open>Properties\<close>



text \<open>
  C30. Creating a table twice leaves the two copies of the catalogue apart: \<open>tables_\<close> keeps
  the first definition (\<open>unordered_map::insert\<close> does not overwrite), the store has the
  second.
\<close>

theorem create_twice_diverges:
  assumes "\<And>db k v. get (put db k v) k = Some v" "md_tables md (table_key name) = None"
    and "schema_printable (Schema_new name attr2)"
  shows "let md' = create_table put (create_table put md name attr1) name attr2
    in md_tables md' (table_key name) = Some (Schema_new name attr1) \<and>
       get_schema get md' name = Inr (Schema_new name attr2)"
proof -
  have "sc_deserialize Schema_default (sc_serialize (Schema_new name attr2)) = Inr (Schema_new name attr2)"
    using sc_deserialize_serialize [OF assms(3)] by (simp add: Schema_new_def Schema_default_def)
  then show ?thesis
    using assms(2) by (simp add: get_schema_def create_table_db assms(1)) (simp add: create_table_def Let_def)
qed

theorem create_twice_diverges_witness:
  "let md' = create_table (\<lambda>db k v. db(k \<mapsto> v)) (create_table (\<lambda>db k v. db(k \<mapsto> v))
       \<lparr>md_tables = Map.empty, md_db = Map.empty\<rparr> ''t'' []) ''t'' [Attribute_default]
   in md_tables md' (table_key ''t'') = Some (Schema_new ''t'' []) \<and>
      get_schema (\<lambda>db. db) md' ''t'' = Inr (Schema_new ''t'' [Attribute_default])"
  by (rule create_twice_diverges)
     (simp_all add: schema_printable_def Schema_new_def attr_printable_def Attribute_default_def
       AttrType_of_string_def AT_defs)

end
