(* ===== verification/Reir_Context.thy ===== *)
theory Reir_Context
  imports Reir_Ast Reir_Schema
begin

text \<open>
  The compiler's symbol tables and loop stack, \<^verbatim>\<open>src/reir/exec/compiler_context.hpp\<close> and
  \<^verbatim>\<open>compiler_context.cpp\<close>. A table of pointers is a \<open>pmap\<close>; a basic block is named
  by a number; the linked list of \<open>LoopContext\<close> objects is a list, innermost loop first;
  emitted rows are kept as byte strings. The members that belong to LLVM (module, builder,
  value tables) are not part of the state here. \<open>cx_fresh\<close> counts the literal nodes
  analysed so far: it stands for the address of the next one, which names its type.
\<close>

record loop_context =
  lc_begin :: nat
  lc_body :: nat
  lc_every :: nat
  lc_finish :: nat

record cctx =
  cx_local_schema :: "(string, schema) pmap"
  cx_analyze_type :: "(string, ty) pmap"
  cx_variable_type :: "(string, ty) pmap"
  cx_outputs :: "string list"
  cx_loop :: "loop_context list"
  cx_in_txn :: bool
  cx_fresh :: nat

definition CompilerContext_new :: cctx where
  "CompilerContext_new =
     \<lparr>cx_local_schema = Map.empty,
      cx_analyze_type =
        [''integer'' \<mapsto> Some (PrimaryType TY_INTEGER),
         ''string'' \<mapsto> Some (PrimaryType TY_STRING),
         ''date'' \<mapsto> Some (PrimaryType TY_DATE),
         ''double'' \<mapsto> Some (PrimaryType TY_DOUBLE),
         ''bool'' \<mapsto> Some (PrimaryType TY_BOOL)],
      cx_variable_type = Map.empty, cx_outputs = [], cx_loop = [], cx_in_txn = False, cx_fresh = 0\<rparr>"

definition enter_loop :: "nat \<Rightarrow> nat \<Rightarrow> nat \<Rightarrow> nat \<Rightarrow> cctx \<Rightarrow> cctx" where
  "enter_loop b bo e f c =
     c\<lparr>cx_loop := \<lparr>lc_begin = b, lc_body = bo, lc_every = e, lc_finish = f\<rparr> # cx_loop c\<rparr>"

definition exit_loop_ctx :: "cctx \<Rightarrow> cctx res" where
  "exit_loop_ctx c = (case cx_loop c of [] \<Rightarrow> Inl Undefined | _ # out \<Rightarrow> Inr (c\<lparr>cx_loop := out\<rparr>))"

text \<open>\<open>RawRow(buff, length)\<close> copies \<open>length\<close> bytes; \<open>get_output\<close> keeps the copy.\<close>

definition get_output :: "string \<Rightarrow> nat \<Rightarrow> cctx \<Rightarrow> cctx res" where
  "get_output buff len c =
     bindE (buf_read buff 0 len) (\<lambda>row. Inr (c\<lparr>cx_outputs := cx_outputs c @ [row]\<rparr>))"

fun show_words :: "bool \<Rightarrow> nat \<Rightarrow> string \<Rightarrow> string" where
  "show_words first 0 data = []"
| "show_words first (Suc n) data =
     (if first then [] else '', '') @ show_nat (unat (u64_of_bytes (take 8 data))) @
     show_words False n (drop 8 data)"

text \<open>\<open>operator<<\<close> of \<open>RawRow\<close>: whole 64-bit words, unsigned; a rest is not printed.\<close>

definition RawRow_show :: "string \<Rightarrow> string" where
  "RawRow_show row = ''['' @ show_words True (length row div 8) row @ '']''"

text \<open>\<open>analyze_type_table_[name]\<close> on the context.\<close>

definition type_index :: "string \<Rightarrow> cctx \<Rightarrow> ty option \<times> cctx" where
  "type_index name c =
     (case pmap_index (cx_analyze_type c) name of (p, m) \<Rightarrow> (p, c\<lparr>cx_analyze_type := m\<rparr>))"

definition set_type :: "string \<Rightarrow> ty option \<Rightarrow> cctx \<Rightarrow> cctx" where
  "set_type name t c = c\<lparr>cx_analyze_type := (cx_analyze_type c)(name \<mapsto> t)\<rparr>"

definition set_variable :: "string \<Rightarrow> ty option \<Rightarrow> cctx \<Rightarrow> cctx" where
  "set_variable name t c = c\<lparr>cx_variable_type := (cx_variable_type c)(name \<mapsto> t)\<rparr>"

section \<open>Facts\<close>

lemma enter_exit_loop: "exit_loop_ctx (enter_loop b bo e f c) = Inr c"
  by (simp add: exit_loop_ctx_def enter_loop_def)

end
