(* ===== verification/Reir_Analyze.thy ===== *)
theory Reir_Analyze
  imports Reir_Context
begin

text \<open>
  Semantic analysis: \<open>TupleType::analyze\<close> and \<open>operate\<close> of
  \<^verbatim>\<open>src/reir/exec/ast_node.cpp\<close>, and the \<open>analyze\<close> methods of the expression and
  statement classes. Analysis fills the \<open>type_\<close> pointers of the tree and the type tables
  of the context; both are returned. A type object is not changed any more once it is in a
  table, so types are values here. \<open>addr\<close> is the printed address of a literal node, which
  the code uses as part of a table key.
\<close>

section \<open>Types\<close>

text \<open>One entry of \<open>type_names_\<close>.\<close>

definition resolve_type :: "string \<Rightarrow> cctx \<Rightarrow> (ty option \<times> cctx) res" where
  "resolve_type type_name c =
     (if type_name = ''int'' then Inr (type_index ''integer'' c)
      else if type_name = ''double'' then Inr (type_index ''double'' c)
      else if type_name = ''string'' then Inr (type_index ''string'' c)
      else if type_name = ''date'' then Inr (type_index ''integer'' c)
      else case cx_analyze_type c type_name of
             None \<Rightarrow> Inl (RuntimeError (''undefined type '' @ type_name))
           | Some t \<Rightarrow> Inr (t, c))"

fun resolve_types :: "string list \<Rightarrow> cctx \<Rightarrow> (ty option list \<times> cctx) res" where
  "resolve_types [] c = Inr ([], c)"
| "resolve_types (n # ns) c =
     bindE (resolve_type n c) (\<lambda>(t, c).
     bindE (resolve_types ns c) (\<lambda>(ts, c). Inr (t # ts, c)))"

definition TupleType_analyze :: "ty \<Rightarrow> cctx \<Rightarrow> (ty \<times> cctx) res" where
  "TupleType_analyze t c =
     (case t of
        TupleType i names type_names props params types \<Rightarrow>
          bindE (resolve_types type_names c) (\<lambda>(ts, c).
          Inr (TupleType i names type_names props params (types @ ts), c))
      | _ \<Rightarrow> Inl Undefined)"

definition not_implemented :: "ty \<Rightarrow> ty \<Rightarrow> operators \<Rightarrow> 'a res" where
  "not_implemented lhs rhs op =
     bindE (ty_dump lhs) (\<lambda>l.
     bindE (op_to_string op) (\<lambda>o'.
     bindE (ty_dump rhs) (\<lambda>r.
     Inl (RuntimeError (''not implemented operator for '' @ l @ '' '' @ o' @ '' '' @ r)))))"

definition operate :: "ty \<Rightarrow> ty \<Rightarrow> operators \<Rightarrow> cctx \<Rightarrow> (ty option \<times> cctx) res" where
  "operate lhs rhs op c =
     (case ty_id lhs of
        TY_ARRAY \<Rightarrow> Inl (RuntimeError ''array with operator not supported yet'')
      | TY_TUPLE \<Rightarrow> Inl (RuntimeError ''tuple operator not supported yet'')
      | TY_DATE \<Rightarrow> Inl (RuntimeError ''operation with date is not supported'')
      | TY_STRING \<Rightarrow>
          if op = OP_PLUS
          then if ty_id rhs = ty_id lhs then Inr (type_index ''string'' c)
               else Inl (RuntimeError ''you can't operate string and different types'')
          else if op \<in> {OP_EQUAL, OP_LESSTHAN, OP_LESSEQUAL, OP_MORETHAN, OP_MOREEQUAL, OP_NOTEQUAL}
          then if ty_id rhs = ty_id lhs then Inr (type_index ''bool'' c)
               else Inl (RuntimeError ''you can't operate with different types'')
          else Inl (RuntimeError ''you cannot string with operator'')
      | TY_BOOL \<Rightarrow>
          if op \<in> {OP_CONDITIONAL_AND, OP_CONDITIONAL_OR}
          then if ty_id rhs \<in> {TY_INTEGER, TY_BOOL} then Inr (type_index ''bool'' c)
               else Inl (RuntimeError ''you can't || or && with other types than int or bool'')
          else Inl (RuntimeError ''only || and && operations are allowed for bool'')
      | t \<Rightarrow>
          if t = TY_INTEGER \<or> t = TY_DOUBLE
          then if op \<in> {OP_PLUS, OP_MINUS, OP_MULTIPLE, OP_DIVISION, OP_MODULO}
               then if ty_id rhs = ty_id lhs then Inr (Some lhs, c)
                    else Inl (RuntimeError ''you can't operate with different types'')
               else if op \<in> {OP_EQUAL, OP_LESSTHAN, OP_LESSEQUAL, OP_MORETHAN, OP_MOREEQUAL, OP_NOTEQUAL}
               then if ty_id rhs = ty_id lhs then Inr (type_index ''bool'' c)
                    else Inl (RuntimeError ''you can't operate with different types'')
               else if op = OP_NONE then Inl (RuntimeError ''invalid operator'')
               else if ty_id lhs = TY_DOUBLE \<or> ty_id rhs = TY_DOUBLE
               then Inl (RuntimeError ''you can't || or && with double'')
               else if ty_id rhs \<in> {TY_INTEGER, TY_BOOL} then Inr (type_index ''bool'' c)
               else Inl (RuntimeError ''you can't || or && with other types than int or bool'')
          else not_implemented lhs rhs op)"

section \<open>Expressions\<close>

definition PrimaryExpression_analyze :: "ty option \<Rightarrow> maybe_value \<Rightarrow> cctx \<Rightarrow> (expr \<times> cctx) res" where
  "PrimaryExpression_analyze t v c =
     (if mv_exists v
      then if is_int (mv_value v)
           then (case type_index ''integer'' c of (u, c) \<Rightarrow> Inr (PrimaryExpression u v, c))
           else if is_varchar (mv_value v)
           then (case type_index ''string'' c of (u, c) \<Rightarrow> Inr (PrimaryExpression u v, c))
           else if is_float (mv_value v)
           then (case type_index ''double'' c of (u, c) \<Rightarrow> Inr (PrimaryExpression u v, c))
           else Inl (RuntimeError ''unknown primary type'')
      else Inr (PrimaryExpression t v, c))"

definition VariableReference_analyze :: "string \<Rightarrow> cctx \<Rightarrow> (expr \<times> cctx) res" where
  "VariableReference_analyze name c =
     (case cx_variable_type c name of
        None \<Rightarrow> Inl (RuntimeError (''undefined variable '' @ name @ '' referenced''))
      | Some t \<Rightarrow> Inr (VariableReference t name, c))"

text \<open>The search of \<open>MemberReference::analyze\<close> through the member names.\<close>

fun find_member :: "string \<Rightarrow> string list \<Rightarrow> nat \<Rightarrow> nat option" where
  "find_member name [] i = None"
| "find_member name (n # ns) i = (if n = name then Some i else find_member name ns (Suc i))"

definition MemberReference_analyze :: "expr \<Rightarrow> string \<Rightarrow> cctx \<Rightarrow> (expr \<times> cctx) res" where
  "MemberReference_analyze parent name c =
     (case e_type parent of
        Some (TupleType i names tns props params types) \<Rightarrow>
          (case find_member name names 0 of
             Some k \<Rightarrow>
               if k < length types
               then Inr (MemberReference (types ! k) parent name (Some (of_nat k)), c)
               else Inl Undefined
           | None \<Rightarrow>
               bindE (expr_dump parent) (\<lambda>s.
               bindE (ty_dump (TupleType i names tns props params types)) (\<lambda>t.
               Inl (RuntimeError (''not found member named '' @ name @ '' in '' @ s @ '' '' @ t)))))
      | _ \<Rightarrow> Inl (RuntimeError ''type must be tuple''))"

text \<open>The end of \<open>analyze\<close> of a row and of an array, after their elements.\<close>

definition RowLiteral_typed :: "(nat \<Rightarrow> string) \<Rightarrow> expr list \<Rightarrow> cctx \<Rightarrow> (expr \<times> cctx) res" where
  "RowLiteral_typed addr es c =
     (let t = Some (TupleType_anonymous (map e_type es)); n = cx_fresh c
      in Inr (RowLiteral t es, set_type (''__TupleLiteral:'' @ addr n) t (c\<lparr>cx_fresh := Suc n\<rparr>)))"

definition ArrayLiteral_typed :: "(nat \<Rightarrow> string) \<Rightarrow> expr \<Rightarrow> expr list \<Rightarrow> cctx \<Rightarrow> (expr \<times> cctx) res" where
  "ArrayLiteral_typed addr e rest c =
     (case e_type e of
        None \<Rightarrow> Inl Undefined
      | Some u \<Rightarrow>
          let t = Some (ArrayType (ty_id u)); n = cx_fresh c
          in Inr (ArrayLiteral t (e # rest),
               set_type (''__ArrayLiteral:'' @ addr n) t (c\<lparr>cx_fresh := Suc n\<rparr>)))"

declare RowLiteral_typed_def [simp] ArrayLiteral_typed_def [simp]

fun expr_analyze :: "(nat \<Rightarrow> string) \<Rightarrow> expr \<Rightarrow> cctx \<Rightarrow> (expr \<times> cctx) res"
and exprs_analyze :: "(nat \<Rightarrow> string) \<Rightarrow> bool \<Rightarrow> expr list \<Rightarrow> cctx \<Rightarrow> (expr list \<times> cctx) res" where
  "expr_analyze addr (PrimaryExpression t v) c = PrimaryExpression_analyze t v c"
| "expr_analyze addr (PrimaryNested t e) c =
     bindE (expr_analyze addr e c) (\<lambda>(e, c).
     Inl (RuntimeError ''cannot analyze primary expression type''))"
| "expr_analyze addr (BinaryExpression t op l r) c =
     bindE (expr_analyze addr l c) (\<lambda>(l, c).
     bindE (expr_analyze addr r c) (\<lambda>(r, c).
     case (e_type l, e_type r) of
       (Some lt, Some rt) \<Rightarrow> bindE (operate lt rt op c) (\<lambda>(t, c). Inr (BinaryExpression t op l r, c))
     | _ \<Rightarrow> Inl Undefined))"
| "expr_analyze addr (PointerOf t e) c = Inr (PointerOf t e, c)"
| "expr_analyze addr (RowLiteral t es) c =
     bindE (exprs_analyze addr True es c) (\<lambda>(es, c). RowLiteral_typed addr es c)"
| "expr_analyze addr (ArrayLiteral t es) c =
     (case es of
        [] \<Rightarrow> Inl (RuntimeError (''empty array literal's type cant be resolved'' @ [CHR 0x0A]))
      | e # rest \<Rightarrow>
          bindE (expr_analyze addr e c) (\<lambda>(e, c). ArrayLiteral_typed addr e rest c))"
| "expr_analyze addr (VariableReference t n) c = VariableReference_analyze n c"
| "expr_analyze addr (FunctionCall t p as) c =
     (case type_index ''integer'' c of (t, c) \<Rightarrow>
        bindE (exprs_analyze addr False as c) (\<lambda>(as, c). Inr (FunctionCall t p as, c)))"
| "expr_analyze addr (ArrayReference t p i) c =
     (case p of
        None \<Rightarrow> Inl Undefined
      | Some p \<Rightarrow>
          bindE (expr_analyze addr p c) (\<lambda>(p, c).
          bindE (expr_analyze addr i c) (\<lambda>(i, c).
          case e_type p of
            Some (ArrayType a) \<Rightarrow> Inr (ArrayReference (Some (ArrayType a)) (Some p) i, c)
          | _ \<Rightarrow> Inl (RuntimeError ''array reference must detect array''))))"
| "expr_analyze addr (MemberReference t p n off) c =
     bindE (expr_analyze addr p c) (\<lambda>(p, c). MemberReference_analyze p n c)"
| "expr_analyze addr (Assign t a v) c =
     bindE (expr_analyze addr a c) (\<lambda>(a, c).
     bindE (expr_analyze addr v c) (\<lambda>(v, c).
     Inr (Assign (e_type v) a v, c)))"
| "exprs_analyze addr need [] c = Inr ([], c)"
| "exprs_analyze addr need (e # es) c =
     bindE (expr_analyze addr e c) (\<lambda>(e, c).
     bindE (guardE (need \<longrightarrow> e_type e \<noteq> None) AssertFailed) (\<lambda>_.
     bindE (exprs_analyze addr need es c) (\<lambda>(es, c). Inr (e # es, c))))"

section \<open>Statements\<close>

definition Define_analyze :: "ty option \<Rightarrow> string \<Rightarrow> cctx \<Rightarrow> (stmt \<times> cctx) res" where
  "Define_analyze schema name c =
     (case schema of
        None \<Rightarrow> Inl Undefined
      | Some t \<Rightarrow>
          bindE (TupleType_analyze t c) (\<lambda>(t, c). Inr (Define (Some t) name, set_type name (Some t) c)))"

text \<open>
  C++11 leaves open whether the table slot or \<open>analyze\<close> comes first; the table slot last is
  what is modelled. The two differ only for a tuple with a member of its own name, which is an
  undefined type here and a null type in the other order.
\<close>

definition DefineTuple_analyze :: "string \<Rightarrow> ty \<Rightarrow> cctx \<Rightarrow> (stmt \<times> cctx) res" where
  "DefineTuple_analyze name t c =
     bindE (TupleType_analyze t c) (\<lambda>(t, c). Inr (DefineTuple name t, set_type name (Some t) c))"

text \<open>\<open>Let::analyze\<close> after its expression.\<close>

definition Let_analyze :: "string \<Rightarrow> ty option \<Rightarrow> expr \<Rightarrow> cctx \<Rightarrow> (stmt \<times> cctx) res" where
  "Let_analyze name ty e c =
     (case e of
        RowLiteral rt es \<Rightarrow>
          (case ty of
             None \<Rightarrow> Inr (Let name rt e, set_variable name rt c)
           | Some t \<Rightarrow>
               bindE (TupleType_analyze t c) (\<lambda>(t, c).
               Inr (Let name (Some t) e, set_variable name (Some t) (set_type name (Some t) c))))
      | ArrayLiteral at es \<Rightarrow>
          (case es of
             x # _ \<Rightarrow>
               (case e_type x of
                  None \<Rightarrow> Inl Undefined
                | Some u \<Rightarrow>
                    let t = Some (ArrayType (ty_id u))
                    in Inr (Let name at e, set_variable name t (set_type name t c)))
           | [] \<Rightarrow> Inl Undefined)
      | _ \<Rightarrow>
          (case ty of
             None \<Rightarrow> Inr (Let name (e_type e) e, set_variable name (e_type e) c)
           | Some _ \<Rightarrow> Inl (RuntimeError (''unknown type variable of '' @ name))))"

definition Scan_enter :: "string \<Rightarrow> string \<Rightarrow> cctx \<Rightarrow> cctx" where
  "Scan_enter table row c =
     (let c = c\<lparr>cx_local_schema := snd (pmap_index (cx_local_schema c) table)\<rparr>
      in case type_index table c of (t, c) \<Rightarrow> set_variable row t c)"

definition opt_analyze ::
    "(expr \<Rightarrow> cctx \<Rightarrow> (expr \<times> cctx) res) \<Rightarrow> expr slot \<Rightarrow> cctx \<Rightarrow> (expr slot \<times> cctx) res" where
  "opt_analyze an x c =
     (case x of
        Uninit \<Rightarrow> Inl Undefined
      | Null \<Rightarrow> Inr (Null, c)
      | Ref e \<Rightarrow> bindE (an e c) (\<lambda>(e, c). Inr (Ref e, c)))"

fun stmt_analyze :: "(nat \<Rightarrow> string) \<Rightarrow> stmt \<Rightarrow> cctx \<Rightarrow> (stmt \<times> cctx) res"
and block_analyze :: "(nat \<Rightarrow> string) \<Rightarrow> stmt list \<Rightarrow> cctx \<Rightarrow> (stmt list \<times> cctx) res" where
  "stmt_analyze addr (Block ss) c = bindE (block_analyze addr ss c) (\<lambda>(ss, c). Inr (Block ss, c))"
| "stmt_analyze addr (Transaction isolation ss) c =
     bindE (block_analyze addr ss c) (\<lambda>(ss, c). Inr (Transaction isolation ss, c))"
| "stmt_analyze addr (Define schema name) c = Define_analyze schema name c"
| "stmt_analyze addr (For init cond every blk) c =
     bindE (case init of
              Uninit \<Rightarrow> Inl Undefined
            | Null \<Rightarrow> Inr (Null, c)
            | Ref i \<Rightarrow> bindE (stmt_analyze addr i c) (\<lambda>(i, c). Inr (Ref i, c))) (\<lambda>(init, c).
     bindE (opt_analyze (expr_analyze addr) cond c) (\<lambda>(cond, c).
     bindE (opt_analyze (expr_analyze addr) every c) (\<lambda>(every, c).
     bindE (block_analyze addr blk c) (\<lambda>(blk, c).
     Inr (For init cond every blk, c)))))"
| "stmt_analyze addr (Jump j) c = Inr (Jump j, c)"
| "stmt_analyze addr (Emit v) c = bindE (expr_analyze addr v c) (\<lambda>(v, c). Inr (Emit v, c))"
| "stmt_analyze addr (Insert table v) c =
     bindE (expr_analyze addr v c) (\<lambda>(v, c). Inr (Insert table v, c))"
| "stmt_analyze addr (Scan table row blk) c =
     bindE (block_analyze addr blk (Scan_enter table row c)) (\<lambda>(blk, c). Inr (Scan table row blk, c))"
| "stmt_analyze addr (Let name ty e) c =
     bindE (expr_analyze addr e c) (\<lambda>(e, c). Let_analyze name ty e c)"
| "stmt_analyze addr (DefineTuple name t) c = DefineTuple_analyze name t c"
| "stmt_analyze addr (If cond t f) c =
     bindE (expr_analyze addr cond c) (\<lambda>(cond, c).
     bindE (block_analyze addr t c) (\<lambda>(t, c).
     bindE (case f of
              None \<Rightarrow> Inr (None, c)
            | Some f \<Rightarrow> bindE (block_analyze addr f c) (\<lambda>(f, c). Inr (Some f, c))) (\<lambda>(f, c).
     Inr (If cond t f, c))))"
| "stmt_analyze addr (ExprStatement v) c =
     bindE (expr_analyze addr v c) (\<lambda>(v, c). Inr (ExprStatement v, c))"
| "block_analyze addr [] c = Inr ([], c)"
| "block_analyze addr (s # ss) c =
     bindE (stmt_analyze addr s c) (\<lambda>(s, c).
     bindE (block_analyze addr ss c) (\<lambda>(ss, c). Inr (s # ss, c)))"

end
