(* ===== verification/Reir_Typing.thy ===== *)
theory Reir_Typing
  imports Reir_Analyze
begin

text \<open>
  What semantic analysis guarantees. The typing rules are stated without the compiler's
  tables (\<open>op_result\<close>, \<open>typed_ok\<close>); analysis is proved to implement them, to keep the
  program it annotates, and the two places where it does not check are stated as they are.
\<close>

section \<open>Typing rules\<close>

text \<open>
  The rules analysis implements, stated without tables: the result type of an operator, and
  the consistency of an annotated tree.
\<close>

definition builtins :: "(string \<times> ty) list" where
  "builtins =
     [(''integer'', PrimaryType TY_INTEGER), (''string'', PrimaryType TY_STRING),
      (''double'', PrimaryType TY_DOUBLE), (''bool'', PrimaryType TY_BOOL)]"

definition builtin_types :: "cctx \<Rightarrow> bool" where
  "builtin_types c \<longleftrightarrow> list_all (\<lambda>(n, t). cx_analyze_type c n = Some (Some t)) builtins"

definition arithmetic :: "operators set" where
  "arithmetic = {OP_PLUS, OP_MINUS, OP_MULTIPLE, OP_DIVISION, OP_MODULO}"

definition comparison :: "operators set" where
  "comparison = {OP_EQUAL, OP_LESSTHAN, OP_LESSEQUAL, OP_MORETHAN, OP_MOREEQUAL, OP_NOTEQUAL}"

definition conditional :: "operators set" where
  "conditional = {OP_CONDITIONAL_AND, OP_CONDITIONAL_OR}"

definition op_result :: "ty \<Rightarrow> ty \<Rightarrow> operators \<Rightarrow> ty option" where
  "op_result lhs rhs op =
     (let l = ty_id lhs; r = ty_id rhs in
      if op \<in> arithmetic \<and> l \<in> {TY_INTEGER, TY_DOUBLE} \<and> r = l then Some lhs
      else if op = OP_PLUS \<and> l = TY_STRING \<and> r = l then Some (PrimaryType TY_STRING)
      else if op \<in> comparison \<and> l \<in> {TY_INTEGER, TY_DOUBLE, TY_STRING} \<and> r = l then Some (PrimaryType TY_BOOL)
      else if op \<in> conditional \<and> l \<in> {TY_INTEGER, TY_BOOL} \<and> r \<in> {TY_INTEGER, TY_BOOL}
      then Some (PrimaryType TY_BOOL)
      else None)"

definition value_ty :: "value_impl \<Rightarrow> ty option" where
  "value_ty v =
     (case vi_type v of
        VT_INT \<Rightarrow> Some (PrimaryType TY_INTEGER)
      | VT_VARCHAR \<Rightarrow> Some (PrimaryType TY_STRING)
      | VT_FLOAT \<Rightarrow> Some (PrimaryType TY_DOUBLE)
      | VT_UNKNWON \<Rightarrow> None)"

definition member_ok :: "ty option \<Rightarrow> string \<Rightarrow> 64 word option \<Rightarrow> ty option \<Rightarrow> bool" where
  "member_ok pt n off t \<longleftrightarrow>
     (case pt of
        Some (TupleType _ names _ _ _ types) \<Rightarrow>
          (\<exists>k < length names. off = Some (of_nat k) \<and> names ! k = n \<and> n \<notin> set (take k names) \<and>
             k < length types \<and> t = types ! k)
      | _ \<Rightarrow> False)"

fun typed_ok :: "expr \<Rightarrow> bool" where
  "typed_ok (PrimaryExpression t v) \<longleftrightarrow> (mv_exists v \<longrightarrow> t = value_ty (mv_value v) \<and> t \<noteq> None)"
| "typed_ok (PrimaryNested t e) \<longleftrightarrow> False"
| "typed_ok (BinaryExpression t op l r) \<longleftrightarrow> typed_ok l \<and> typed_ok r \<and>
     (case (e_type l, e_type r) of (Some lt, Some rt) \<Rightarrow> t \<noteq> None \<and> op_result lt rt op = t | _ \<Rightarrow> False)"
| "typed_ok (PointerOf t e) \<longleftrightarrow> True"
| "typed_ok (RowLiteral t es) \<longleftrightarrow>
     list_all (\<lambda>e. typed_ok e \<and> e_type e \<noteq> None) es \<and> t = Some (TupleType_anonymous (map e_type es))"
| "typed_ok (ArrayLiteral t es) \<longleftrightarrow>
     (case es of
        e # _ \<Rightarrow> typed_ok e \<and> (case e_type e of Some u \<Rightarrow> t = Some (ArrayType (ty_id u)) | None \<Rightarrow> False)
      | [] \<Rightarrow> False)"
| "typed_ok (VariableReference t n) \<longleftrightarrow> True"
| "typed_ok (FunctionCall t p as) \<longleftrightarrow> t = Some (PrimaryType TY_INTEGER) \<and> list_all typed_ok as"
| "typed_ok (ArrayReference t p i) \<longleftrightarrow>
     (case p of
        Some p \<Rightarrow> typed_ok p \<and> typed_ok i \<and> t = e_type p \<and> (\<exists>a. t = Some (ArrayType a))
      | None \<Rightarrow> False)"
| "typed_ok (MemberReference t p n off) \<longleftrightarrow> typed_ok p \<and> member_ok (e_type p) n off t"
| "typed_ok (Assign t a v) \<longleftrightarrow> typed_ok a \<and> typed_ok v \<and> t = e_type v"

section \<open>Facts\<close>

lemma builtin_typesD:
  "builtin_types c \<Longrightarrow> cx_analyze_type c ''integer'' = Some (Some (PrimaryType TY_INTEGER))"
  "builtin_types c \<Longrightarrow> cx_analyze_type c ''string'' = Some (Some (PrimaryType TY_STRING))"
  "builtin_types c \<Longrightarrow> cx_analyze_type c ''double'' = Some (Some (PrimaryType TY_DOUBLE))"
  "builtin_types c \<Longrightarrow> cx_analyze_type c ''bool'' = Some (Some (PrimaryType TY_BOOL))"
  by (simp_all add: builtin_types_def builtins_def)

lemma type_index_builtin:
  "builtin_types c \<Longrightarrow> type_index ''integer'' c = (Some (PrimaryType TY_INTEGER), c)"
  "builtin_types c \<Longrightarrow> type_index ''string'' c = (Some (PrimaryType TY_STRING), c)"
  "builtin_types c \<Longrightarrow> type_index ''double'' c = (Some (PrimaryType TY_DOUBLE), c)"
  "builtin_types c \<Longrightarrow> type_index ''bool'' c = (Some (PrimaryType TY_BOOL), c)"
  by (simp_all add: type_index_def pmap_index_def builtin_typesD)

lemma builtin_types_new: "builtin_types CompilerContext_new"
  by (simp add: builtin_types_def builtins_def CompilerContext_new_def)

lemma set_type_builtin:
  "n \<notin> fst ` set builtins \<Longrightarrow> builtin_types c \<Longrightarrow> builtin_types (set_type n t c)"
  by (auto simp: builtin_types_def builtins_def set_type_def)

lemma set_type_literal [simp]:
  "builtin_types (set_type (CHR ''_'' # s) t c) \<longleftrightarrow> builtin_types c"
  by (auto simp: builtin_types_def builtins_def set_type_def)

lemma set_variable_builtin [simp]: "builtin_types (set_variable n t c) \<longleftrightarrow> builtin_types c"
  by (simp add: builtin_types_def set_variable_def)

lemma fresh_builtin [simp]: "builtin_types (c\<lparr>cx_fresh := n\<rparr>) \<longleftrightarrow> builtin_types c"
  by (simp add: builtin_types_def)

lemma schema_builtin [simp]: "builtin_types (c\<lparr>cx_local_schema := m\<rparr>) \<longleftrightarrow> builtin_types c"
  by (simp add: builtin_types_def)

lemma pmap_index_keep: "m k = Some p \<Longrightarrow> snd (pmap_index m k') k = Some p"
  by (auto simp: pmap_index_def split: option.splits)

lemma type_index_keeps:
  assumes "builtin_types c" "type_index n c = (t, c')"
  shows "builtin_types c'"
proof -
  have "c' = c\<lparr>cx_analyze_type := snd (pmap_index (cx_analyze_type c) n)\<rparr>"
    using assms(2) by (auto simp: type_index_def split: prod.splits)
  with assms(1) show ?thesis
    by (simp add: builtin_types_def builtins_def pmap_index_keep)
qed

lemma not_implemented_fails [simp]: "not_implemented l r op \<noteq> Inr x"
  by (auto simp: not_implemented_def bindE_eq_Inr_iff)

lemma operate_result:
  assumes "builtin_types c"
  shows "operate lt rt op c = Inr (t, c') \<longleftrightarrow> c' = c \<and> t \<noteq> None \<and> op_result lt rt op = t"
  using assms
  by (cases op; cases "ty_id lt")
     (auto simp: operate_def op_result_def type_index_builtin arithmetic_def comparison_def conditional_def
       Let_def)

lemma find_member_Some:
  "find_member name ns i = Some k \<Longrightarrow>
   \<exists>j < length ns. k = i + j \<and> ns ! j = name \<and> name \<notin> set (take j ns)"
proof (induction ns arbitrary: i)
  case (Cons n ns)
  show ?case
  proof (cases "n = name")
    case True
    with Cons.prems show ?thesis by (auto intro: exI [of _ 0])
  next
    case False
    with Cons.prems Cons.IH [of "Suc i"] obtain j where
      "j < length ns" "k = Suc i + j" "ns ! j = name" "name \<notin> set (take j ns)" by auto
    with False show ?thesis by (intro exI [of _ "Suc j"]) auto
  qed
qed simp

lemma MemberReference_analyze_ok:
  assumes "MemberReference_analyze p n c = Inr (e, c')"
  shows "\<exists>t off. e = MemberReference t p n off \<and> c' = c \<and> member_ok (e_type p) n off t"
proof (cases "\<exists>i names tns props params types. e_type p = Some (TupleType i names tns props params types)")
  case True
  then obtain i names tns props params types where t: "e_type p = Some (TupleType i names tns props params types)"
    by blast
  with assms obtain k where k: "find_member n names 0 = Some k" "k < length types"
    "e = MemberReference (types ! k) p n (Some (of_nat k))" "c' = c"
    by (auto simp: MemberReference_analyze_def bindE_eq_Inr_iff split: option.splits if_splits)
  from find_member_Some [OF k(1)] k(2-) show ?thesis by (auto simp: member_ok_def t)
next
  case False
  with assms show ?thesis by (auto simp: MemberReference_analyze_def split: option.splits ty.splits)
qed

lemma expr_analyze_typed:
  "expr_analyze addr e c = Inr (e', c') \<Longrightarrow> builtin_types c \<Longrightarrow> typed_ok e' \<and> builtin_types c'"
  "exprs_analyze addr need es c = Inr (es', c') \<Longrightarrow> builtin_types c \<Longrightarrow>
   list_all (\<lambda>e. typed_ok e \<and> (need \<longrightarrow> e_type e \<noteq> None)) es' \<and> builtin_types c'"
proof (induction addr e c and addr need es c arbitrary: e' c' and es' c'
    rule: expr_analyze_exprs_analyze.induct)
  case (1 addr t v c)
  then show ?case
    by (auto simp: PrimaryExpression_analyze_def type_index_builtin value_ty_def is_int_def is_varchar_def
        is_float_def split: if_splits)
next
  case (3 addr t op l r c)
  from "3.prems"(1) obtain l' c1 r' c2 where *: "expr_analyze addr l c = Inr (l', c1)"
    "expr_analyze addr r c1 = Inr (r', c2)" and
    r: "(case (e_type l', e_type r') of
       (Some lt, Some rt) \<Rightarrow> bindE (operate lt rt op c2) (\<lambda>(t, c). Inr (BinaryExpression t op l' r', c))
     | _ \<Rightarrow> Inl Undefined) = Inr (e', c')"
    by (fastforce simp: bindE_eq_Inr_iff)
  from r obtain lt rt u where "e_type l' = Some lt" "e_type r' = Some rt" "operate lt rt op c2 = Inr (u, c')"
    "e' = BinaryExpression u op l' r'"
    by (auto simp: bindE_eq_Inr_iff split: option.splits)
  with 3 * operate_result [of c2 lt rt op u c'] show ?case by auto
next
  case (9 addr t p i c)
  then obtain q where p: "p = Some q" by (cases p) auto
  with "9.prems"(1) obtain p' c1 i' c2 where *: "expr_analyze addr q c = Inr (p', c1)"
    "expr_analyze addr i c1 = Inr (i', c2)" and r: "(case e_type p' of
        Some (ArrayType a) \<Rightarrow> Inr (ArrayReference (Some (ArrayType a)) (Some p') i', c2)
      | _ \<Rightarrow> Inl (RuntimeError ''array reference must detect array'')) = Inr (e', c')"
    by (fastforce simp: bindE_eq_Inr_iff)
  from r obtain a where "e_type p' = Some (ArrayType a)" "c' = c2"
    "e' = ArrayReference (Some (ArrayType a)) (Some p') i'"
    by (auto split: option.splits ty.splits)
  with 9 * p show ?case by auto
next
  case (10 addr t p n off c)
  then obtain p' c1 where "expr_analyze addr p c = Inr (p', c1)" "MemberReference_analyze p' n c1 = Inr (e', c')"
    by (auto simp: bindE_eq_Inr_iff)
  with 10 MemberReference_analyze_ok [of p' n c1 e' c'] show ?case by auto
qed (auto simp: bindE_eq_Inr_iff VariableReference_analyze_def type_index_builtin Let_def
      split: list.splits option.splits ty.splits)

text \<open>The programs that do not reuse the name of a built-in type.\<close>

fun keeps_builtins :: "stmt \<Rightarrow> bool" where
  "keeps_builtins (Block ss) \<longleftrightarrow> list_all keeps_builtins ss"
| "keeps_builtins (Transaction _ ss) \<longleftrightarrow> list_all keeps_builtins ss"
| "keeps_builtins (Define _ n) \<longleftrightarrow> n \<notin> fst ` set builtins"
| "keeps_builtins (For init _ _ blk) \<longleftrightarrow>
     (case init of Ref i \<Rightarrow> keeps_builtins i | _ \<Rightarrow> True) \<and> list_all keeps_builtins blk"
| "keeps_builtins (Scan _ _ blk) \<longleftrightarrow> list_all keeps_builtins blk"
| "keeps_builtins (Let n _ _) \<longleftrightarrow> n \<notin> fst ` set builtins"
| "keeps_builtins (DefineTuple n _) \<longleftrightarrow> n \<notin> fst ` set builtins"
| "keeps_builtins (If _ t f) \<longleftrightarrow>
     list_all keeps_builtins t \<and> (case f of None \<Rightarrow> True | Some f \<Rightarrow> list_all keeps_builtins f)"
| "keeps_builtins _ \<longleftrightarrow> True"

fun slot_typed :: "expr slot \<Rightarrow> bool" where
  "slot_typed (Ref e) = typed_ok e"
| "slot_typed Null = True"
| "slot_typed Uninit = False"

fun stmt_typed :: "stmt \<Rightarrow> bool" where
  "stmt_typed (Block ss) \<longleftrightarrow> list_all stmt_typed ss"
| "stmt_typed (Transaction _ ss) \<longleftrightarrow> list_all stmt_typed ss"
| "stmt_typed (Define t _) \<longleftrightarrow> t \<noteq> None"
| "stmt_typed (For init cond every blk) \<longleftrightarrow>
     (case init of Ref i \<Rightarrow> stmt_typed i | Null \<Rightarrow> True | Uninit \<Rightarrow> False) \<and>
     slot_typed cond \<and> slot_typed every \<and> list_all stmt_typed blk"
| "stmt_typed (Jump _) \<longleftrightarrow> True"
| "stmt_typed (Emit v) \<longleftrightarrow> typed_ok v"
| "stmt_typed (Insert _ v) \<longleftrightarrow> typed_ok v"
| "stmt_typed (Scan _ _ blk) \<longleftrightarrow> list_all stmt_typed blk"
| "stmt_typed (Let _ _ e) \<longleftrightarrow> typed_ok e"
| "stmt_typed (DefineTuple _ _) \<longleftrightarrow> True"
| "stmt_typed (If c t f) \<longleftrightarrow>
     typed_ok c \<and> list_all stmt_typed t \<and> (case f of None \<Rightarrow> True | Some f \<Rightarrow> list_all stmt_typed f)"
| "stmt_typed (ExprStatement v) \<longleftrightarrow> typed_ok v"

lemma resolve_types_keeps:
  "resolve_types ns c = Inr (ts, c') \<Longrightarrow> builtin_types c \<Longrightarrow> builtin_types c'"
proof (induction ns arbitrary: c ts)
  case (Cons n ns)
  then obtain t c1 us where r: "resolve_type n c = Inr (t, c1)" "resolve_types ns c1 = Inr (us, c')"
    by (auto simp: bindE_eq_Inr_iff)
  have "builtin_types c1"
    using r(1) Cons.prems(2) by (auto simp: resolve_type_def type_index_builtin split: if_splits option.splits)
  with Cons.IH r(2) show ?case by blast
qed simp

lemma TupleType_analyze_keeps:
  "TupleType_analyze t c = Inr (t', c') \<Longrightarrow> builtin_types c \<Longrightarrow> builtin_types c'"
  by (auto simp: TupleType_analyze_def bindE_eq_Inr_iff resolve_types_keeps split: ty.splits)

lemma Let_analyze_keeps:
  assumes "Let_analyze n ty e c = Inr (s, c')" "builtin_types c" "n \<notin> fst ` set builtins"
  shows "(\<exists>t. s = Let n t e) \<and> builtin_types c'"
  using assms
  by (auto simp: Let_analyze_def bindE_eq_Inr_iff set_type_builtin Let_def
      split: expr.splits option.splits list.splits dest: TupleType_analyze_keeps)

lemma Scan_enter_keeps: "builtin_types c \<Longrightarrow> builtin_types (Scan_enter t r c)"
  by (auto simp: Scan_enter_def Let_def split: prod.splits dest!: type_index_keeps [rotated])

lemma opt_analyze_typed:
  "opt_analyze (expr_analyze addr) x c = Inr (x', c') \<Longrightarrow> builtin_types c \<Longrightarrow> slot_typed x' \<and> builtin_types c'"
  by (cases x) (auto simp: opt_analyze_def bindE_eq_Inr_iff dest: expr_analyze_typed(1))

lemma stmt_analyze_typed:
  "stmt_analyze addr s c = Inr (s', c') \<Longrightarrow> builtin_types c \<Longrightarrow> keeps_builtins s \<Longrightarrow>
   stmt_typed s' \<and> builtin_types c'"
  "block_analyze addr ss c = Inr (ss', c') \<Longrightarrow> builtin_types c \<Longrightarrow> list_all keeps_builtins ss \<Longrightarrow>
   list_all stmt_typed ss' \<and> builtin_types c'"
proof (induction addr s c and addr ss c arbitrary: s' c' and ss' c'
    rule: stmt_analyze_block_analyze.induct)
  case (4 addr init cond every blk c)
  from "4.prems"(1) obtain init' c1 cond' c2 every' c3 blk' where
    i: "(case init of Uninit \<Rightarrow> Inl Undefined | Null \<Rightarrow> Inr (Null, c)
         | Ref i \<Rightarrow> bindE (stmt_analyze addr i c) (\<lambda>(i, c). Inr (Ref i, c))) = Inr (init', c1)"
    and e: "opt_analyze (expr_analyze addr) cond c1 = Inr (cond', c2)"
      "opt_analyze (expr_analyze addr) every c2 = Inr (every', c3)"
    and b: "block_analyze addr blk c3 = Inr (blk', c')" and s': "s' = For init' cond' every' blk'"
    by (fastforce simp: bindE_eq_Inr_iff)
  have init: "(case init' of Ref i \<Rightarrow> stmt_typed i | Null \<Rightarrow> True | Uninit \<Rightarrow> False) \<and> builtin_types c1"
    using i "4.prems"(2,3) "4.IH"(1) by (auto simp: bindE_eq_Inr_iff split: slot.splits)
  with opt_analyze_typed [OF e(1)] opt_analyze_typed [OF e(2)] have
    c3: "slot_typed cond' \<and> slot_typed every' \<and> builtin_types c3" by blast
  have "list_all stmt_typed blk' \<and> builtin_types c'"
    using "4.IH"(2) [OF i refl e(1) refl e(2) refl b] c3 "4.prems"(3) by simp
  with init c3 show ?case by (simp add: s')
next
  case (9 addr name ty e c)
  then obtain e1 c1 where e: "expr_analyze addr e c = Inr (e1, c1)" "Let_analyze name ty e1 c1 = Inr (s', c')"
    by (auto simp: bindE_eq_Inr_iff)
  from expr_analyze_typed(1) [OF e(1)] Let_analyze_keeps [OF e(2)] 9 show ?case by auto
next
  case (11 addr cond t f c)
  from "11.prems"(1) obtain cond' c1 t' c2 f' where
    e: "expr_analyze addr cond c = Inr (cond', c1)" and t: "block_analyze addr t c1 = Inr (t', c2)"
    and f: "(case f of None \<Rightarrow> Inr (None, c2)
            | Some f \<Rightarrow> bindE (block_analyze addr f c2) (\<lambda>(f, c). Inr (Some f, c))) = Inr (f', c')"
    and s': "s' = If cond' t' f'"
    by (fastforce simp: bindE_eq_Inr_iff)
  from expr_analyze_typed(1) [OF e "11.prems"(2)] have c1: "typed_ok cond'" "builtin_types c1" by auto
  have t': "list_all stmt_typed t' \<and> builtin_types c2"
    using "11.IH"(1) [OF e refl t] c1 "11.prems"(3) by simp
  have "(case f' of None \<Rightarrow> True | Some f \<Rightarrow> list_all stmt_typed f) \<and> builtin_types c'"
    using f t' "11.prems"(3) "11.IH"(2) [OF e refl t refl] by (auto simp: bindE_eq_Inr_iff split: option.splits)
  with t' c1 show ?case by (simp add: s')
qed (auto simp: bindE_eq_Inr_iff Define_analyze_def DefineTuple_analyze_def set_type_builtin Scan_enter_keeps
      split: option.splits dest: expr_analyze_typed(1) TupleType_analyze_keeps Let_analyze_keeps)

section \<open>Analysis only annotates\<close>

fun erase_ty :: "ty \<Rightarrow> ty" where
  "erase_ty (TupleType i ns tns ps pas ts) = TupleType i ns tns ps pas []"
| "erase_ty t = t"

fun erase_expr :: "expr \<Rightarrow> expr" where
  "erase_expr (PrimaryExpression t v) = PrimaryExpression None v"
| "erase_expr (PrimaryNested t e) = PrimaryNested None (erase_expr e)"
| "erase_expr (BinaryExpression t op l r) = BinaryExpression None op (erase_expr l) (erase_expr r)"
| "erase_expr (PointerOf t e) = PointerOf None (map_option erase_expr e)"
| "erase_expr (RowLiteral t es) = RowLiteral None (map erase_expr es)"
| "erase_expr (ArrayLiteral t es) = ArrayLiteral None (map erase_expr es)"
| "erase_expr (VariableReference t n) = VariableReference None n"
| "erase_expr (FunctionCall t p as) = FunctionCall None (erase_expr p) (map erase_expr as)"
| "erase_expr (ArrayReference t p i) = ArrayReference None (map_option erase_expr p) (erase_expr i)"
| "erase_expr (MemberReference t p n off) = MemberReference None (erase_expr p) n None"
| "erase_expr (Assign t a v) = Assign None (erase_expr a) (erase_expr v)"

fun erase_slot :: "expr slot \<Rightarrow> expr slot" where
  "erase_slot (Ref e) = Ref (erase_expr e)"
| "erase_slot x = x"

fun erase_stmt :: "stmt \<Rightarrow> stmt" where
  "erase_stmt (Block ss) = Block (map erase_stmt ss)"
| "erase_stmt (Transaction i ss) = Transaction i (map erase_stmt ss)"
| "erase_stmt (Define t n) = Define (map_option erase_ty t) n"
| "erase_stmt (For init cond every blk) =
     For (case init of Ref i \<Rightarrow> Ref (erase_stmt i) | Null \<Rightarrow> Null | Uninit \<Rightarrow> Uninit)
       (erase_slot cond) (erase_slot every) (map erase_stmt blk)"
| "erase_stmt (Jump j) = Jump j"
| "erase_stmt (Emit v) = Emit (erase_expr v)"
| "erase_stmt (Insert t v) = Insert t (erase_expr v)"
| "erase_stmt (Scan t r blk) = Scan t r (map erase_stmt blk)"
| "erase_stmt (Let n t e) = Let n None (erase_expr e)"
| "erase_stmt (DefineTuple n t) = DefineTuple n (erase_ty t)"
| "erase_stmt (If c t f) = If (erase_expr c) (map erase_stmt t) (map_option (map erase_stmt) f)"
| "erase_stmt (ExprStatement v) = ExprStatement (erase_expr v)"

lemma expr_analyze_erase:
  "expr_analyze addr e c = Inr (e', c') \<Longrightarrow> erase_expr e' = erase_expr e"
  "exprs_analyze addr need es c = Inr (es', c') \<Longrightarrow> map erase_expr es' = map erase_expr es"
proof (induction addr e c and addr need es c arbitrary: e' c' and es' c'
    rule: expr_analyze_exprs_analyze.induct)
  case (1 addr t v c)
  then show ?case by (auto simp: PrimaryExpression_analyze_def split: if_splits prod.splits)
next
  case (3 addr t op l r c)
  from "3.prems" obtain l' c1 r' c2 where *: "expr_analyze addr l c = Inr (l', c1)"
    "expr_analyze addr r c1 = Inr (r', c2)" and
    r: "(case (e_type l', e_type r') of
       (Some lt, Some rt) \<Rightarrow> bindE (operate lt rt op c2) (\<lambda>(t, c). Inr (BinaryExpression t op l' r', c))
     | _ \<Rightarrow> Inl Undefined) = Inr (e', c')"
    by (fastforce simp: bindE_eq_Inr_iff)
  from r have "\<exists>u. e' = BinaryExpression u op l' r'"
    by (auto simp: bindE_eq_Inr_iff split: option.splits)
  with 3 * show ?case by auto
next
  case (9 addr t p i c)
  then obtain q where p: "p = Some q" by (cases p) auto
  with "9.prems" obtain p' c1 i' c2 where *: "expr_analyze addr q c = Inr (p', c1)"
    "expr_analyze addr i c1 = Inr (i', c2)" and r: "(case e_type p' of
        Some (ArrayType a) \<Rightarrow> Inr (ArrayReference (Some (ArrayType a)) (Some p') i', c2)
      | _ \<Rightarrow> Inl (RuntimeError ''array reference must detect array'')) = Inr (e', c')"
    by (fastforce simp: bindE_eq_Inr_iff)
  from r have "\<exists>u. e' = ArrayReference u (Some p') i'" by (auto split: option.splits ty.splits)
  with 9 * p show ?case by auto
next
  case (10 addr t p n off c)
  then obtain p' c1 where "expr_analyze addr p c = Inr (p', c1)" "MemberReference_analyze p' n c1 = Inr (e', c')"
    by (auto simp: bindE_eq_Inr_iff)
  with 10 MemberReference_analyze_ok [of p' n c1 e' c'] show ?case by auto
qed (auto simp: bindE_eq_Inr_iff VariableReference_analyze_def Let_def
      split: list.splits option.splits prod.splits)

lemma TupleType_analyze_erase: "TupleType_analyze t c = Inr (t', c') \<Longrightarrow> erase_ty t' = erase_ty t"
  by (auto simp: TupleType_analyze_def bindE_eq_Inr_iff split: ty.splits)

lemma Let_analyze_shape: "Let_analyze n ty e c = Inr (s, c') \<Longrightarrow> \<exists>t. s = Let n t e"
  by (auto simp: Let_analyze_def bindE_eq_Inr_iff Let_def split: expr.splits option.splits list.splits)

lemma opt_analyze_erase:
  "opt_analyze (expr_analyze addr) x c = Inr (x', c') \<Longrightarrow> erase_slot x' = erase_slot x"
  by (cases x) (auto simp: opt_analyze_def bindE_eq_Inr_iff dest: expr_analyze_erase(1))

lemma stmt_analyze_erase:
  "stmt_analyze addr s c = Inr (s', c') \<Longrightarrow> erase_stmt s' = erase_stmt s"
  "block_analyze addr ss c = Inr (ss', c') \<Longrightarrow> map erase_stmt ss' = map erase_stmt ss"
proof (induction addr s c and addr ss c arbitrary: s' c' and ss' c'
    rule: stmt_analyze_block_analyze.induct)
  case (4 addr init cond every blk c)
  from "4.prems" obtain init' c1 cond' c2 every' c3 blk' where
    i: "(case init of Uninit \<Rightarrow> Inl Undefined | Null \<Rightarrow> Inr (Null, c)
         | Ref i \<Rightarrow> bindE (stmt_analyze addr i c) (\<lambda>(i, c). Inr (Ref i, c))) = Inr (init', c1)"
    and e: "opt_analyze (expr_analyze addr) cond c1 = Inr (cond', c2)"
      "opt_analyze (expr_analyze addr) every c2 = Inr (every', c3)"
    and b: "block_analyze addr blk c3 = Inr (blk', c')" and s': "s' = For init' cond' every' blk'"
    by (fastforce simp: bindE_eq_Inr_iff)
  have "(case init' of Ref i \<Rightarrow> Ref (erase_stmt i) | Null \<Rightarrow> Null | Uninit \<Rightarrow> Uninit) =
        (case init of Ref i \<Rightarrow> Ref (erase_stmt i) | Null \<Rightarrow> Null | Uninit \<Rightarrow> Uninit)"
    using i "4.IH"(1) by (auto simp: bindE_eq_Inr_iff split: slot.splits)
  with opt_analyze_erase [OF e(1)] opt_analyze_erase [OF e(2)] "4.IH"(2) [OF i refl e(1) refl e(2) refl b]
  show ?case by (simp add: s')
next
  case (9 addr name ty e c)
  then obtain e1 c1 where e: "expr_analyze addr e c = Inr (e1, c1)" "Let_analyze name ty e1 c1 = Inr (s', c')"
    by (auto simp: bindE_eq_Inr_iff)
  from expr_analyze_erase(1) [OF e(1)] Let_analyze_shape [OF e(2)] show ?case by auto
next
  case (11 addr cond t f c)
  from "11.prems" obtain cond' c1 t' c2 f' where
    e: "expr_analyze addr cond c = Inr (cond', c1)" and t: "block_analyze addr t c1 = Inr (t', c2)"
    and f: "(case f of None \<Rightarrow> Inr (None, c2)
            | Some f \<Rightarrow> bindE (block_analyze addr f c2) (\<lambda>(f, c). Inr (Some f, c))) = Inr (f', c')"
    and s': "s' = If cond' t' f'"
    by (fastforce simp: bindE_eq_Inr_iff)
  have "map_option (map erase_stmt) f' = map_option (map erase_stmt) f"
    using f "11.IH"(2) [OF e refl t refl] by (auto simp: bindE_eq_Inr_iff split: option.splits)
  with expr_analyze_erase(1) [OF e] "11.IH"(1) [OF e refl t] show ?case by (simp add: s')
qed (auto simp: bindE_eq_Inr_iff Define_analyze_def DefineTuple_analyze_def
      split: option.splits dest: expr_analyze_erase(1) TupleType_analyze_erase)

section \<open>Properties\<close>


definition demo_addr :: "nat \<Rightarrow> string" where
  "demo_addr n = ''0x'' @ show_nat n"


text \<open>
  C31. Analysis only annotates: apart from the type pointers, the member indices and the
  resolved column types, the tree it leaves is the tree it was given.
\<close>

theorem analysis_keeps_program:
  assumes "stmt_analyze addr s c = Inr (s', c')"
  shows "erase_stmt s' = erase_stmt s"
  by (rule stmt_analyze_erase(1) [OF assms])

theorem analysis_keeps_program_witness:
  "\<exists>s' c'. stmt_analyze demo_addr (Emit (PrimaryExpression None (MaybeValue_int 1))) CompilerContext_new = Inr (s', c') \<and>
     erase_stmt s' = Emit (PrimaryExpression None (MaybeValue_int 1))"
proof -
  obtain s' c' where an: "stmt_analyze demo_addr (Emit (PrimaryExpression None (MaybeValue_int 1))) CompilerContext_new = Inr (s', c')"
    by (simp add: PrimaryExpression_analyze_def MaybeValue_int_def is_int_def ValueImpl_int_def
        type_index_builtin builtin_types_new)
  from analysis_keeps_program [OF an] an show ?thesis by auto
qed



text \<open>
  Defining a tuple called \<open>integer\<close> takes over the built-in type: every integer literal
  analysed afterwards has that tuple's type.
\<close>

theorem builtin_name_captured:
  "\<exists>t c'. block_analyze addr
     [DefineTuple ''integer'' (TupleType TY_TUPLE [''a''] [''int''] [0] [None] []),
      ExprStatement (PrimaryExpression None (MaybeValue_int 1))] CompilerContext_new =
     Inr ([DefineTuple ''integer'' t, ExprStatement (PrimaryExpression (Some t) (MaybeValue_int 1))], c') \<and>
     is_TupleType t"
  by (simp add: DefineTuple_analyze_def TupleType_analyze_def resolve_type_def CompilerContext_new_def
      PrimaryExpression_analyze_def MaybeValue_int_def is_int_def ValueImpl_int_def set_type_def
      type_index_def pmap_index_def is_TupleType_def)

text \<open>
  Only the first element of an array literal is analysed: whatever follows an integer
  (undefined variables, other types) is accepted and stays without a type.
\<close>

theorem array_rest_unchecked:
  "\<exists>u c'. expr_analyze addr (ArrayLiteral None (PrimaryExpression None (MaybeValue_int w) # rest)) CompilerContext_new =
     Inr (ArrayLiteral (Some (ArrayType TY_INTEGER)) (PrimaryExpression (Some u) (MaybeValue_int w) # rest), c')"
  by (simp add: PrimaryExpression_analyze_def MaybeValue_int_def is_int_def ValueImpl_int_def
      type_index_builtin builtin_types_new Let_def)

end
