(* ===== verification/Reir_Slice.thy ===== *)
theory Reir_Slice
  imports Reir_Prelude
begin

text \<open>
  \<^verbatim>\<open>util/slice.hpp\<close>: a slice is a pointer into some object and a length. The pointer is
  the rest of the object behind it, or null; following it past the end of the object is undefined
  behaviour. Lengths are of type \<open>size_t\<close> and wrap. \<open>npos\<close> is \<open>None\<close>.
\<close>

section \<open>Slices\<close>

record slice =
  sl_ptr :: "string option"
  sl_len :: "64 word"

definition slice_new :: slice where
  "slice_new = \<lparr>sl_ptr = None, sl_len = 0\<rparr>"

definition slice_of_ptr :: "string option \<Rightarrow> 64 word \<Rightarrow> slice" where
  "slice_of_ptr d n = \<lparr>sl_ptr = d, sl_len = n\<rparr>"

text \<open>The object of a \<open>std::string\<close> ends with a zero byte, that of a vector or an array does not.\<close>

definition slice_of_string :: "string \<Rightarrow> slice" where
  "slice_of_string s = \<lparr>sl_ptr = Some (s @ [CHR 0x00]), sl_len = of_nat (length s)\<rparr>"

definition slice_of_bytes :: "string \<Rightarrow> slice" where
  "slice_of_bytes s = \<lparr>sl_ptr = Some s, sl_len = of_nat (length s)\<rparr>"

text \<open>A C string: the bytes before the first zero byte.\<close>

fun c_string :: "string \<Rightarrow> string res" where
  "c_string [] = Inl Undefined"
| "c_string (b # bs) = (if b = CHR 0x00 then Inr [] else bindE (c_string bs) (\<lambda>s. Inr (b # s)))"

definition pointed_string :: "string option \<Rightarrow> string res" where
  "pointed_string p = (case p of None \<Rightarrow> Inl Undefined | Some bs \<Rightarrow> c_string bs)"

definition slice_of_cstr :: "string \<Rightarrow> slice res" where
  "slice_of_cstr bs = bindE (c_string bs) (\<lambda>s. Inr \<lparr>sl_ptr = Some bs, sl_len = of_nat (length s)\<rparr>)"

definition slice_size :: "slice \<Rightarrow> 64 word" where
  "slice_size s = sl_len s"

definition slice_empty :: "slice \<Rightarrow> bool res" where
  "slice_empty s =
     (if sl_len s = 0 then Inr True
      else case sl_ptr s of
             None \<Rightarrow> Inr True
           | Some [] \<Rightarrow> Inl Undefined
           | Some (b # bs) \<Rightarrow> Inr (b = CHR 0x00))"

definition slice_at :: "slice \<Rightarrow> 32 word \<Rightarrow> char res" where
  "slice_at s idx =
     (if sint idx < sint (ucast (sl_len s) :: 32 word)
      then case sl_ptr s of
             None \<Rightarrow> Inl Undefined
           | Some bs \<Rightarrow> if 0 \<le> sint idx \<and> nat (sint idx) < length bs then Inr (bs ! nat (sint idx)) else Inl Undefined
      else Inl AssertFailed)"

definition advance :: "string option \<Rightarrow> nat \<Rightarrow> string option" where
  "advance p i = (case p of None \<Rightarrow> None | Some bs \<Rightarrow> if i \<le> length bs then Some (drop i bs) else None)"

definition memcmp_equal :: "string option \<Rightarrow> string option \<Rightarrow> nat \<Rightarrow> bool res" where
  "memcmp_equal p q n =
     (case (p, q) of
        (Some as, Some bs) \<Rightarrow>
          if n \<le> length as \<and> n \<le> length bs then Inr (take n as = take n bs) else Inl Undefined
      | _ \<Rightarrow> Inl Undefined)"

text \<open>The loop of \<open>find\<close>, with the number of positions left.\<close>

fun find_loop :: "slice \<Rightarrow> slice \<Rightarrow> nat \<Rightarrow> nat \<Rightarrow> 64 word option res" where
  "find_loop s target i 0 = Inr None"
| "find_loop s target i (Suc n) =
     bindE (memcmp_equal (advance (sl_ptr s) i) (sl_ptr target) (unat (sl_len target))) (\<lambda>eq.
     if eq then Inr (Some (of_nat i)) else find_loop s target (Suc i) n)"

definition slice_find :: "slice \<Rightarrow> slice \<Rightarrow> 64 word option res" where
  "slice_find s target = find_loop s target 0 (unat (sl_len s))"

definition slice_eq :: "slice \<Rightarrow> slice \<Rightarrow> bool res" where
  "slice_eq l r =
     (if sl_len l \<noteq> sl_len r then Inr False else memcmp_equal (sl_ptr l) (sl_ptr r) (unat (sl_len l)))"

definition slice_ne :: "slice \<Rightarrow> slice \<Rightarrow> bool res" where
  "slice_ne l r = bindE (slice_eq l r) (\<lambda>e. Inr (\<not> e))"

definition drop_head :: "64 word \<Rightarrow> slice \<Rightarrow> slice res" where
  "drop_head n s =
     (if n \<le> sl_len s then Inr \<lparr>sl_ptr = advance (sl_ptr s) (unat n), sl_len = sl_len s - n\<rparr>
      else Inl AssertFailed)"

text \<open>The loop of \<open>split\<close>; \<open>None\<close> when it does not end.\<close>

partial_function (option) split_loop :: "slice \<Rightarrow> slice \<Rightarrow> slice list res option" where
  "split_loop delimiter p =
     (case slice_find p delimiter of
        Inl e \<Rightarrow> Some (Inl e)
      | Inr None \<Rightarrow> Some (Inr [p])
      | Inr (Some idx) \<Rightarrow>
          (case drop_head (idx + sl_len delimiter) p of
             Inl e \<Rightarrow> Some (Inl e)
           | Inr p' \<Rightarrow>
               Option.bind (split_loop delimiter p') (\<lambda>r.
               Some (bindE r (\<lambda>ps. Inr (\<lparr>sl_ptr = sl_ptr p, sl_len = idx\<rparr> # ps))))))"

definition slice_split :: "slice \<Rightarrow> slice \<Rightarrow> slice list res option" where
  "slice_split s delimiter = split_loop delimiter s"

definition slice_car :: "slice \<Rightarrow> slice \<Rightarrow> slice res" where
  "slice_car s delimiter =
     bindE (slice_find s delimiter) (\<lambda>pos.
     case pos of None \<Rightarrow> Inr s | Some pos \<Rightarrow> Inr \<lparr>sl_ptr = sl_ptr s, sl_len = pos\<rparr>)"

definition slice_cdr :: "slice \<Rightarrow> slice \<Rightarrow> slice res" where
  "slice_cdr s delimiter =
     bindE (slice_find s delimiter) (\<lambda>pos.
     case pos of
       None \<Rightarrow> Inr \<lparr>sl_ptr = None, sl_len = 0\<rparr>
     | Some pos \<Rightarrow>
         let offset = pos + sl_len delimiter
         in Inr \<lparr>sl_ptr = advance (sl_ptr s) (unat offset), sl_len = sl_len s - offset\<rparr>)"

text \<open>\<open>count\<close> is a constant that the loop never increments.\<close>

partial_function (option) count_loop :: "slice \<Rightarrow> slice \<Rightarrow> 64 word res option" where
  "count_loop target cursor =
     (case slice_find cursor target of
        Inl e \<Rightarrow> Some (Inl e)
      | Inr None \<Rightarrow> Some (Inr 0)
      | Inr (Some offset) \<Rightarrow>
          count_loop target
            \<lparr>sl_ptr = advance (sl_ptr cursor) (unat (offset + sl_len target)),
             sl_len = sl_len cursor - (offset + sl_len target)\<rparr>)"

definition slice_count :: "slice \<Rightarrow> slice \<Rightarrow> 64 word res option" where
  "slice_count s target = count_loop target s"

definition slice_string :: "slice \<Rightarrow> string res" where
  "slice_string s =
     (case sl_ptr s of
        None \<Rightarrow> if sl_len s = 0 then Inr [] else Inl Undefined
      | Some bs \<Rightarrow> buf_read bs 0 (unat (sl_len s)))"

text \<open>\<open>join\<close> appends C strings; \<open>reserve\<close> has no effect on the result.\<close>

fun join_loop :: "slice list \<Rightarrow> slice \<Rightarrow> string res" where
  "join_loop [] glue = Inr []"
| "join_loop [a] glue = pointed_string (sl_ptr a)"
| "join_loop (a # as) glue =
     bindE (pointed_string (sl_ptr a)) (\<lambda>x.
     bindE (pointed_string (sl_ptr glue)) (\<lambda>g.
     bindE (join_loop as glue) (\<lambda>rest. Inr (x @ g @ rest))))"

definition slice_join :: "slice list \<Rightarrow> slice \<Rightarrow> string res" where
  "slice_join arr glue = join_loop arr glue"

definition slice_suffix :: "slice \<Rightarrow> 64 word \<Rightarrow> slice" where
  "slice_suffix s n =
     (if sl_len s < n then slice_new
      else \<lparr>sl_ptr = advance (sl_ptr s) (unat n), sl_len = sl_len s - n\<rparr>)"

fun strcmp_less :: "string \<Rightarrow> string \<Rightarrow> bool res" where
  "strcmp_less (a # as) (b # bs) =
     (if a \<noteq> b then Inr ((of_char a :: nat) < of_char b)
      else if a = CHR 0x00 then Inr False
      else strcmp_less as bs)"
| "strcmp_less _ _ = Inl Undefined"

definition slice_less :: "slice \<Rightarrow> slice \<Rightarrow> bool res" where
  "slice_less l r =
     (case (sl_ptr l, sl_ptr r) of (Some a, Some b) \<Rightarrow> strcmp_less a b | _ \<Rightarrow> Inl Undefined)"

text \<open>\<open>operator<<\<close> of a vector of slices; \<open>size() - 1\<close> wraps for the empty vector.\<close>

fun show_slices_loop :: "slice list \<Rightarrow> string res" where
  "show_slices_loop [] = Inl Undefined"
| "show_slices_loop [a] = slice_string a"
| "show_slices_loop (a # as) =
     bindE (slice_string a) (\<lambda>x. bindE (show_slices_loop as) (\<lambda>r. Inr (''\"'' @ x @ ''\", '' @ r)))"

definition show_slices :: "slice list \<Rightarrow> string res" where
  "show_slices v = bindE (show_slices_loop v) (\<lambda>r. Inr (''[ '' @ r @ '' ]''))"


text \<open>\<open>operator<<\<close> of a map of slices, whose entries come in order.\<close>

fun show_slice_pairs :: "(slice \<times> slice) list \<Rightarrow> string res" where
  "show_slice_pairs [] = Inr []"
| "show_slice_pairs ((k, v) # m) =
     bindE (slice_string k) (\<lambda>x.
     bindE (slice_string v) (\<lambda>y.
     bindE (show_slice_pairs m) (\<lambda>r. Inr (''\"'' @ x @ ''\": \"'' @ y @ ''\", '' @ r))))"

definition show_slice_map :: "(slice \<times> slice) list \<Rightarrow> string res" where
  "show_slice_map m = bindE (show_slice_pairs m) (\<lambda>r. Inr (''{ '' @ r @ '' }''))"

section \<open>Splitting at a byte\<close>

text \<open>Pieces put together again.\<close>

fun glued :: "char \<Rightarrow> string list \<Rightarrow> string" where
  "glued d [] = []"
| "glued d [x] = x"
| "glued d (x # xs) = x @ d # glued d xs"

lemma glued_Cons: "xs \<noteq> [] \<Longrightarrow> glued d (x # xs) = x @ d # glued d xs"
  by (cases xs) simp_all

lemma first_occurrence:
  assumes "d \<in> set xs"
  shows "length (takeWhile ((\<noteq>) d) xs) < length xs" "xs ! length (takeWhile ((\<noteq>) d) xs) = d"
  using assms by (induction xs) auto

lemma find_byte:
  assumes "sl_ptr s = Some bs" "sl_ptr t = Some (d # ds)" "sl_len t = 1"
  shows "i + n \<le> length bs \<Longrightarrow> find_loop s t i n =
    Inr (if d \<in> set (take n (drop i bs)) then Some (of_nat (i + length (takeWhile ((\<noteq>) d) (drop i bs)))) else None)"
proof (induction n arbitrary: i)
  case (Suc n)
  then obtain b rest where d: "drop i bs = b # rest" by (cases "drop i bs") auto
  then have "drop (Suc i) bs = rest" by (metis drop_Suc list.sel(3) tl_drop)
  with Suc.IH [of "Suc i"] Suc.prems d assms show ?case
    by (simp add: memcmp_equal_def advance_def)
qed simp

lemma find_byte_valid:
  assumes "slice_string s = Inr str" "sl_ptr t = Some (d # ds)" "sl_len t = 1"
  shows "slice_find s t = Inr (if d \<in> set str then Some (of_nat (length (takeWhile ((\<noteq>) d) str))) else None)"
proof (cases "sl_ptr s")
  case None
  with assms(1) show ?thesis by (auto simp: slice_string_def slice_find_def split: if_splits)
next
  case (Some bs)
  with assms(1) have b: "unat (sl_len s) \<le> length bs" "str = take (unat (sl_len s)) bs"
    by (auto simp: slice_string_def buf_read_def split: if_splits)
  have "takeWhile ((\<noteq>) d) bs = takeWhile ((\<noteq>) d) str" if "d \<in> set str"
    using that takeWhile_append1 [of d str "(\<noteq>) d" "drop (unat (sl_len s)) bs"] by (simp add: b(2))
  with find_byte [OF Some assms(2,3), of 0] b show ?thesis by (auto simp: slice_find_def)
qed

lemma drop_piece:
  assumes "slice_string s = Inr str" "k < length str"
  obtains s' where "drop_head (of_nat k + 1) s = Inr s'" "slice_string s' = Inr (drop (Suc k) str)"
    "slice_string \<lparr>sl_ptr = sl_ptr s, sl_len = of_nat k\<rparr> = Inr (take k str)"
proof -
  from assms obtain bs where p: "sl_ptr s = Some bs" and le: "unat (sl_len s) \<le> length bs" and t: "str = take (unat (sl_len s)) bs"
    by (auto simp: slice_string_def buf_read_def split: option.splits if_splits)
  from assms(2) t le have k: "k < unat (sl_len s)" by simp
  moreover have "unat (sl_len s) < 2 ^ 64" by (rule order_less_le_trans [OF unsigned_less]) simp
  ultimately have k2: "Suc k < 2 ^ 64" "k < 2 ^ 64" by linarith+
  have "of_nat k + 1 = (of_nat (Suc k) :: 64 word)" by simp
  with k2 have w: "unat (of_nat k + 1 :: 64 word) = Suc k" "unat (of_nat k :: 64 word) = k"
    by (simp_all only: unat_of_nat_u64)
  then have h: "of_nat k + 1 \<le> sl_len s" using k by (simp add: word_le_nat_alt)
  then have "unat (sl_len s - (of_nat k + 1)) = unat (sl_len s) - Suc k" by (simp add: unat_sub w)
  with h k le p w t show thesis
    by (intro that [of "\<lparr>sl_ptr = Some (drop (Suc k) bs), sl_len = sl_len s - (of_nat k + 1)\<rparr>"])
       (simp_all add: drop_head_def advance_def slice_string_def buf_read_def drop_take)
qed

section \<open>Properties\<close>

text \<open>
  C40. Splitting at a single byte ends and gives the parts between its occurrences: none of them
  has the byte, and with the byte between them they make up the text again.
\<close>

theorem split_by_byte:
  assumes "slice_string s = Inr str" "sl_ptr t = Some (d # ds)" "sl_len t = 1"
  shows "\<exists>ps xs. slice_split s t = Some (Inr ps) \<and> map slice_string ps = map Inr xs \<and> xs \<noteq> [] \<and> glued d xs = str \<and>
    (\<forall>x \<in> set xs. d \<notin> set x)"
  using assms(1)
proof (induction "length str" arbitrary: s str rule: less_induct)
  case less
  note find = find_byte_valid [OF less.prems assms(2,3)]
  show ?case
  proof (cases "d \<in> set str")
    case False
    with find less.prems show ?thesis
      by (intro exI [of _ "[s]"] exI [of _ "[str]"]) (simp add: slice_split_def split_loop.simps)
  next
    case True
    let ?k = "length (takeWhile ((\<noteq>) d) str)"
    note k = first_occurrence [OF True]
    from drop_piece [OF less.prems k(1)] obtain s' where s': "drop_head (of_nat ?k + 1) s = Inr s'"
      "slice_string s' = Inr (drop (Suc ?k) str)" "slice_string \<lparr>sl_ptr = sl_ptr s, sl_len = of_nat ?k\<rparr> = Inr (take ?k str)" .
    have "length (drop (Suc ?k) str) < length str" using k(1) by simp
    from less.hyps [OF this s'(2)] obtain ps xs where r: "slice_split s' t = Some (Inr ps)" "map slice_string ps = map Inr xs"
      "xs \<noteq> []" "glued d xs = drop (Suc ?k) str" "\<forall>x \<in> set xs. d \<notin> set x" by blast
    have "take ?k str @ d # drop (Suc ?k) str = str" using id_take_nth_drop [OF k(1)] k(2) by simp
    moreover have "d \<notin> set (take ?k str)" by (auto simp: takeWhile_eq_take [symmetric] dest: set_takeWhileD)
    ultimately show ?thesis
      using find True s' r assms(3)
      by (intro exI [of _ "\<lparr>sl_ptr = sl_ptr s, sl_len = of_nat ?k\<rparr> # ps"] exI [of _ "take ?k str # xs"])
         (simp add: slice_split_def split_loop.simps [of t s] glued_Cons)
  qed
qed


theorem split_by_byte_witness:
  "\<exists>ps xs. slice_split (slice_of_string ''a,b'') (slice_of_string '','') = Some (Inr ps) \<and> map slice_string ps = map Inr xs \<and>
     xs \<noteq> [] \<and> glued (CHR '','') xs = ''a,b'' \<and> (\<forall>x \<in> set xs. CHR '','' \<notin> set x)"
  by (rule split_by_byte [where ds = "[CHR 0x00]"]) (simp_all add: slice_of_string_def slice_string_def buf_read_def)

text \<open>An empty delimiter is found at once, and nothing is dropped.\<close>

definition stuck :: "slice \<Rightarrow> slice \<Rightarrow> bool" where
  "stuck t s \<longleftrightarrow> sl_len t = 0 \<and> sl_ptr t \<noteq> None \<and> sl_ptr s \<noteq> None \<and> sl_len s \<noteq> 0"

lemma advance_0 [simp]: "advance p 0 = p"
  by (simp add: advance_def split: option.splits)

lemma stuck_steps:
  assumes "stuck t s"
  shows "slice_find s t = Inr (Some 0)" "sl_len t = 0" "drop_head 0 s = Inr s"
  using assms by (cases "unat (sl_len s)"; auto simp: stuck_def slice_find_def memcmp_equal_def unat_eq_0 drop_head_def)+

lemma slice_same [simp]: "\<lparr>sl_ptr = sl_ptr s, sl_len = sl_len s\<rparr> = s"
  by simp

lemma split_loop_empty:
  assumes "split_loop t s = Some r"
  shows "\<not> stuck t s"
  by (rule split_loop.raw_induct [OF _ assms]) (auto simp: stuck_steps bind_eq_Some_conv)

lemma count_loop_empty:
  assumes "count_loop t s = Some r"
  shows "\<not> stuck t s"
  by (rule count_loop.raw_induct [OF _ assms]) (auto simp: stuck_steps)

text \<open>Whatever it counts, the result is 0.\<close>

theorem count_always_zero:
  assumes "slice_count s t = Some (Inr n)"
  shows "n = 0"
proof -
  have "\<forall>n. r = Inr n \<longrightarrow> n = 0" if "count_loop t s = Some r" for r
    by (rule count_loop.raw_induct [OF _ that]) (auto split: sum.splits option.splits)
  with assms show ?thesis by (simp add: slice_count_def)
qed

text \<open>Joining the parts of \<open>a,b\<close> again reads each part to the end of the whole text.\<close>

theorem join_ignores_lengths:
  "\<exists>ps. slice_split (slice_of_string ''a,b'') (slice_of_string '','') = Some (Inr ps) \<and>
     slice_join ps (slice_of_string '','') = Inr ''a,b,b''"
proof -
  let ?t = "\<lparr>sl_ptr = Some [CHR '','', CHR 0x00], sl_len = 1\<rparr>"
  have "split_loop ?t \<lparr>sl_ptr = Some [CHR ''b'', CHR 0x00], sl_len = 1\<rparr> =
      Some (Inr [\<lparr>sl_ptr = Some [CHR ''b'', CHR 0x00], sl_len = 1\<rparr>])"
    by (subst split_loop.simps) (simp add: slice_find_def memcmp_equal_def advance_def)
  moreover have "slice_find \<lparr>sl_ptr = Some (''a,b'' @ [CHR 0x00]), sl_len = 3\<rparr> ?t = Inr (Some 1)"
    using find_byte_valid [of "\<lparr>sl_ptr = Some (''a,b'' @ [CHR 0x00]), sl_len = 3\<rparr>" "''a,b''" ?t "CHR '',''" "[CHR 0x00]"]
    by (simp add: slice_string_def buf_read_def)
  ultimately have "split_loop ?t \<lparr>sl_ptr = Some (''a,b'' @ [CHR 0x00]), sl_len = 3\<rparr> =
      Some (Inr [\<lparr>sl_ptr = Some (''a,b'' @ [CHR 0x00]), sl_len = 1\<rparr>, \<lparr>sl_ptr = Some [CHR ''b'', CHR 0x00], sl_len = 1\<rparr>])"
    by (subst split_loop.simps) (simp add: advance_def drop_head_def)
  then show ?thesis
    by (simp add: slice_split_def slice_of_string_def slice_join_def pointed_string_def)
qed

text \<open>
  With an empty delimiter \<open>split\<close> and \<open>count\<close> of a text do not end: the delimiter is found at
  the first byte, and the loop goes on with the same text.
\<close>

theorem empty_delimiter_hangs:
  assumes "sl_len t = 0" "sl_ptr t \<noteq> None" "sl_ptr s \<noteq> None" "sl_len s \<noteq> 0"
  shows "slice_split s t = None \<and> slice_count s t = None"
proof -
  have "stuck t s" using assms by (simp add: stuck_def)
  then show ?thesis
    using split_loop_empty [of t s] count_loop_empty [of t s]
    by (cases "split_loop t s"; cases "count_loop t s") (auto simp: slice_split_def slice_count_def)
qed

theorem empty_delimiter_hangs_witness:
  "slice_split (slice_of_string ''a'') (slice_of_string []) = None \<and>
     slice_count (slice_of_string ''a'') (slice_of_string []) = None"
  by (rule empty_delimiter_hangs) (simp_all add: slice_of_string_def)

end
