(* ===== verification/Reir_Llvm.thy ===== *)
theory Reir_Llvm
  imports Reir_Context Reir_Metadata
begin

text \<open>
  What the code generator sees of LLVM: the calls it makes. A value is the builder call that
  made it, with the number of that call as its identity; an instruction is appended to the
  block the builder points at. Nothing of LLVM itself is defined here: the type of a value, the
  printed form of a type and its size in bits are fields of the record \<open>llvm\<close>, an argument
  of the generator. A pointer that may be null is an \<open>option\<close>.
\<close>

section \<open>Types and values\<close>

text \<open>A named struct is identified by the number of its creation.\<close>

datatype llty =
    LI1 | LI8 | LI32 | LI64 | LDouble | LVoid
  | LPtr llty
  | LStruct nat string "llty list"
  | LArray nat llty

record llfun =
  fn_name :: string
  fn_ret :: llty
  fn_args :: "llty list"

datatype lop =
    OpAlloca llty string | OpLoad | OpAdd | OpSub | OpMul | OpSDiv | OpSRem
  | OpICmpEQ | OpICmpNE | OpICmpSLT | OpICmpSLE | OpICmpSGT | OpICmpSGE
  | OpInBoundsGEP | OpBitCast llty | OpInsertValue nat | OpCall llfun | OpPHI llty

datatype llval =
    LConst llty "64 word"
  | LGlobalString nat string
  | LConstStruct llty "llval list"
  | LUndef llty
  | LHostPtr string
  | LRes nat lop "llval list"

datatype ins =
    IVal llval
  | IStore llval llval
  | IMemCpy llval llval "64 word"
  | IBr nat
  | ICondBr llval nat nat
  | IRet llval
  | IIncoming llval llval nat

record llvm =
  getType :: "llval \<Rightarrow> llty"
  print_type :: "llty \<Rightarrow> string"
  prim_bits :: "llty \<Rightarrow> nat"

fun isStructTy :: "llty \<Rightarrow> bool" where
  "isStructTy (LStruct _ _ _) = True"
| "isStructTy _ = False"

fun isPointerTy :: "llty \<Rightarrow> bool" where
  "isPointerTy (LPtr _) = True"
| "isPointerTy _ = False"

definition isIntegerTy :: "llty \<Rightarrow> bool" where
  "isIntegerTy t \<longleftrightarrow> t \<in> {LI1, LI8, LI32, LI64}"

section \<open>The state of the generator\<close>

text \<open>
  A node of the tree is named by its path from the root, which stands for its address in
  \<open>stack_table_\<close>. The mutable members of \<open>Insert\<close> and \<open>Scan\<close> are kept per node; a
  scan's \<open>prefix_begin_\<close> is \<open>nr_prefix\<close>.
\<close>

type_synonym path = "nat list"

record node_regs =
  nr_prefix :: "llval option"
  nr_prefix_end :: "llval option"
  nr_key_stack :: "llval option"
  nr_value_stack :: "llval option"
  nr_tuple_stack :: "llval option"

definition node_regs_new :: node_regs where
  "node_regs_new = \<lparr>nr_prefix = None, nr_prefix_end = None, nr_key_stack = None,
     nr_value_stack = None, nr_tuple_stack = None\<rparr>"

record 'db cg =
  cg_ctx :: cctx
  cg_md :: "'db metadata"
  cg_types :: "(string, llty) pmap"
  cg_functions :: "(string, llfun) pmap"
  cg_vars :: "(string, llval) pmap"
  cg_stack :: "(path, llval) pmap"
  cg_globals :: "string \<rightharpoonup> llval"
  cg_nodes :: "path \<Rightarrow> node_regs"
  cg_structs :: "llty list"
  cg_blocks :: "string list"
  cg_point :: "nat option"
  cg_code :: "(nat \<times> ins) list"
  cg_count :: nat

definition cg_new :: "'db metadata \<Rightarrow> 'db cg" where
  "cg_new md = \<lparr>cg_ctx = CompilerContext_new, cg_md = md, cg_types = Map.empty, cg_functions = Map.empty,
     cg_vars = Map.empty, cg_stack = Map.empty, cg_globals = Map.empty, cg_nodes = (\<lambda>_. node_regs_new),
     cg_structs = [], cg_blocks = [], cg_point = None, cg_code = [], cg_count = 0\<rparr>"

section \<open>Sequencing\<close>

type_synonym ('s, 'a) st = "'s \<Rightarrow> ('a \<times> 's) res"

definition bindM :: "('s, 'a) st \<Rightarrow> ('a \<Rightarrow> ('s, 'b) st) \<Rightarrow> ('s, 'b) st" where
  "bindM m f s = bindE (m s) (\<lambda>(x, s'). f x s')"

definition returnM :: "'a \<Rightarrow> ('s, 'a) st" where
  "returnM x s = Inr (x, s)"

definition throwM :: "err \<Rightarrow> ('s, 'a) st" where
  "throwM e s = Inl e"

definition getM :: "('s \<Rightarrow> 'a) \<Rightarrow> ('s, 'a) st" where
  "getM f s = Inr (f s, s)"

definition modM :: "('s \<Rightarrow> 's) \<Rightarrow> ('s, unit) st" where
  "modM f s = Inr ((), f s)"

definition liftM :: "'a res \<Rightarrow> ('s, 'a) st" where
  "liftM r s = bindE r (\<lambda>x. Inr (x, s))"

text \<open>A pointer is followed: undefined behaviour when it is null.\<close>

definition needM :: "'a option \<Rightarrow> ('s, 'a) st" where
  "needM p s = (case p of None \<Rightarrow> Inl Undefined | Some x \<Rightarrow> Inr (x, s))"

definition bindP :: "('s, 'a option) st \<Rightarrow> ('a \<Rightarrow> ('s, 'b) st) \<Rightarrow> ('s, 'b) st" where
  "bindP m f = bindM m (\<lambda>p. bindM (needM p) f)"

fun eachM :: "('a \<Rightarrow> ('s, unit) st) \<Rightarrow> 'a list \<Rightarrow> ('s, unit) st" where
  "eachM f [] = returnM ()"
| "eachM f (x # xs) = bindM (f x) (\<lambda>_. eachM f xs)"

text \<open>\<open>table[key]\<close> on the tables of the context.\<close>

definition types_index :: "string \<Rightarrow> ('db cg, llty option) st" where
  "types_index k c = (case pmap_index (cg_types c) k of (p, m) \<Rightarrow> Inr (p, c\<lparr>cg_types := m\<rparr>))"

definition functions_index :: "string \<Rightarrow> ('db cg, llfun option) st" where
  "functions_index k c = (case pmap_index (cg_functions c) k of (p, m) \<Rightarrow> Inr (p, c\<lparr>cg_functions := m\<rparr>))"

definition vars_index :: "string \<Rightarrow> ('db cg, llval option) st" where
  "vars_index k c = (case pmap_index (cg_vars c) k of (p, m) \<Rightarrow> Inr (p, c\<lparr>cg_vars := m\<rparr>))"

definition stack_index :: "path \<Rightarrow> ('db cg, llval option) st" where
  "stack_index k c = (case pmap_index (cg_stack c) k of (p, m) \<Rightarrow> Inr (p, c\<lparr>cg_stack := m\<rparr>))"

definition schema_index :: "string \<Rightarrow> ('db cg, schema option) st" where
  "schema_index k c = (case pmap_index (cx_local_schema (cg_ctx c)) k of (p, m) \<Rightarrow>
     Inr (p, c\<lparr>cg_ctx := (cg_ctx c)\<lparr>cx_local_schema := m\<rparr>\<rparr>))"

definition set_types :: "string \<Rightarrow> llty option \<Rightarrow> ('db cg, unit) st" where
  "set_types k t = modM (\<lambda>c. c\<lparr>cg_types := (cg_types c)(k \<mapsto> t)\<rparr>)"

definition set_functions :: "string \<Rightarrow> llfun \<Rightarrow> ('db cg, unit) st" where
  "set_functions k g = modM (\<lambda>c. c\<lparr>cg_functions := (cg_functions c)(k \<mapsto> Some g)\<rparr>)"

definition set_vars :: "string \<Rightarrow> llval \<Rightarrow> ('db cg, unit) st" where
  "set_vars k v = modM (\<lambda>c. c\<lparr>cg_vars := (cg_vars c)(k \<mapsto> Some v)\<rparr>)"

definition set_stack :: "path \<Rightarrow> llval \<Rightarrow> ('db cg, unit) st" where
  "set_stack k v = modM (\<lambda>c. c\<lparr>cg_stack := (cg_stack c)(k \<mapsto> Some v)\<rparr>)"

definition set_node :: "path \<Rightarrow> (node_regs \<Rightarrow> node_regs) \<Rightarrow> ('db cg, unit) st" where
  "set_node p f = modM (\<lambda>c. c\<lparr>cg_nodes := (cg_nodes c)(p := f (cg_nodes c p))\<rparr>)"

section \<open>Builder calls\<close>

text \<open>An instruction goes to the block the builder points at, if there is one.\<close>

definition log_ins :: "ins \<Rightarrow> ('db cg, unit) st" where
  "log_ins i = modM (\<lambda>c. case cg_point c of None \<Rightarrow> c | Some b \<Rightarrow> c\<lparr>cg_code := cg_code c @ [(b, i)]\<rparr>)"

definition freshM :: "('db cg, nat) st" where
  "freshM c = Inr (cg_count c, c\<lparr>cg_count := Suc (cg_count c)\<rparr>)"

definition emit_val :: "lop \<Rightarrow> llval list \<Rightarrow> ('db cg, llval) st" where
  "emit_val op args =
     bindM freshM (\<lambda>n.
     bindM (log_ins (IVal (LRes n op args))) (\<lambda>_.
     returnM (LRes n op args)))"

definition BasicBlock_Create :: "string \<Rightarrow> ('db cg, nat) st" where
  "BasicBlock_Create name c = Inr (length (cg_blocks c), c\<lparr>cg_blocks := cg_blocks c @ [name]\<rparr>)"

definition SetInsertPoint :: "nat \<Rightarrow> ('db cg, unit) st" where
  "SetInsertPoint b = modM (\<lambda>c. c\<lparr>cg_point := Some b\<rparr>)"

definition CreateGlobalStringPtr :: "string \<Rightarrow> ('db cg, llval) st" where
  "CreateGlobalStringPtr s = bindM freshM (\<lambda>n. returnM (LGlobalString n s))"

text \<open>
  \<open>StructType::create\<close> makes a new type each time; of several with one name the first keeps
  it, and \<open>getTypeByName\<close> finds that one.
\<close>

definition StructType_create :: "string \<Rightarrow> llty list \<Rightarrow> ('db cg, llty) st" where
  "StructType_create name ts c =
     (let t = LStruct (length (cg_structs c)) name ts in Inr (t, c\<lparr>cg_structs := cg_structs c @ [t]\<rparr>))"

definition getTypeByName :: "string \<Rightarrow> ('db cg, llty option) st" where
  "getTypeByName name =
     getM (\<lambda>c. List.find (\<lambda>t. case t of LStruct _ n _ \<Rightarrow> n = name | _ \<Rightarrow> False) (cg_structs c))"

text \<open>\<open>get_ptr(ctx, p)\<close>: the address of an object of the compiler as a constant.\<close>

definition get_ptr :: "string \<Rightarrow> llval" where
  "get_ptr what = LHostPtr what"

abbreviation getInt64 :: "64 word \<Rightarrow> llval" where
  "getInt64 w \<equiv> LConst LI64 w"

abbreviation getInt32 :: "32 word \<Rightarrow> llval" where
  "getInt32 w \<equiv> LConst LI32 (ucast w)"

section \<open>What is relied on\<close>

text \<open>
  LLVM's documented typing of the values the generator makes and the size of its 64-bit integers, as a predicate on the record
  \<open>llvm\<close>, and a record that satisfies it.
\<close>

definition arithmetic_ops :: "lop set" where
  "arithmetic_ops = {OpAdd, OpSub, OpMul, OpSDiv, OpSRem}"

definition icmp_ops :: "lop set" where
  "icmp_ops = {OpICmpEQ, OpICmpNE, OpICmpSLT, OpICmpSLE, OpICmpSGT, OpICmpSGE}"

definition llvm_types :: "llvm \<Rightarrow> bool" where
  "llvm_types L \<longleftrightarrow>
     (\<forall>t w. getType L (LConst t w) = t) \<and>
     (\<forall>n s. getType L (LGlobalString n s) = LPtr LI8) \<and>
     (\<forall>t vs. getType L (LConstStruct t vs) = t) \<and>
     (\<forall>t. getType L (LUndef t) = t) \<and>
     (\<forall>s. getType L (LHostPtr s) = LPtr LI64) \<and>
     (\<forall>n t nm. getType L (LRes n (OpAlloca t nm) []) = LPtr t) \<and>
     (\<forall>n p t. getType L p = LPtr t \<longrightarrow> getType L (LRes n OpLoad [p]) = t) \<and>
     (\<forall>n op a b. op \<in> arithmetic_ops \<longrightarrow> getType L (LRes n op [a, b]) = getType L a) \<and>
     (\<forall>n op a b. op \<in> icmp_ops \<longrightarrow> getType L (LRes n op [a, b]) = LI1) \<and>
     (\<forall>n p i t. getType L p = LPtr t \<longrightarrow> getType L (LRes n OpInBoundsGEP [p, i]) = LPtr t) \<and>
     (\<forall>n p i j k t. getType L p = LPtr (LArray k t) \<longrightarrow> getType L (LRes n OpInBoundsGEP [p, i, j]) = LPtr t) \<and>
     (\<forall>n t v. getType L (LRes n (OpBitCast t) [v]) = t) \<and>
     (\<forall>n i a b. getType L (LRes n (OpInsertValue i) [a, b]) = getType L a) \<and>
     (\<forall>n f args. getType L (LRes n (OpCall f) args) = fn_ret f) \<and>
     (\<forall>n t. getType L (LRes n (OpPHI t) []) = t) \<and>
     prim_bits L LI64 = 64"

fun pointee :: "llty \<Rightarrow> llty" where
  "pointee (LPtr t) = t"
| "pointee t = LVoid"

fun element_type :: "llty \<Rightarrow> llty" where
  "element_type (LArray _ t) = t"
| "element_type t = LVoid"

fun result_type :: "lop \<Rightarrow> llty list \<Rightarrow> llty" where
  "result_type (OpAlloca t _) ts = LPtr t"
| "result_type OpLoad ts = pointee (hd ts)"
| "result_type OpInBoundsGEP [t, _] = t"
| "result_type OpInBoundsGEP (t # _) = LPtr (element_type (pointee t))"
| "result_type (OpBitCast t) ts = t"
| "result_type (OpInsertValue _) ts = hd ts"
| "result_type (OpCall f) ts = fn_ret f"
| "result_type (OpPHI t) ts = t"
| "result_type op ts = (if op \<in> icmp_ops then LI1 else hd ts)"

fun value_type :: "llval \<Rightarrow> llty" where
  "value_type (LConst t _) = t"
| "value_type (LGlobalString _ _) = LPtr LI8"
| "value_type (LConstStruct t _) = t"
| "value_type (LUndef t) = t"
| "value_type (LHostPtr _) = LPtr LI64"
| "value_type (LRes _ op args) = result_type op (map value_type args)"

fun type_bits :: "llty \<Rightarrow> nat" where
  "type_bits LI1 = 1"
| "type_bits LI8 = 8"
| "type_bits LI32 = 32"
| "type_bits LI64 = 64"
| "type_bits LDouble = 64"
| "type_bits _ = 0"

fun type_text :: "llty \<Rightarrow> string" where
  "type_text LI1 = ''i1''"
| "type_text LI8 = ''i8''"
| "type_text LI32 = ''i32''"
| "type_text LI64 = ''i64''"
| "type_text LDouble = ''double''"
| "type_text LVoid = ''void''"
| "type_text (LPtr t) = type_text t @ ''*''"
| "type_text (LStruct _ n ts) = ''%'' @ n"
| "type_text (LArray n t) = ''['' @ show_nat n @ '' x '' @ type_text t @ '']''"

definition sample_llvm :: llvm where
  "sample_llvm = \<lparr>getType = value_type, print_type = type_text, prim_bits = type_bits\<rparr>"

lemma sample_llvm_types: "llvm_types sample_llvm"
  by (auto simp: llvm_types_def sample_llvm_def arithmetic_ops_def icmp_ops_def)

end
