(* ===== verification/Reir_Codegen_Expr.thy ===== *)
theory Reir_Codegen_Expr
  imports Reir_Llvm
begin

text \<open>
  Code generation for expressions, \<^verbatim>\<open>src/reir/exec/ast_expression_codegen.cpp\<close>:
  \<open>get_type\<close>, \<open>get_value\<close> and \<open>get_ref\<close> of the expression classes, with one equation
  per class. C++ leaves the order of the two operands of a comparison open; the model takes
  them from left to right. The debug output of \<open>value_emitter\<close> is left out.
\<close>

section \<open>Types\<close>

definition value_emitter :: "llvm \<Rightarrow> maybe_value \<Rightarrow> ('db cg, llval) st" where
  "value_emitter L v =
     (if mv_exists v
      then if is_int (mv_value v)
           then bindM (liftM (as_int (mv_value v))) (\<lambda>i. returnM (getInt64 i))
           else if is_varchar (mv_value v)
           then bindM (liftM (as_varchar (mv_value v))) (\<lambda>str.
                bindM (types_index ''string'') (\<lambda>string_type.
                bindM (CreateGlobalStringPtr str) (\<lambda>head.
                bindM (needM string_type) (\<lambda>string_struct.
                returnM (LConstStruct string_struct [head, getInt64 (of_nat (length str))])))))
           else throwM (RuntimeError ''unsupported value'')
      else returnM (LConst LI8 0))"

definition convert_type :: "ty \<Rightarrow> ('db cg, llty option) st" where
  "convert_type t =
     (case ty_id t of
        TY_INTEGER \<Rightarrow> returnM (Some LI64)
      | TY_STRING \<Rightarrow> types_index ''string''
      | TY_DOUBLE \<Rightarrow> returnM (Some LDouble)
      | TY_NONE_TYPE \<Rightarrow> throwM (RuntimeError ''unknown type'')
      | u \<Rightarrow> throwM (RuntimeError (''convert_type: unknown type: '' @ type_to_string u)))"

definition PrimaryExpression_get_type :: "maybe_value \<Rightarrow> ('db cg, llty option) st" where
  "PrimaryExpression_get_type v =
     (if mv_exists v
      then if is_int (mv_value v) then returnM (Some LI64)
           else if is_varchar (mv_value v) then types_index ''string''
           else if is_float (mv_value v) then returnM (Some LDouble)
           else throwM (RuntimeError ''unknown type'')
      else returnM (Some LI32))"

text \<open>The name behind \<open>reinterpret_cast<VariableReference*>(parent_)\<close>.\<close>

fun variable_name :: "expr \<Rightarrow> string option" where
  "variable_name (VariableReference _ n) = Some n"
| "variable_name _ = None"

definition find_function :: "expr \<Rightarrow> ('db cg, llfun option) st" where
  "find_function parent =
     bindM (needM (variable_name parent)) (\<lambda>name.
     bindM (getM cg_functions) (\<lambda>table.
     case table name of
       None \<Rightarrow> throwM (RuntimeError (''undefined function: '' @ name))
     | Some f \<Rightarrow> returnM f))"

definition VariableReference_get_type :: "llvm \<Rightarrow> string \<Rightarrow> ('db cg, llty option) st" where
  "VariableReference_get_type L name =
     bindM (getM cg_vars) (\<lambda>table.
     case table name of
       None \<Rightarrow> throwM (RuntimeError (''get_type() value: '' @ name @ '' not defined''))
     | Some p \<Rightarrow>
         bindM (needM p) (\<lambda>v.
         case getType L v of
           LPtr t \<Rightarrow> returnM (Some t)
         | _ \<Rightarrow> throwM AssertFailed))"

fun get_type :: "llvm \<Rightarrow> expr \<Rightarrow> ('db cg, llty option) st"
and get_type_signature :: "llvm \<Rightarrow> expr list \<Rightarrow> ('db cg, string) st"
and element_types :: "llvm \<Rightarrow> expr list \<Rightarrow> ('db cg, llty list) st" where
  "get_type L (PrimaryExpression _ v) = PrimaryExpression_get_type v"
| "get_type L (PrimaryNested _ e) = get_type L e"
| "get_type L (BinaryExpression _ op l r) =
     bindM (get_type L r) (\<lambda>a.
     bindM (get_type L l) (\<lambda>b.
     if a \<noteq> b then throwM (RuntimeError ''binary operation can't do with different types'')
     else get_type L r))"
| "get_type L (PointerOf _ None) = throwM Undefined"
| "get_type L (PointerOf _ (Some e)) = bindP (get_type L e) (\<lambda>t. returnM (Some (LPtr t)))"
| "get_type L (RowLiteral _ es) =
     bindM (get_type_signature L es) (\<lambda>elems.
     let sign = ''{'' @ elems @ ''}''
     in bindM (getM cg_types) (\<lambda>table.
        case table sign of
          Some t \<Rightarrow> returnM t
        | None \<Rightarrow>
            bindM (element_types L es) (\<lambda>types.
            bindM (StructType_create sign types) (\<lambda>new_type.
            bindM (set_types sign (Some new_type)) (\<lambda>_.
            returnM (Some new_type))))))"
| "get_type L (ArrayLiteral _ []) =
     throwM (RuntimeError ''zero-length array-literal cannot be defined'')"
| "get_type L (ArrayLiteral _ (e # es)) =
     bindP (get_type L e) (\<lambda>t. returnM (Some (LArray (Suc (length es)) t)))"
| "get_type L (VariableReference _ n) = VariableReference_get_type L n"
| "get_type L (FunctionCall _ p as) = bindP (find_function p) (\<lambda>f. returnM (Some (fn_ret f)))"
| "get_type L (ArrayReference _ None i) = throwM Undefined"
| "get_type L (ArrayReference _ (Some p) i) =
     bindP (get_type L p) (\<lambda>t. case t of LArray _ u \<Rightarrow> returnM (Some u) | _ \<Rightarrow> throwM Undefined)"
| "get_type L (MemberReference t p n off) = bindM (needM t) convert_type"
| "get_type L (Assign _ a v) = get_type L v"
| "get_type_signature L [] = returnM []"
| "get_type_signature L (e # es) =
     bindP (get_type L e) (\<lambda>t.
     bindM (get_type_signature L es) (\<lambda>s.
     returnM (print_type L t @ '','' @ s)))"
| "element_types L [] = returnM []"
| "element_types L (e # es) =
     bindP (get_type L e) (\<lambda>t. bindM (element_types L es) (\<lambda>ts. returnM (t # ts)))"

section \<open>Values\<close>

text \<open>The instruction of an operator that evaluates both operands first.\<close>

fun operator_lop :: "operators \<Rightarrow> lop option" where
  "operator_lop OP_PLUS = Some OpAdd"
| "operator_lop OP_MINUS = Some OpSub"
| "operator_lop OP_MULTIPLE = Some OpMul"
| "operator_lop OP_DIVISION = Some OpSDiv"
| "operator_lop OP_EQUAL = Some OpICmpEQ"
| "operator_lop OP_MODULO = Some OpSRem"
| "operator_lop OP_LESSTHAN = Some OpICmpSLT"
| "operator_lop OP_LESSEQUAL = Some OpICmpSLE"
| "operator_lop OP_MORETHAN = Some OpICmpSGT"
| "operator_lop OP_MOREEQUAL = Some OpICmpSGE"
| "operator_lop OP_NOTEQUAL = Some OpICmpNE"
| "operator_lop _ = None"

definition to_i1 :: "llvm \<Rightarrow> llval \<Rightarrow> ('db cg, llval) st" where
  "to_i1 L lh = (if getType L lh \<noteq> LI1 then emit_val OpICmpNE [lh, getInt64 0] else returnM lh)"

text \<open>\<open>lhs\<close> and \<open>rhs\<close> are the operands' \<open>get_value\<close>.\<close>

definition get_conditional_value ::
    "llvm \<Rightarrow> ('db cg, llval option) st \<Rightarrow> ('db cg, llval option) st \<Rightarrow> bool \<Rightarrow> ('db cg, llval) st" where
  "get_conditional_value L lhs rhs forAND =
     bindM (BasicBlock_Create ''bin_next'') (\<lambda>next.
     bindM (BasicBlock_Create ''bin_fin'') (\<lambda>fin.
     bindP lhs (\<lambda>v.
     bindM (to_i1 L v) (\<lambda>lh.
     bindM (log_ins (ICondBr lh (if forAND then next else fin) (if forAND then fin else next))) (\<lambda>_.
     bindM (bindP (getM cg_point) returnM) (\<lambda>current.
     bindM (SetInsertPoint next) (\<lambda>_.
     bindP rhs (\<lambda>v.
     bindM (to_i1 L v) (\<lambda>rh.
     bindM (log_ins (IBr fin)) (\<lambda>_.
     bindM (bindP (getM cg_point) returnM) (\<lambda>next'.
     bindM (SetInsertPoint fin) (\<lambda>_.
     bindM (emit_val (OpPHI LI1) []) (\<lambda>phi_node.
     bindM (log_ins (IIncoming phi_node lh current)) (\<lambda>_.
     bindM (log_ins (IIncoming phi_node rh next')) (\<lambda>_.
     returnM phi_node)))))))))))))))"

text \<open>\<open>getPointerOperand\<close> of a load; any other value read as a load is undefined.\<close>

fun pointer_operand :: "llval \<Rightarrow> llval option" where
  "pointer_operand (LRes _ OpLoad [p]) = Some p"
| "pointer_operand _ = None"

definition VariableReference_get_ref :: "string \<Rightarrow> ('db cg, llval option) st" where
  "VariableReference_get_ref name =
     bindM (getM cg_vars) (\<lambda>table.
     case table name of
       None \<Rightarrow> throwM (RuntimeError (''value: '' @ name @ '' not defined''))
     | Some p \<Rightarrow> returnM p)"

definition MemberReference_get_ref :: "expr \<Rightarrow> 64 word option \<Rightarrow> ('db cg, llval option) st" where
  "MemberReference_get_ref parent off =
     bindM (needM (variable_name parent)) (\<lambda>name.
     bindM (vars_index name) (\<lambda>ptr.
     bindM (needM off) (\<lambda>i.
     bindM (needM ptr) (\<lambda>v.
     bindM (emit_val OpInBoundsGEP [v, getInt32 0, getInt32 (ucast i)]) (\<lambda>r.
     returnM (Some r))))))"

text \<open>How \<open>FunctionCall::get_value\<close> passes one argument; \<open>a\<close> is the argument's node.\<close>

definition pass_argument :: "llvm \<Rightarrow> path \<Rightarrow> llval \<Rightarrow> ('db cg, llval) st" where
  "pass_argument L a v =
     (let t = getType L v
      in if isIntegerTy t then returnM v
         else if isStructTy t
         then bindP (stack_index a) (\<lambda>stack.
              bindM (log_ins (IStore v stack)) (\<lambda>_.
              returnM stack))
         else case t of
                LPtr u \<Rightarrow> if isIntegerTy u then emit_val OpLoad [v] else returnM v
              | _ \<Rightarrow> throwM (RuntimeError (''unexpected argument type: '' @ print_type L t)))"

text \<open>One element of a row: its code is generated once to look at its type and once more to be inserted.\<close>

definition insert_element ::
    "llvm \<Rightarrow> ('db cg, llval option) st \<Rightarrow> nat \<Rightarrow> llval \<Rightarrow> ('db cg, llval) st" where
  "insert_element L elem i prev =
     bindP elem (\<lambda>v.
     if isPointerTy (getType L v)
     then bindP elem (\<lambda>w.
          bindM (emit_val OpLoad [w]) (\<lambda>val.
          emit_val (OpInsertValue i) [prev, val]))
     else bindP elem (\<lambda>w. emit_val (OpInsertValue i) [prev, w]))"

definition load_ref :: "('db cg, llval option) st \<Rightarrow> ('db cg, llval option) st" where
  "load_ref r = bindP r (\<lambda>p. bindM (emit_val OpLoad [p]) (\<lambda>v. returnM (Some v)))"

function (sequential) get_value :: "llvm \<Rightarrow> path \<Rightarrow> expr \<Rightarrow> ('db cg, llval option) st"
and get_ref :: "llvm \<Rightarrow> path \<Rightarrow> expr \<Rightarrow> ('db cg, llval option) st"
and args_value :: "llvm \<Rightarrow> path \<Rightarrow> nat \<Rightarrow> expr list \<Rightarrow> ('db cg, llval list) st"
and row_value :: "llvm \<Rightarrow> path \<Rightarrow> nat \<Rightarrow> expr list \<Rightarrow> llval \<Rightarrow> ('db cg, llval) st"
and array_value :: "llvm \<Rightarrow> path \<Rightarrow> nat \<Rightarrow> expr list \<Rightarrow> llval \<Rightarrow> ('db cg, llval) st" where
  "get_value L p (PrimaryExpression _ v) = bindM (value_emitter L v) (\<lambda>x. returnM (Some x))"
| "get_value L p (PrimaryNested _ e) = returnM None"
| "get_value L p (BinaryExpression _ op l r) =
     (if op = OP_CONDITIONAL_AND \<or> op = OP_CONDITIONAL_OR
      then bindM (get_conditional_value L (get_value L (p @ [0]) l) (get_value L (p @ [1]) r)
             (op = OP_CONDITIONAL_AND)) (\<lambda>x. returnM (Some x))
      else bindM (get_value L (p @ [0]) l) (\<lambda>lh.
           bindM (get_value L (p @ [1]) r) (\<lambda>rh.
           case operator_lop op of
             None \<Rightarrow> throwM (RuntimeError ''unknown operator compiled'')
           | Some lop \<Rightarrow>
               bindM (needM lh) (\<lambda>a.
               bindM (needM rh) (\<lambda>b.
               bindM (emit_val lop [a, b]) (\<lambda>x.
               returnM (Some x)))))))"
| "get_value L p (PointerOf _ None) = throwM Undefined"
| "get_value L p (PointerOf _ (Some e)) =
     bindP (get_value L (p @ [0]) e) (\<lambda>v. bindM (needM (pointer_operand v)) (\<lambda>q. returnM (Some q)))"
| "get_value L p (RowLiteral _ es) =
     bindM (get_type_signature L es) (\<lambda>sign.
     bindM (get_type_signature L es) (\<lambda>sign'.
     bindM (getTypeByName (''{'' @ sign' @ ''}'')) (\<lambda>type.
     case type of
       None \<Rightarrow> throwM AssertFailed
     | Some t \<Rightarrow> bindM (row_value L p 0 es (LUndef t)) (\<lambda>v. returnM (Some v)))))"
| "get_value L p (ArrayLiteral u es) =
     bindP (get_type L (ArrayLiteral u es)) (\<lambda>t.
     bindM (array_value L p 0 es (LUndef t)) (\<lambda>v. returnM (Some v)))"
| "get_value L p (FunctionCall _ q as) =
     bindM (find_function q) (\<lambda>f.
     bindM (args_value L p 1 as) (\<lambda>args.
     bindM (needM f) (\<lambda>g.
     bindM (emit_val (OpCall g) args) (\<lambda>v.
     returnM (Some v)))))"
| "get_value L p (Assign _ a v) =
     bindM (get_ref L (p @ [0]) a) (\<lambda>target.
     bindM (get_value L (p @ [1]) v) (\<lambda>x.
     bindM (needM x) (\<lambda>x.
     bindM (needM target) (\<lambda>target.
     bindM (log_ins (IStore x target)) (\<lambda>_.
     bindM (emit_val OpLoad [target]) (\<lambda>r.
     returnM (Some r)))))))"
| "get_value L p e = load_ref (get_ref L p e)"
| "get_ref L p (VariableReference _ n) = VariableReference_get_ref n"
| "get_ref L p (ArrayReference _ None i) = throwM Undefined"
| "get_ref L p (ArrayReference _ (Some q) i) =
     bindP (get_value L (p @ [0]) q) (\<lambda>arr.
     bindP (get_value L (p @ [1]) i) (\<lambda>idx.
     bindM (needM (pointer_operand arr)) (\<lambda>base.
     bindM (emit_val OpInBoundsGEP [base, getInt64 0, idx]) (\<lambda>r.
     returnM (Some r)))))"
| "get_ref L p (MemberReference _ q n off) = MemberReference_get_ref q off"
| "get_ref L p _ = returnM None"
| "args_value L p i [] = returnM []"
| "args_value L p i (a # as) =
     bindP (get_value L (p @ [i]) a) (\<lambda>v.
     bindM (pass_argument L (p @ [i]) v) (\<lambda>x.
     bindM (args_value L p (Suc i) as) (\<lambda>xs.
     returnM (x # xs))))"
| "row_value L p i [] prev = returnM prev"
| "row_value L p i (e # es) prev =
     bindM (insert_element L (get_value L (p @ [i]) e) i prev) (\<lambda>prev.
     row_value L p (Suc i) es prev)"
| "array_value L p i [] prev = returnM prev"
| "array_value L p i (e # es) prev =
     bindP (get_value L (p @ [i]) e) (\<lambda>v.
     bindM (emit_val (OpInsertValue i) [prev, v]) (\<lambda>prev.
     array_value L p (Suc i) es prev))"
  by pat_completeness auto

text \<open>\<open>get_value\<close> calls \<open>get_ref\<close> on the same node, and \<open>get_ref\<close> goes to smaller ones.\<close>

termination
  by (relation "measure (\<lambda>x. case x of
        Inl (Inl (L, p, e)) \<Rightarrow> Suc (2 * size e)
      | Inl (Inr (L, p, e)) \<Rightarrow> 2 * size e
      | Inr (Inl (L, p, i, es)) \<Rightarrow> 2 * size_list size es
      | Inr (Inr (Inl (L, p, i, es, v))) \<Rightarrow> 2 * size_list size es
      | Inr (Inr (Inr (L, p, i, es, v))) \<Rightarrow> 2 * size_list size es)")
     auto

end
