(* ===== verification/Reir_Db_Interface.thy ===== *)
theory Reir_Db_Interface
  imports Reir_Llvm
begin

text \<open>
  \<^verbatim>\<open>src/reir/exec/db_interface.cpp\<close>: the functions of the storage engine as they are
  declared to LLVM, and the calls the generator emits to them. A \<open>FoedusCursor\<close> holds one
  value, and is that value here. \<open>emit_update\<close>, \<open>emit_delete\<close> and \<open>emit_scan\<close> have
  empty bodies.
\<close>

definition declare_function :: "string \<Rightarrow> string \<Rightarrow> llty \<Rightarrow> llty list \<Rightarrow> ('db cg, unit) st" where
  "declare_function key name ret args =
     set_functions key \<lparr>fn_name = name, fn_ret = ret, fn_args = args\<rparr>"

definition define_functions :: "('db cg, unit) st" where
  "define_functions =
     bindM (declare_function ''__begin_xct'' ''begin_xct'' LI1 [LPtr LI64]) (\<lambda>_.
     bindM (declare_function ''__precommit_xct'' ''precommit_xct'' LI1 [LPtr LI64]) (\<lambda>_.
     bindM (declare_function ''__insert'' ''foedus_insert'' LI1 [LPtr LI64, LPtr LI8, LI64, LPtr LI8, LI64]) (\<lambda>_.
     bindM (declare_function ''__get_cursor'' ''foedus_generate_cursor'' (LPtr LI64)
              [LPtr LI64, LPtr LI8, LI64, LPtr LI8, LI64]) (\<lambda>_.
     bindM (declare_function ''__cursor_next'' ''foedus_cursor_next'' LI1 [LPtr LI64]) (\<lambda>_.
     bindM (declare_function ''__cursor_is_valid'' ''foedus_cursor_is_valid'' LI1 [LPtr LI64]) (\<lambda>_.
     bindM (declare_function ''__cursor_copy_key'' ''foedus_cursor_copy_key'' LVoid [LPtr LI64, LPtr LI8]) (\<lambda>_.
     bindM (declare_function ''__cursor_copy_value'' ''foedus_cursor_copy_value'' LVoid [LPtr LI64, LPtr LI8]) (\<lambda>_.
     declare_function ''__cursor_destroy'' ''foedus_cursor_destroy'' LVoid [LPtr LI64]))))))))"

definition call_runtime :: "string \<Rightarrow> llval list \<Rightarrow> ('db cg, llval) st" where
  "call_runtime key args = bindP (functions_index key) (\<lambda>f. emit_val (OpCall f) args)"

definition emit_begin_txn :: "('db cg, unit) st" where
  "emit_begin_txn = bindM (call_runtime ''__begin_xct'' [get_ptr ''arg'']) (\<lambda>_. returnM ())"

definition emit_precommit_txn :: "('db cg, unit) st" where
  "emit_precommit_txn = bindM (call_runtime ''__precommit_xct'' [get_ptr ''arg'']) (\<lambda>_. returnM ())"

definition emit_insert :: "llval \<Rightarrow> llval \<Rightarrow> llval \<Rightarrow> llval \<Rightarrow> ('db cg, unit) st" where
  "emit_insert key key_len val val_len =
     bindM (call_runtime ''__insert'' [get_ptr ''arg'', key, key_len, val, val_len]) (\<lambda>_. returnM ())"

definition emit_get_cursor :: "llval \<Rightarrow> llval \<Rightarrow> llval \<Rightarrow> llval \<Rightarrow> ('db cg, llval) st" where
  "emit_get_cursor from_prefix from_len to_prefix to_len =
     call_runtime ''__get_cursor'' [get_ptr ''arg'', from_prefix, from_len, to_prefix, to_len]"

definition emit_is_valid_cursor :: "llval \<Rightarrow> ('db cg, llval) st" where
  "emit_is_valid_cursor cursor = call_runtime ''__cursor_is_valid'' [cursor]"

definition emit_cursor_copy_key :: "llval \<Rightarrow> llval \<Rightarrow> ('db cg, unit) st" where
  "emit_cursor_copy_key cursor buffer =
     bindM (call_runtime ''__cursor_copy_key'' [cursor, buffer]) (\<lambda>_. returnM ())"

definition emit_cursor_next :: "llval \<Rightarrow> ('db cg, llval) st" where
  "emit_cursor_next cursor = call_runtime ''__cursor_next'' [cursor]"

definition emit_cursor_copy_value :: "llval \<Rightarrow> llval \<Rightarrow> ('db cg, unit) st" where
  "emit_cursor_copy_value cursor buffer =
     bindM (call_runtime ''__cursor_copy_value'' [cursor, buffer]) (\<lambda>_. returnM ())"

definition emit_cursor_destroy :: "llval \<Rightarrow> ('db cg, unit) st" where
  "emit_cursor_destroy cursor = bindM (call_runtime ''__cursor_destroy'' [cursor]) (\<lambda>_. returnM ())"

end
