(* ===== verification/Reir_Codegen_Stmt.thy ===== *)
theory Reir_Codegen_Stmt
  imports Reir_Codegen_Expr Reir_Db_Interface
begin

text \<open>
  Code generation for statements, \<^verbatim>\<open>src/reir/exec/ast_statement_codegen.cpp\<close>: first
  \<open>alloca_stack\<close> on every statement, which allocates the stack slots (and, for a table
  definition, creates the table), then \<open>codegen\<close>. \<open>put\<close> is the store below the catalogue.
  Alignments and instruction names are not kept.
\<close>

section \<open>Slots\<close>

definition Let_alloca :: "llvm \<Rightarrow> string \<Rightarrow> expr \<Rightarrow> ('db cg, unit) st" where
  "Let_alloca L name e =
     bindP (get_type L e) (\<lambda>t.
     bindM (emit_val (OpAlloca t name) []) (\<lambda>store.
     set_vars name store))"

text \<open>
  \<open>each_value\<close> with the node of each value it visits: the children of a node are numbered
  from 0, a call's arguments from 1.
\<close>

fun each_value_at :: "path \<Rightarrow> expr \<Rightarrow> (path \<times> expr) list res"
and args_value_at :: "path \<Rightarrow> nat \<Rightarrow> expr list \<Rightarrow> (path \<times> expr) list res"
and elems_value_at :: "path \<Rightarrow> nat \<Rightarrow> expr list \<Rightarrow> (path \<times> expr) list res" where
  "each_value_at p (PrimaryExpression _ v) = Inr []"
| "each_value_at p (PrimaryNested _ e) = each_value_at (p @ [0]) e"
| "each_value_at p (BinaryExpression _ op l r) = Inr []"
| "each_value_at p (PointerOf _ t) = (case t of None \<Rightarrow> Inl Undefined | Some e \<Rightarrow> Inr [(p @ [0], e)])"
| "each_value_at p (RowLiteral _ es) = Inr []"
| "each_value_at p (ArrayLiteral t es) =
     bindE (elems_value_at p 0 es) (\<lambda>xs. Inr (xs @ [(p, ArrayLiteral t es)]))"
| "each_value_at p (VariableReference t n) = Inr [(p, VariableReference t n)]"
| "each_value_at p (FunctionCall _ q as) = args_value_at p 1 as"
| "each_value_at p (ArrayReference t None i) = Inl Undefined"
| "each_value_at p (ArrayReference t (Some q) i) =
     bindE (each_value_at (p @ [0]) q) (\<lambda>xs. Inr ((p, ArrayReference t (Some q) i) # xs))"
| "each_value_at p (MemberReference t q n off) =
     bindE (each_value_at (p @ [0]) q) (\<lambda>xs. Inr ((p, MemberReference t q n off) # xs))"
| "each_value_at p (Assign t a v) =
     bindE (each_value_at (p @ [1]) v) (\<lambda>xs. Inr ((p, Assign t a v) # xs))"
| "args_value_at p i [] = Inr []"
| "args_value_at p i (a # as) =
     bindE (each_value_at (p @ [i]) a) (\<lambda>xs.
     bindE (args_value_at p (Suc i) as) (\<lambda>ys. Inr ((p @ [i], a) # xs @ ys)))"
| "elems_value_at p i [] = Inr []"
| "elems_value_at p i (e # es) =
     bindE (each_value_at (p @ [i]) e) (\<lambda>xs.
     bindE (elems_value_at p (Suc i) es) (\<lambda>ys. Inr (xs @ ys)))"

definition value_alloca :: "llvm \<Rightarrow> path \<times> expr \<Rightarrow> ('db cg, unit) st" where
  "value_alloca L x =
     (case x of (p, e) \<Rightarrow>
        bindM (get_type L e) (\<lambda>t.
        case t of
          None \<Rightarrow> throwM AssertFailed
        | Some u \<Rightarrow>
            if isStructTy u
            then bindP (get_type L e) (\<lambda>st_type.
                 bindM (emit_val (OpAlloca st_type ''expr'') []) (\<lambda>alloc.
                 set_stack p alloc))
            else returnM ()))"

definition ExprStatement_alloca :: "llvm \<Rightarrow> path \<Rightarrow> expr \<Rightarrow> ('db cg, unit) st" where
  "ExprStatement_alloca L p e =
     bindP (get_type L e) (\<lambda>t.
     bindM (if isStructTy t
            then bindM (emit_val (OpAlloca t ''expr'') []) (\<lambda>alloc. set_stack p alloc)
            else returnM ()) (\<lambda>_.
     bindM (liftM (each_value_at (p @ [0]) e)) (\<lambda>vals.
     eachM (value_alloca L) vals)))"

text \<open>The column of one member; a member of any other type gives no column.\<close>

definition Define_column :: "ty \<Rightarrow> nat \<Rightarrow> attribute list res" where
  "Define_column t i =
     (if i < length (tt_types t)
      then case tt_types t ! i of
             None \<Rightarrow> Inl Undefined
           | Some u \<Rightarrow>
               let column = (\<lambda>at. if i < length (tt_props t)
                     then Inr [\<lparr>attr_name = tt_names t ! i, attr_ty = at, attr_prop = tt_props t ! i\<rparr>]
                     else Inl Undefined)
               in if ty_id u = TY_INTEGER then column \<lparr>at_type = AT_INTEGER, at_param = 0\<rparr>
                  else if ty_id u = TY_DOUBLE then column \<lparr>at_type = AT_DOUBLE, at_param = 0\<rparr>
                  else if ty_id u = TY_STRING
                  then if i < length (tt_params t)
                       then case tt_params t ! i of
                              Some n \<Rightarrow> column \<lparr>at_type = AT_STRING, at_param = word_of_int n\<rparr>
                            | None \<Rightarrow> column \<lparr>at_type = AT_STRING, at_param = 0\<rparr>
                       else Inl Undefined
                  else Inr []
      else Inl Undefined)"

fun Define_columns :: "ty \<Rightarrow> nat list \<Rightarrow> attribute list res" where
  "Define_columns t [] = Inr []"
| "Define_columns t (i # is) =
     bindE (Define_column t i) (\<lambda>xs. bindE (Define_columns t is) (\<lambda>ys. Inr (xs @ ys)))"

definition Define_alloca ::
    "('db \<Rightarrow> string \<Rightarrow> string \<Rightarrow> 'db) \<Rightarrow> ty option \<Rightarrow> string \<Rightarrow> ('db cg, unit) st" where
  "Define_alloca put schema name =
     bindM (needM schema) (\<lambda>t.
     bindM (liftM (Define_columns t [0..<length (tt_names t)])) (\<lambda>attrs.
     modM (\<lambda>c. c\<lparr>cg_ctx := (cg_ctx c)\<lparr>cx_local_schema :=
                    (cx_local_schema (cg_ctx c))(name \<mapsto> Some (Schema_new name attrs))\<rparr>,
                 cg_md := create_table put (cg_md c) name attrs\<rparr>)))"

definition Emit_alloca :: "llvm \<Rightarrow> path \<Rightarrow> expr \<Rightarrow> ('db cg, unit) st" where
  "Emit_alloca L p e =
     bindP (get_type L e) (\<lambda>t.
     bindM (emit_val (OpAlloca t ''emit_stack'') []) (\<lambda>stack.
     set_stack p stack))"

definition find_or_create_prefix :: "string \<Rightarrow> ('db cg, llval) st" where
  "find_or_create_prefix pfx =
     bindM (getM cg_globals) (\<lambda>table.
     case table pfx of
       None \<Rightarrow>
         bindM (CreateGlobalStringPtr pfx) (\<lambda>ret.
         bindM (modM (\<lambda>c. c\<lparr>cg_globals := (cg_globals c)(pfx \<mapsto> ret)\<rparr>)) (\<lambda>_.
         returnM ret))
     | Some ret \<Rightarrow> returnM ret)"

text \<open>Both buffers of an insert or a scan.\<close>

definition alloca_buffers :: "path \<Rightarrow> schema \<Rightarrow> string \<Rightarrow> string \<Rightarrow> ('db cg, unit) st" where
  "alloca_buffers p sc key_name value_name =
     bindM (liftM (get_fixed_key_length sc)) (\<lambda>kl.
     bindM (liftM (get_fixed_value_length sc)) (\<lambda>vl.
     bindM (getM (\<lambda>c. nr_key_stack (cg_nodes c p))) (\<lambda>old.
     if old \<noteq> None then throwM (RuntimeError ''key_stack is already initialized'')
     else bindM (emit_val (OpAlloca (LArray (unat kl) LI8) key_name) []) (\<lambda>k.
          bindM (emit_val (OpAlloca (LArray (unat vl) LI8) value_name) []) (\<lambda>v.
          set_node p (\<lambda>r. r\<lparr>nr_key_stack := Some k, nr_value_stack := Some v\<rparr>))))))"

definition Insert_alloca :: "llvm \<Rightarrow> path \<Rightarrow> string \<Rightarrow> expr \<Rightarrow> ('db cg, unit) st" where
  "Insert_alloca L p table e =
     bindM (schema_index table) (\<lambda>schema.
     case schema of
       None \<Rightarrow> throwM (RuntimeError (''undefined table :'' @ table))
     | Some sc \<Rightarrow>
         if \<not> fixed_key_length sc then throwM (RuntimeError ''fixed length key is available'')
         else if \<not> fixed_value_length sc then throwM (RuntimeError ''fixed length value is available'')
         else bindM (find_or_create_prefix (get_key_prefix sc)) (\<lambda>pre.
              bindM (set_node p (\<lambda>r. r\<lparr>nr_prefix := Some pre\<rparr>)) (\<lambda>_.
              bindM (alloca_buffers p sc ''insert_key_stack'' ''insert_val_stack'') (\<lambda>_.
              bindP (get_type L e) (\<lambda>buff_type.
              bindM (emit_val (OpAlloca buff_type ''tuple_stack'') []) (\<lambda>t.
              set_node p (\<lambda>r. r\<lparr>nr_tuple_stack := Some t\<rparr>)))))))"

text \<open>\<open>prefix_end[size - 2]++\<close>: the last character of the table name, or a character before the string.\<close>

definition next_char :: "char \<Rightarrow> char" where
  "next_char ch = char_of (of_char ch + 1 :: nat)"

definition prefix_end :: "string \<Rightarrow> string res" where
  "prefix_end pfx =
     (if length pfx < 2 then Inl Undefined
      else Inr (pfx[length pfx - 2 := next_char (pfx ! (length pfx - 2))]))"

fun Scan_row_attrs :: "attribute list \<Rightarrow> llty list res" where
  "Scan_row_attrs [] = Inr []"
| "Scan_row_attrs (a # as) =
     (if is_integer (attr_ty a) then bindE (Scan_row_attrs as) (\<lambda>ts. Inr (LI64 # ts))
      else Inl (RuntimeError ''non-integer type is not supported yet''))"

definition Scan_alloca :: "path \<Rightarrow> string \<Rightarrow> string \<Rightarrow> ('db cg, unit) st" where
  "Scan_alloca p table row =
     bindP (schema_index table) (\<lambda>sc.
     if \<not> fixed_key_length sc then throwM (RuntimeError ''fixed length row is available'')
     else if \<not> fixed_value_length sc then throwM (RuntimeError ''fixed length row is available'')
     else bindM (find_or_create_prefix (get_key_prefix sc)) (\<lambda>b.
          bindM (set_node p (\<lambda>r. r\<lparr>nr_prefix := Some b\<rparr>)) (\<lambda>_.
          bindM (liftM (prefix_end (get_key_prefix sc))) (\<lambda>pe.
          bindM (find_or_create_prefix pe) (\<lambda>e.
          bindM (set_node p (\<lambda>r. r\<lparr>nr_prefix_end := Some e\<rparr>)) (\<lambda>_.
          bindM (alloca_buffers p sc ''scan_key_stack'' ''scan_val_stack'') (\<lambda>_.
          bindM (liftM (Scan_row_attrs (sc_attrs sc))) (\<lambda>row_attrs.
          bindM (StructType_create row row_attrs) (\<lambda>row_type.
          bindM (set_types row (Some row_type)) (\<lambda>_.
          bindM (emit_val (OpAlloca row_type row) []) (\<lambda>store.
          bindM (set_vars row store) (\<lambda>_.
          set_node p (\<lambda>r. r\<lparr>nr_tuple_stack := Some store\<rparr>)))))))))))))"

definition DefineTuple_alloca :: "string \<Rightarrow> ty \<Rightarrow> ('db cg, unit) st" where
  "DefineTuple_alloca name t = modM (\<lambda>c. c\<lparr>cg_ctx := set_type name (Some t) (cg_ctx c)\<rparr>)"

text \<open>\<open>alloca_stack\<close>; the initialisation of a loop is its node 0, \<open>Block\<close>'s method is empty.\<close>

fun alloca_stack ::
    "('db \<Rightarrow> string \<Rightarrow> string \<Rightarrow> 'db) \<Rightarrow> llvm \<Rightarrow> path \<Rightarrow> stmt \<Rightarrow> ('db cg, unit) st" where
  "alloca_stack put L p (Block ss) = returnM ()"
| "alloca_stack put L p (Transaction isolation ss) = returnM ()"
| "alloca_stack put L p (Define schema name) = Define_alloca put schema name"
| "alloca_stack put L p (For init cond every blk) =
     (case init of
        Uninit \<Rightarrow> throwM Undefined
      | Null \<Rightarrow> returnM ()
      | Ref i \<Rightarrow> alloca_stack put L (p @ [0]) i)"
| "alloca_stack put L p (Jump j) = returnM ()"
| "alloca_stack put L p (Emit v) = Emit_alloca L p v"
| "alloca_stack put L p (Insert table v) = Insert_alloca L p table v"
| "alloca_stack put L p (Scan table row blk) = Scan_alloca p table row"
| "alloca_stack put L p (Let name ty e) = Let_alloca L name e"
| "alloca_stack put L p (DefineTuple name t) = DefineTuple_alloca name t"
| "alloca_stack put L p (If cond t f) = returnM ()"
| "alloca_stack put L p (ExprStatement v) = ExprStatement_alloca L p v"

text \<open>\<open>each_statement\<close> with the node of each statement it visits.\<close>

fun each_statement_at :: "path \<Rightarrow> stmt \<Rightarrow> (path \<times> stmt) list res"
and block_statement_at :: "path \<Rightarrow> nat \<Rightarrow> stmt list \<Rightarrow> (path \<times> stmt) list res" where
  "each_statement_at p (Block ss) = block_statement_at p 0 ss"
| "each_statement_at p (Transaction _ ss) = block_statement_at (p @ [0]) 0 ss"
| "each_statement_at p (For init _ _ blk) =
     bindE (case init of Uninit \<Rightarrow> Inl Undefined | Null \<Rightarrow> Inr [] | Ref i \<Rightarrow> Inr [(p @ [0], i)]) (\<lambda>xs.
     bindE (block_statement_at (p @ [3]) 0 blk) (\<lambda>ys. Inr (xs @ ys)))"
| "each_statement_at p (Scan _ _ blk) = block_statement_at (p @ [0]) 0 blk"
| "each_statement_at p (If _ t f) =
     bindE (block_statement_at (p @ [1]) 0 t) (\<lambda>xs.
     bindE (case f of None \<Rightarrow> Inr [] | Some f' \<Rightarrow> block_statement_at (p @ [2]) 0 f') (\<lambda>ys. Inr (xs @ ys)))"
| "each_statement_at p _ = Inr []"
| "block_statement_at p i [] = Inr []"
| "block_statement_at p i (s # ss) =
     bindE (each_statement_at (p @ [i]) s) (\<lambda>xs.
     bindE (block_statement_at p (Suc i) ss) (\<lambda>ys. Inr ((p @ [i], s) # xs @ ys)))"

section \<open>Code\<close>

definition Let_codegen :: "llvm \<Rightarrow> path \<Rightarrow> string \<Rightarrow> expr \<Rightarrow> ('db cg, unit) st" where
  "Let_codegen L p name e =
     bindM (get_type L e) (\<lambda>_.
     bindM (vars_index name) (\<lambda>stack.
     case stack of
       None \<Rightarrow> throwM (RuntimeError (''undefined variable: '' @ name))
     | Some s \<Rightarrow> bindP (get_value L (p @ [0]) e) (\<lambda>v. log_ins (IStore v s))))"

text \<open>The parts of a compound statement are passed as the computations that generate them.\<close>

definition If_codegen ::
    "llvm \<Rightarrow> ('db cg, llval option) st \<Rightarrow> ('db cg, unit) st \<Rightarrow> ('db cg, unit) st \<Rightarrow> ('db cg, unit) st" where
  "If_codegen L cond true_part false_part =
     bindM (BasicBlock_Create ''true_blk'') (\<lambda>true_block.
     bindM (BasicBlock_Create ''false_blk'') (\<lambda>false_block.
     bindM (BasicBlock_Create ''fin'') (\<lambda>fin.
     bindP cond (\<lambda>v.
     bindM (if getType L v \<noteq> LI1 then emit_val OpICmpNE [v, getInt64 0] else returnM v) (\<lambda>cond.
     bindM (log_ins (ICondBr cond true_block false_block)) (\<lambda>_.
     bindM (SetInsertPoint true_block) (\<lambda>_.
     bindM true_part (\<lambda>_.
     bindM (log_ins (IBr fin)) (\<lambda>_.
     bindM (SetInsertPoint false_block) (\<lambda>_.
     bindM false_part (\<lambda>_.
     bindM (log_ins (IBr fin)) (\<lambda>_.
     SetInsertPoint fin))))))))))))"

definition enter_loopM :: "nat \<Rightarrow> nat \<Rightarrow> nat \<Rightarrow> nat \<Rightarrow> ('db cg, unit) st" where
  "enter_loopM b bo e f = modM (\<lambda>c. c\<lparr>cg_ctx := enter_loop b bo e f (cg_ctx c)\<rparr>)"

definition exit_loopM :: "('db cg, unit) st" where
  "exit_loopM c = bindE (exit_loop_ctx (cg_ctx c)) (\<lambda>x. Inr ((), c\<lparr>cg_ctx := x\<rparr>))"

definition For_codegen ::
    "('db cg, unit) st \<Rightarrow> ('db cg, llval option) st slot \<Rightarrow> ('db cg, llval option) st slot \<Rightarrow>
     ('db cg, unit) st \<Rightarrow> ('db cg, unit) st" where
  "For_codegen init cond step blk =
     bindM init (\<lambda>_.
     bindM (BasicBlock_Create ''for_begin'') (\<lambda>begin.
     bindM (BasicBlock_Create ''for_body'') (\<lambda>body.
     bindM (BasicBlock_Create ''for_every'') (\<lambda>every.
     bindM (BasicBlock_Create ''for_finish'') (\<lambda>finish.
     bindM (enter_loopM begin body every finish) (\<lambda>_.
     bindM (log_ins (IBr begin)) (\<lambda>_.
     bindM (SetInsertPoint begin) (\<lambda>_.
     bindM (case cond of
              Uninit \<Rightarrow> throwM Undefined
            | Null \<Rightarrow> returnM ()
            | Ref v \<Rightarrow> bindP v (\<lambda>ret. log_ins (ICondBr ret body finish))) (\<lambda>_.
     bindM (SetInsertPoint body) (\<lambda>_.
     bindM blk (\<lambda>_.
     bindM (log_ins (IBr every)) (\<lambda>_.
     bindM (SetInsertPoint every) (\<lambda>_.
     bindM (case step of
              Uninit \<Rightarrow> throwM Undefined
            | Null \<Rightarrow> returnM ()
            | Ref v \<Rightarrow> bindM v (\<lambda>_. returnM ())) (\<lambda>_.
     bindM (log_ins (IBr begin)) (\<lambda>_.
     bindM (SetInsertPoint finish) (\<lambda>_.
     exit_loopM))))))))))))))))"

definition Jump_codegen :: "jump \<Rightarrow> ('db cg, unit) st" where
  "Jump_codegen j =
     bindM (getM (\<lambda>c. cx_loop (cg_ctx c))) (\<lambda>loop.
     case loop of
       [] \<Rightarrow> throwM Undefined
     | l # _ \<Rightarrow> log_ins (IBr (case j of continue_jump \<Rightarrow> lc_every l | break_jump \<Rightarrow> lc_finish l)))"

definition emit_size :: "llvm \<Rightarrow> llty list \<Rightarrow> nat" where
  "emit_size L elms = sum_list (map (\<lambda>t. (prim_bits L t + 7) div 8) elms)"

definition Emit_codegen :: "llvm \<Rightarrow> path \<Rightarrow> expr \<Rightarrow> ('db cg, unit) st" where
  "Emit_codegen L p e =
     bindM (stack_index p) (\<lambda>stack.
     bindP (get_type L e) (\<lambda>t.
     if isStructTy t
     then bindP (get_value L (p @ [0]) e) (\<lambda>v.
          bindM (needM stack) (\<lambda>s.
          bindM (log_ins (IStore v s)) (\<lambda>_.
          bindM (functions_index ''__emit_func'') (\<lambda>emit_func.
          bindP (get_type L e) (\<lambda>type.
          case type of
            LStruct _ _ elms \<Rightarrow>
              bindM (emit_val (OpBitCast (LPtr LI8)) [s]) (\<lambda>from.
              bindM (needM emit_func) (\<lambda>f.
              bindM (emit_val (OpCall f) [get_ptr ''ctx'', from, getInt64 (of_nat (emit_size L elms))]) (\<lambda>_.
              returnM ())))
          | _ \<Rightarrow> throwM Undefined)))))
     else throwM (RuntimeError ''non struct type cant be emitted'')))"

text \<open>
  The loop of \<open>Insert::codegen\<close> over the elements of the row. The offsets are variables of
  type \<open>int\<close>; the result is the length of the key and of the value.
\<close>

fun Insert_cells ::
    "schema \<Rightarrow> llval \<Rightarrow> llval \<Rightarrow> llval \<Rightarrow> nat list \<Rightarrow> 32 word \<Rightarrow> 32 word \<Rightarrow> 32 word \<Rightarrow>
     ('db cg, 32 word \<times> 32 word) st" where
  "Insert_cells sc buff key_stack value_stack [] offset key_idx value_idx = returnM (key_idx, value_idx)"
| "Insert_cells sc buff key_stack value_stack (i # is) offset key_idx value_idx =
     bindM (emit_val OpInBoundsGEP [buff, getInt32 offset]) (\<lambda>src.
     bindM (liftM (sc_is_key sc i)) (\<lambda>k.
     if k
     then bindM (emit_val OpInBoundsGEP [key_stack, getInt64 0, getInt32 key_idx]) (\<lambda>dst.
          bindM (liftM (get_tuple_length sc i)) (\<lambda>len.
          bindM (log_ins (IMemCpy dst src len)) (\<lambda>_.
          Insert_cells sc buff key_stack value_stack is (offset + ucast len) (key_idx + ucast len) value_idx)))
     else bindM (emit_val OpInBoundsGEP [value_stack, getInt32 0, getInt32 value_idx]) (\<lambda>dst.
          bindM (liftM (get_tuple_length sc i)) (\<lambda>len.
          bindM (log_ins (IMemCpy dst src len)) (\<lambda>_.
          Insert_cells sc buff key_stack value_stack is (offset + ucast len) key_idx (value_idx + ucast len))))))"

definition Insert_codegen :: "llvm \<Rightarrow> path \<Rightarrow> string \<Rightarrow> expr \<Rightarrow> ('db cg, unit) st" where
  "Insert_codegen L p table e =
     bindM (schema_index table) (\<lambda>schema.
     bindM (get_value L (p @ [0]) e) (\<lambda>row.
     bindM (needM schema) (\<lambda>sc.
     bindP (get_type L e) (\<lambda>t.
     if isStructTy t
     then bindP (get_type L e) (\<lambda>row_type.
          case row_type of
            LStruct _ _ elements \<Rightarrow>
              bindM (getM (\<lambda>c. cg_nodes c p)) (\<lambda>r.
              bindM (needM row) (\<lambda>row.
              bindM (needM (nr_tuple_stack r)) (\<lambda>tuple_stack.
              bindM (log_ins (IStore row tuple_stack)) (\<lambda>_.
              bindM (emit_val (OpBitCast (LPtr LI8)) [tuple_stack]) (\<lambda>buff.
              bindM (needM (nr_key_stack r)) (\<lambda>key_stack.
              bindM (needM (nr_prefix r)) (\<lambda>pre.
              bindM (log_ins (IMemCpy key_stack pre (of_nat (length (get_key_prefix sc))))) (\<lambda>_.
              bindM (needM (nr_value_stack r)) (\<lambda>value_stack.
              bindM (Insert_cells sc buff key_stack value_stack [0..<length elements] 0
                       (of_nat (length (get_key_prefix sc))) 0) (\<lambda>(key_idx, value_idx).
              bindM (emit_val (OpBitCast (LPtr LI8)) [key_stack]) (\<lambda>key.
              bindM (emit_val (OpBitCast (LPtr LI8)) [value_stack]) (\<lambda>val.
              emit_insert key (getInt64 (scast key_idx)) val (getInt64 (scast value_idx))))))))))))))
          | _ \<Rightarrow> throwM Undefined)
     else throwM (RuntimeError ''non row type cant be inserted'')))))"

text \<open>The loop of \<open>Scan::codegen\<close> over the columns; the offsets are of type \<open>uint32_t\<close>.\<close>

fun Scan_cells ::
    "schema \<Rightarrow> llval \<Rightarrow> llval \<Rightarrow> nat list \<Rightarrow> 32 word \<Rightarrow> 32 word \<Rightarrow> llval \<Rightarrow> ('db cg, llval) st" where
  "Scan_cells sc key value_stack [] key_offset value_offset prev = returnM prev"
| "Scan_cells sc key value_stack (i # is) key_offset value_offset prev =
     bindM (liftM (sc_is_key sc i)) (\<lambda>k.
     if k
     then bindM (emit_val OpInBoundsGEP [key, getInt32 key_offset]) (\<lambda>offset_key.
          bindM (emit_val (OpBitCast (LPtr LI64)) [offset_key]) (\<lambda>key_r.
          bindM (emit_val OpLoad [key_r]) (\<lambda>rec.
          bindM (emit_val (OpInsertValue i) [prev, rec]) (\<lambda>prev.
          Scan_cells sc key value_stack is (key_offset + 8) value_offset prev))))
     else bindM (emit_val OpInBoundsGEP [value_stack, getInt32 0, getInt32 value_offset]) (\<lambda>offset_value.
          bindM (emit_val (OpBitCast (LPtr LI64)) [offset_value]) (\<lambda>value_r.
          bindM (emit_val OpLoad [value_r]) (\<lambda>rec.
          bindM (emit_val (OpInsertValue i) [prev, rec]) (\<lambda>prev.
          Scan_cells sc key value_stack is key_offset (value_offset + 8) prev)))))"

definition Scan_codegen :: "path \<Rightarrow> string \<Rightarrow> string \<Rightarrow> ('db cg, unit) st \<Rightarrow> ('db cg, unit) st" where
  "Scan_codegen p table row blk =
     bindP (schema_index table) (\<lambda>sc.
     bindM (liftM (prefix_end (get_key_prefix sc))) (\<lambda>key_prefix_end.
     bindM (types_index row) (\<lambda>rowtype.
     bindM (getM (\<lambda>c. cg_nodes c p)) (\<lambda>r.
     bindM (needM (nr_prefix r)) (\<lambda>prefix_begin.
     bindM (needM (nr_prefix_end r)) (\<lambda>pre_end.
     bindM (emit_get_cursor prefix_begin (getInt64 (of_nat (length (get_key_prefix sc))))
              pre_end (getInt64 (of_nat (length key_prefix_end)))) (\<lambda>cursor.
     bindM (BasicBlock_Create ''fullscan_check'') (\<lambda>check.
     bindM (BasicBlock_Create ''fullscan_begin'') (\<lambda>begin.
     bindM (BasicBlock_Create ''fullscan_fin'') (\<lambda>fin.
     bindM (log_ins (IBr check)) (\<lambda>_.
     bindM (SetInsertPoint check) (\<lambda>_.
     bindM (emit_is_valid_cursor cursor) (\<lambda>valid.
     bindM (emit_val OpICmpEQ [valid, LConst LI1 1]) (\<lambda>cond.
     bindM (log_ins (ICondBr cond begin fin)) (\<lambda>_.
     bindM (SetInsertPoint begin) (\<lambda>_.
     bindM (needM (nr_key_stack r)) (\<lambda>key_stack.
     bindM (emit_val (OpBitCast (LPtr LI8)) [key_stack]) (\<lambda>key.
     bindM (emit_cursor_copy_key cursor key) (\<lambda>_.
     bindM (needM (nr_value_stack r)) (\<lambda>value_stack.
     bindM (emit_val (OpBitCast (LPtr LI8)) [value_stack]) (\<lambda>val.
     bindM (emit_cursor_copy_value cursor val) (\<lambda>_.
     bindM (needM rowtype) (\<lambda>rt.
     bindM (Scan_cells sc key value_stack [0..<columns sc] (of_nat (length (get_key_prefix sc))) 0
              (LUndef rt)) (\<lambda>prev.
     bindM (needM (nr_tuple_stack r)) (\<lambda>tuple_stack.
     bindM (log_ins (IStore prev tuple_stack)) (\<lambda>_.
     bindM blk (\<lambda>_.
     bindM (emit_cursor_next cursor) (\<lambda>_.
     bindM (log_ins (IBr check)) (\<lambda>_.
     bindM (SetInsertPoint fin) (\<lambda>_.
     emit_cursor_destroy cursor))))))))))))))))))))))))))))))"

definition map_slot :: "('a \<Rightarrow> 'b) \<Rightarrow> 'a slot \<Rightarrow> 'b slot" where
  "map_slot f x = (case x of Uninit \<Rightarrow> Uninit | Null \<Rightarrow> Null | Ref y \<Rightarrow> Ref (f y))"

fun codegen :: "llvm \<Rightarrow> path \<Rightarrow> stmt \<Rightarrow> ('db cg, unit) st"
and block_codegen :: "llvm \<Rightarrow> path \<Rightarrow> nat \<Rightarrow> stmt list \<Rightarrow> ('db cg, unit) st" where
  "codegen L p (Block ss) = block_codegen L p 0 ss"
| "codegen L p (Transaction isolation ss) =
     bindM emit_begin_txn (\<lambda>_.
     bindM (block_codegen L (p @ [0]) 0 ss) (\<lambda>_.
     emit_precommit_txn))"
| "codegen L p (Define schema name) = returnM ()"
| "codegen L p (For init cond every blk) =
     For_codegen
       (case init of
          Uninit \<Rightarrow> throwM Undefined
        | Null \<Rightarrow> returnM ()
        | Ref i \<Rightarrow> codegen L (p @ [0]) i)
       (map_slot (get_value L (p @ [1])) cond)
       (map_slot (get_value L (p @ [2])) every)
       (block_codegen L (p @ [3]) 0 blk)"
| "codegen L p (Jump j) = Jump_codegen j"
| "codegen L p (Emit v) = Emit_codegen L p v"
| "codegen L p (Insert table v) = Insert_codegen L p table v"
| "codegen L p (Scan table row blk) = Scan_codegen p table row (block_codegen L (p @ [0]) 0 blk)"
| "codegen L p (Let name ty e) = Let_codegen L p name e"
| "codegen L p (DefineTuple name t) = returnM ()"
| "codegen L p (If cond t f) =
     If_codegen L (get_value L (p @ [0]) cond) (block_codegen L (p @ [1]) 0 t)
       (case f of None \<Rightarrow> returnM () | Some f' \<Rightarrow> block_codegen L (p @ [2]) 0 f')"
| "codegen L p (ExprStatement v) = bindM (get_value L (p @ [0]) v) (\<lambda>_. returnM ())"
| "block_codegen L p i [] = returnM ()"
| "block_codegen L p i (s # ss) =
     bindM (codegen L (p @ [i]) s) (\<lambda>_. block_codegen L p (Suc i) ss)"

end
