(* ===== verification/Reir_Compiler.thy ===== *)
theory Reir_Compiler
  imports Reir_Codegen_Stmt Reir_Analyze
begin

text \<open>
  \<^verbatim>\<open>src/reir/exec/compiler.cpp\<close>: the functions and types every program starts with, and
  \<open>compile\<close>. Creating the JIT, optimising and running the module are calls into LLVM. The
  symbols registered with the dynamic linker are not kept.
\<close>

definition init_types :: "('db cg, unit) st" where
  "init_types =
     bindM (getTypeByName ''string_type'') (\<lambda>maybe_struct_type.
     case maybe_struct_type of
       Some t \<Rightarrow> set_types ''string'' (Some t)
     | None \<Rightarrow>
         bindM (getM cg_types) (\<lambda>table.
         case table ''string'' of
           None \<Rightarrow>
             bindM (StructType_create ''string_type'' [LPtr LI8, LI64]) (\<lambda>strtype.
             set_types ''string'' (Some strtype))
         | Some _ \<Rightarrow> returnM ()))"

definition init_functions :: "('db cg, unit) st" where
  "init_functions =
     bindM (declare_function ''malloc'' ''malloc'' (LPtr LI8) [LI64]) (\<lambda>_.
     bindM (declare_function ''drop_table'' ''drop_table_func'' LVoid [LPtr LI64, LPtr LI64]) (\<lambda>_.
     bindM (declare_function ''print_int'' ''print_int'' LVoid [LI64]) (\<lambda>_.
     bindP (types_index ''string'') (\<lambda>string_type.
     bindM (declare_function ''print_string'' ''print_string'' LVoid [LPtr string_type]) (\<lambda>_.
     bindM (declare_function ''rand'' ''rand_int'' LI64 [LI64, LI64]) (\<lambda>_.
     declare_function ''__emit_func'' ''__emit_func'' LVoid [LPtr LI64, LPtr LI8, LI64]))))))"

text \<open>\<open>ast->analyze(ctx)\<close> works on the analysis tables of the context.\<close>

definition analyzeM :: "(nat \<Rightarrow> string) \<Rightarrow> stmt \<Rightarrow> ('db cg, stmt) st" where
  "analyzeM addr ast c =
     bindE (stmt_analyze addr ast (cg_ctx c)) (\<lambda>(ast, x). Inr (ast, c\<lparr>cg_ctx := x\<rparr>))"

definition alloca_all ::
    "('db \<Rightarrow> string \<Rightarrow> string \<Rightarrow> 'db) \<Rightarrow> llvm \<Rightarrow> stmt \<Rightarrow> ('db cg, unit) st" where
  "alloca_all put L ast =
     bindM (liftM (each_statement_at [] ast)) (\<lambda>nodes.
     eachM (\<lambda>(p, n). alloca_stack put L p n) nodes)"

text \<open>The tree is always the block that \<open>parse\<close> built.\<close>

definition compile ::
    "('db \<Rightarrow> string \<Rightarrow> string \<Rightarrow> 'db) \<Rightarrow> llvm \<Rightarrow> (nat \<Rightarrow> string) \<Rightarrow> stmt \<Rightarrow> ('db cg, unit) st" where
  "compile put L addr ast =
     bindM init_types (\<lambda>_.
     bindM init_functions (\<lambda>_.
     bindM (analyzeM addr ast) (\<lambda>whole_block.
     bindM (BasicBlock_Create ''entry_jit'') (\<lambda>bb.
     bindM (SetInsertPoint bb) (\<lambda>_.
     bindM (alloca_all put L whole_block) (\<lambda>_.
     bindM (codegen L [] whole_block) (\<lambda>_.
     log_ins (IRet (LConst LI1 1)))))))))"

text \<open>\<open>compile_and_exec\<close> up to the call of the JIT: a fresh context declares the engine's functions.\<close>

definition compile_fresh ::
    "('db \<Rightarrow> string \<Rightarrow> string \<Rightarrow> 'db) \<Rightarrow> llvm \<Rightarrow> (nat \<Rightarrow> string) \<Rightarrow> 'db metadata \<Rightarrow> stmt \<Rightarrow> (unit \<times> 'db cg) res" where
  "compile_fresh put L addr md ast =
     bindM define_functions (\<lambda>_. compile put L addr ast) (cg_new md)"

section \<open>Evaluation\<close>

text \<open>The equations with which the simplifier runs the generator on a given program; with
  \<open>lazy_binds\<close> as congruences it evaluates a computation before what follows it.\<close>

lemma lazy_binds:
  "m = m' \<Longrightarrow> bindM m f = bindM m' f" "n = n' \<Longrightarrow> bindP n g = bindP n' g" "r = r' \<Longrightarrow> bindE r h = bindE r' h"
  by simp_all

lemmas monad_defs = Let_def bindE_def bindM_def bindP_def returnM_def throwM_def getM_def modM_def liftM_def needM_def

lemmas builder_defs = log_ins_def freshM_def emit_val_def BasicBlock_Create_def SetInsertPoint_def
  CreateGlobalStringPtr_def StructType_create_def getTypeByName_def pmap_index_def types_index_def vars_index_def
  stack_index_def functions_index_def schema_index_def set_types_def set_functions_def set_vars_def set_stack_def
  set_node_def

lemmas compile_defs = compile_fresh_def cg_new_def define_functions_def declare_function_def
  compile_def init_types_def init_functions_def analyzeM_def alloca_all_def

lemmas codegen_defs = PrimaryExpression_get_type_def value_emitter_def as_int_def is_int_def MaybeValue_int_def
  ValueImpl_int_def VariableReference_get_type_def VariableReference_get_ref_def load_ref_def to_i1_def
  Let_alloca_def Let_codegen_def ExprStatement_alloca_def value_alloca_def If_codegen_def For_codegen_def
  enter_loopM_def enter_loop_def exit_loopM_def exit_loop_ctx_def Jump_codegen_def map_slot_def
  sample_llvm_def arithmetic_ops_def icmp_ops_def

lemmas run_defs = monad_defs builder_defs compile_defs codegen_defs

end
