(* ===== verification/Reir_Invariants.thy ===== *)
theory Reir_Invariants
  imports Reir_Compiler
begin

text \<open>
  Invariants of the generator, stated once for all of it. \<open>keeps I E m\<close> says that a computation
  keeps \<open>I\<close> and does not fail with an error of \<open>E\<close>. The locales \<open>expr_inv\<close>, \<open>codegen_inv\<close> and
  \<open>alloca_inv\<close> say what the builder calls and the tables have to promise for expressions, for
  statements and for the slot phase, and derive that the whole generator keeps the invariant.
\<close>

definition keeps :: "('i \<Rightarrow> 's \<Rightarrow> bool) \<Rightarrow> err set \<Rightarrow> ('s, 'a) st \<Rightarrow> bool" where
  "keeps I E m \<longleftrightarrow> (\<forall>i s. I i s \<longrightarrow> (case m s of Inl e \<Rightarrow> e \<notin> E | Inr (x, s') \<Rightarrow> I i s'))"

lemma keepsI:
  "(\<And>i s e. I i s \<Longrightarrow> m s = Inl e \<Longrightarrow> e \<notin> E) \<Longrightarrow>
   (\<And>i s x s'. I i s \<Longrightarrow> m s = Inr (x, s') \<Longrightarrow> I i s') \<Longrightarrow> keeps I E m"
  by (auto simp: keeps_def split: sum.splits)

lemma keepsD: "keeps I E m \<Longrightarrow> I i s \<Longrightarrow> m s = Inr (x, s') \<Longrightarrow> I i s'"
  by (force simp: keeps_def)

lemma keeps_errD: "keeps I E m \<Longrightarrow> I i s \<Longrightarrow> m s \<noteq> Inl e \<or> e \<notin> E"
  by (force simp: keeps_def)

lemma keeps_bind:
  "keeps I E m \<Longrightarrow> (\<And>x. keeps I E (f x)) \<Longrightarrow> keeps I E (bindM m f)"
  by (rule keepsI)
     (auto simp: bindM_def bindE_eq_Inl_iff bindE_eq_Inr_iff dest: keepsD keeps_errD)

lemma keeps_return [simp]: "keeps I E (returnM x)"
  by (simp add: keeps_def returnM_def)

lemma keeps_get [simp]: "keeps I E (getM f)"
  by (simp add: keeps_def getM_def)

lemma keeps_throw: "e \<notin> E \<Longrightarrow> keeps I E (throwM e)"
  by (simp add: keeps_def throwM_def)

lemma keeps_lift: "(\<And>e. r = Inl e \<Longrightarrow> e \<notin> E) \<Longrightarrow> keeps I E (liftM r)"
  by (cases r) (simp_all add: keeps_def liftM_def)

lemma keeps_need: "Undefined \<notin> E \<Longrightarrow> keeps I E (needM p)"
  by (cases p) (simp_all add: keeps_def needM_def)

lemma keeps_bindP:
  "Undefined \<notin> E \<Longrightarrow> keeps I E m \<Longrightarrow> (\<And>x. keeps I E (f x)) \<Longrightarrow> keeps I E (bindP m f)"
  unfolding bindP_def by (intro keeps_bind keeps_need)

lemma keeps_mod: "(\<And>i s. I i s \<Longrightarrow> I i (f s)) \<Longrightarrow> keeps I E (modM f)"
  by (simp add: keeps_def modM_def)

lemma keeps_each: "(\<And>x. x \<in> set xs \<Longrightarrow> keeps I E (f x)) \<Longrightarrow> keeps I E (eachM f xs)"
  by (induction xs) (auto intro: keeps_bind)

text \<open>The instructions that end a block, and the blocks they go to.\<close>

fun is_terminator :: "ins \<Rightarrow> bool" where
  "is_terminator (IBr _) = True"
| "is_terminator (ICondBr _ _ _) = True"
| "is_terminator (IRet _) = True"
| "is_terminator _ = False"

text \<open>The error \<open>Let::codegen\<close> throws when its variable has no slot.\<close>

definition no_slot :: "err set" where
  "no_slot = {RuntimeError (''undefined variable: '' @ n) | n. True}"

lemma no_slot_simps [simp]:
  "Undefined \<notin> no_slot" "AssertFailed \<notin> no_slot" "BadGet \<notin> no_slot"
  "RuntimeError (c # m) \<in> no_slot \<longleftrightarrow> (\<exists>n. c # m = ''undefined variable: '' @ n)"
  by (auto simp: no_slot_def)

locale expr_inv =
  fixes I :: "'i \<Rightarrow> 'db cg \<Rightarrow> bool" and E :: "err set"
  assumes errors: "E \<subseteq> no_slot"
    and fresh: "keeps I E freshM"
    and log: "\<not> is_terminator ins \<Longrightarrow> keeps I E (log_ins ins)"
    and types: "keeps I E (types_index k)" "keeps I E (set_types k t)" "keeps I E (StructType_create n ts)"
    and tables: "keeps I E (vars_index k)" "keeps I E (stack_index q)"
    and conditional: "keeps I E lhs \<Longrightarrow> keeps I E rhs \<Longrightarrow> keeps I E (get_conditional_value L lhs rhs b)"
begin

lemma undef: "Undefined \<notin> E"
  using errors by auto

lemmas rules = keeps_bind keeps_bindP [OF undef] keeps_need [OF undef] fresh types tables

lemma emit: "keeps I E (emit_val op args)"
  unfolding emit_val_def by (intro rules log keeps_return) simp

lemma throw: "e \<notin> no_slot \<Longrightarrow> keeps I E (throwM e)"
  using errors by (intro keeps_throw) blast

lemma lift: "(\<And>e. r = Inl e \<Longrightarrow> e \<notin> no_slot) \<Longrightarrow> keeps I E (liftM r)"
  using errors by (intro keeps_lift) blast

lemma convert: "keeps I E (convert_type t)"
  by (auto simp: convert_type_def intro!: throw types split: type_id.splits)

lemma primary_type: "keeps I E (PrimaryExpression_get_type v)"
  by (auto simp: PrimaryExpression_get_type_def intro!: throw types)

lemma find_fun: "keeps I E (find_function q)"
  by (auto simp: find_function_def intro!: rules throw split: option.splits)

lemma variable_type: "keeps I E (VariableReference_get_type L n)"
  by (auto simp: VariableReference_get_type_def intro!: rules throw split: option.splits llty.splits)

lemma get_type:
  "keeps I E (get_type L e)" "keeps I E (get_type_signature L es)" "keeps I E (element_types L es)"
  by (induction L e and L es and L es rule: get_type_get_type_signature_element_types.induct)
     (auto simp: Let_def intro!: rules throw primary_type convert find_fun variable_type
       split: option.splits llty.splits)

lemma value_emit: "keeps I E (value_emitter L v)"
  by (cases "vi_value (mv_value v)") (auto simp: value_emitter_def CreateGlobalStringPtr_def as_int_def as_varchar_def
      intro!: rules throw lift split: if_splits val_variant.splits)

lemma argument: "keeps I E (pass_argument L a v)"
  by (auto simp: pass_argument_def Let_def intro!: rules throw log emit split: llty.splits)

lemma refs:
  "keeps I E (VariableReference_get_ref n)" "keeps I E (MemberReference_get_ref q off)"
  "keeps I E r \<Longrightarrow> keeps I E (load_ref r)"
  "keeps I E m \<Longrightarrow> keeps I E (insert_element L m i prev)"
  by (auto simp: VariableReference_get_ref_def MemberReference_get_ref_def load_ref_def insert_element_def
      intro!: rules throw emit split: option.splits)

lemma get_value:
  "keeps I E (get_value L p e)" "keeps I E (get_ref L p e)" "keeps I E (args_value L p i es)"
  "keeps I E (row_value L p i es prev)" "keeps I E (array_value L p i es prev)"
  by (induction L p e and L p e and L p i es and L p i es prev and L p i es prev
      rule: get_value_get_ref_args_value_row_value_array_value.induct)
     (auto simp: getTypeByName_def intro!: rules throw log emit conditional get_type value_emit argument refs find_fun
       split: option.splits)

end

text \<open>Statements without jumps (unless allowed), with a loop condition, and with slots for their variables.\<close>

fun ok_stmt :: "bool \<Rightarrow> string set \<Rightarrow> stmt \<Rightarrow> bool" where
  "ok_stmt jumps lets (Block ss) \<longleftrightarrow> list_all (ok_stmt jumps lets) ss"
| "ok_stmt jumps lets (Transaction _ ss) \<longleftrightarrow> list_all (ok_stmt jumps lets) ss"
| "ok_stmt jumps lets (For init cond _ blk) \<longleftrightarrow>
     (case init of Ref i \<Rightarrow> ok_stmt jumps lets i | _ \<Rightarrow> True) \<and> (jumps \<or> cond \<noteq> Null) \<and>
     list_all (ok_stmt jumps lets) blk"
| "ok_stmt jumps lets (Jump _) \<longleftrightarrow> jumps"
| "ok_stmt jumps lets (Scan _ _ blk) \<longleftrightarrow> list_all (ok_stmt jumps lets) blk"
| "ok_stmt jumps lets (Let name _ _) \<longleftrightarrow> name \<in> lets"
| "ok_stmt jumps lets (If _ t f) \<longleftrightarrow> list_all (ok_stmt jumps lets) t \<and>
     (case f of None \<Rightarrow> True | Some f' \<Rightarrow> list_all (ok_stmt jumps lets) f')"
| "ok_stmt jumps lets _ \<longleftrightarrow> True"

locale codegen_inv = expr_inv I E for I :: "'i \<Rightarrow> 'db cg \<Rightarrow> bool" and E +
  fixes jumps :: bool and lets :: "string set"
  assumes funs: "keeps I E (functions_index k)"
    and schemas: "keeps I E (schema_index k)"
    and jump: "jumps \<Longrightarrow> keeps I E (Jump_codegen j)"
    and slot: "name \<in> lets \<Longrightarrow> I i c \<Longrightarrow> E = {} \<or> (\<exists>v. cg_vars c name = Some (Some v))"
    and If_rule: "keeps I E cond \<Longrightarrow> keeps I E t \<Longrightarrow> keeps I E f \<Longrightarrow> keeps I E (If_codegen L cond t f)"
    and For_rule: "keeps I E init \<Longrightarrow> (\<And>v. fc = Ref v \<Longrightarrow> keeps I E v) \<Longrightarrow> jumps \<or> fc \<noteq> Null \<Longrightarrow>
      (\<And>v. fs = Ref v \<Longrightarrow> keeps I E v) \<Longrightarrow> keeps I E blk \<Longrightarrow> keeps I E (For_codegen init fc fs blk)"
    and Scan_rule: "keeps I E blk \<Longrightarrow> keeps I E (Scan_codegen p table row blk)"
begin

lemma runtime: "keeps I E (call_runtime k args)"
  unfolding call_runtime_def by (intro rules funs emit)

lemmas runtime_defs = emit_begin_txn_def emit_precommit_txn_def emit_insert_def emit_get_cursor_def
  emit_is_valid_cursor_def emit_cursor_copy_key_def emit_cursor_copy_value_def emit_cursor_next_def
  emit_cursor_destroy_def

lemma let_code:
  assumes "name \<in> lets"
  shows "keeps I E (Let_codegen L p name e)"
proof -
  have "keeps I E (bindM (vars_index name) (\<lambda>stack. case stack of
      None \<Rightarrow> throwM (RuntimeError (''undefined variable: '' @ name))
    | Some s \<Rightarrow> bindP (get_value L (p @ [0]) e) (\<lambda>v. log_ins (IStore v s))))" (is "keeps I E (bindM _ ?f)")
  proof (cases "E = {}")
    case True
    have "keeps I E (throwM e)" for e by (simp add: True keeps_throw)
    then show ?thesis by (auto intro!: rules get_value log split: option.splits)
  next
    case False
    have f: "keeps I E (?f (Some v))" for v by (auto intro!: rules get_value log)
    have "bindM (vars_index name) ?f c = ?f (Some v) c" if "cg_vars c name = Some (Some v)" for c v
      using that by (simp add: bindM_def vars_index_def pmap_index_def)
    with slot [OF assms] False f show ?thesis unfolding keeps_def by metis
  qed
  from keeps_bind [OF get_type(1) this] show ?thesis unfolding Let_codegen_def .
qed

lemma cells:
  "keeps I E (Insert_cells sc buff ks vs is off ki vi)"
  "keeps I E (Scan_cells sc key vs is ko vo prev)"
proof -
  have len: "get_tuple_length sc i = Inl e \<Longrightarrow> e \<notin> no_slot" for i e
    by (auto simp: get_tuple_length_def attr_default_size_def at_default_size_def bindE_eq_Inl_iff split: if_splits)
  have key: "sc_is_key sc i = Inl e \<Longrightarrow> e \<notin> no_slot" for i e
    by (auto simp: sc_is_key_def bindE_eq_Inl_iff)
  show "keeps I E (Insert_cells sc buff ks vs is off ki vi)"
    using len key by (induction "is" arbitrary: off ki vi) (auto intro!: rules emit log lift)
  show "keeps I E (Scan_cells sc key vs is ko vo prev)"
    using key by (induction "is" arbitrary: ko vo prev) (auto intro!: rules emit log lift)
qed

lemma emit_code: "keeps I E (Emit_codegen L p e)"
  unfolding Emit_codegen_def
  by (auto intro!: rules throw log emit funs get_type get_value split: llty.splits)

lemma insert_code: "keeps I E (Insert_codegen L p table e)"
  unfolding Insert_codegen_def
  by (auto simp: runtime_defs intro!: rules throw log emit schemas get_type get_value runtime cells split: llty.splits)

lemma stmt_code:
  "ok_stmt jumps lets s \<Longrightarrow> keeps I E (codegen L p s)"
  "list_all (ok_stmt jumps lets) ss \<Longrightarrow> keeps I E (block_codegen L p i ss)"
  by (induction L p s and L p i ss rule: codegen_block_codegen.induct)
     (auto simp: runtime_defs map_slot_def intro!: rules throw get_value runtime let_code emit_code insert_code
       jump If_rule For_rule Scan_rule split: option.splits slot.splits)

end

text \<open>The slot phase.\<close>

locale alloca_inv = expr_inv I E for I :: "'i \<Rightarrow> 'db cg \<Rightarrow> bool" and E +
  assumes schema_tables: "keeps I E (schema_index k)"
    and setters: "keeps I E (set_vars n v)" "keeps I E (set_stack q v)" "keeps I E (set_node q h)"
    and globals: "keeps I E (find_or_create_prefix w)"
    and tables_made: "keeps I E (Define_alloca put schema n)" "keeps I E (DefineTuple_alloca n t)"
begin

lemma buffers: "keeps I E (alloca_buffers p sc a b)"
proof -
  have "add_default_sizes P as n = Inl e \<Longrightarrow> e \<notin> no_slot" for P as n e
    by (induction as arbitrary: n)
       (auto simp: attr_default_size_def at_default_size_def bindE_eq_Inl_iff split: if_splits)
  then show ?thesis
    unfolding alloca_buffers_def get_fixed_key_length_def get_fixed_value_length_def
    by (auto simp: bindE_eq_Inl_iff intro!: rules throw lift emit setters split: if_splits)
qed

lemma expr_slots: "keeps I E (ExprStatement_alloca L p e)"
proof -
  have ev: "each_value_at p e = Inl x \<Longrightarrow> x = Undefined"
    and "args_value_at p i es = Inl x \<Longrightarrow> x = Undefined"
    and "elems_value_at p i es = Inl x \<Longrightarrow> x = Undefined" for p e i es x
    by (induction p e and p i es and p i es arbitrary: x and x and x
        rule: each_value_at_args_value_at_elems_value_at.induct)
       (auto simp: bindE_eq_Inl_iff split: option.splits)
  show ?thesis
    unfolding ExprStatement_alloca_def value_alloca_def
    by (auto dest!: ev intro!: rules throw lift emit setters get_type keeps_each split: option.splits)
qed

lemma scan_slots: "keeps I E (Scan_alloca p table row)"
proof -
  have "Scan_row_attrs as = Inl e \<Longrightarrow> e \<notin> no_slot" for as e
    by (induction as) (auto simp: bindE_eq_Inl_iff split: if_splits)
  then show ?thesis
    unfolding Scan_alloca_def prefix_end_def
    by (auto intro!: rules throw lift emit setters schema_tables globals buffers split: if_splits)
qed

lemma stmt_slots: "keeps I E (alloca_stack put L p s)"
  by (induction put L p s rule: alloca_stack.induct)
     (auto simp: Emit_alloca_def Let_alloca_def Insert_alloca_def intro!: rules throw emit setters
       schema_tables globals tables_made buffers expr_slots scan_slots get_type split: slot.splits option.splits)

end

end
