(* ===== verification/Reir_Flow.thy ===== *)
theory Reir_Flow
  imports Reir_Invariants Reir_Typing
begin

text \<open>
  The control flow of generated code. A block is tidy when its only terminator, if it has one,
  is its last instruction and goes to blocks that exist. \<open>writing c rest b\<close> says that the
  builder points at the open block \<open>b\<close> and that \<open>rest\<close> are the other open blocks; every
  construct without jumps keeps \<open>rest\<close>, so that it closes every block it opens.
\<close>

section \<open>Blocks\<close>

fun targets :: "ins \<Rightarrow> nat set" where
  "targets (IBr b) = {b}"
| "targets (ICondBr _ a b) = {a, b}"
| "targets _ = {}"

definition nblocks :: "'db cg \<Rightarrow> nat" where
  "nblocks c = length (cg_blocks c)"

definition blk :: "'db cg \<Rightarrow> nat \<Rightarrow> ins list" where
  "blk c x = map snd (filter (\<lambda>y. fst y = x) (cg_code c))"

definition opened :: "ins list \<Rightarrow> bool" where
  "opened xs \<longleftrightarrow> list_all (\<lambda>i. \<not> is_terminator i) xs"

definition closed :: "ins list \<Rightarrow> bool" where
  "closed xs \<longleftrightarrow> xs \<noteq> [] \<and> is_terminator (last xs) \<and> opened (butlast xs)"

definition tidy :: "'db cg \<Rightarrow> bool" where
  "tidy c \<longleftrightarrow> list_all (\<lambda>(x, i). x < nblocks c \<and> targets i \<subseteq> {..<nblocks c}) (cg_code c) \<and>
     (\<forall>x < nblocks c. closed (blk c x) \<or> opened (blk c x))"

definition open_blocks :: "'db cg \<Rightarrow> nat set" where
  "open_blocks c = {x. x < nblocks c \<and> opened (blk c x)}"

definition writing :: "'db cg \<Rightarrow> nat set \<Rightarrow> nat \<Rightarrow> bool" where
  "writing c rest b \<longleftrightarrow> tidy c \<and> cg_point c = Some b \<and> b \<notin> rest \<and> open_blocks c = insert b rest"

definition ended :: "'db cg \<Rightarrow> nat set \<Rightarrow> bool" where
  "ended c rest \<longleftrightarrow> tidy c \<and> open_blocks c = rest"

lemma opened_simps [simp]: "opened []" "opened (xs @ ys) \<longleftrightarrow> opened xs \<and> opened ys"
  "opened (x # xs) \<longleftrightarrow> \<not> is_terminator x \<and> opened xs"
  by (simp_all add: opened_def)

lemma closed_not_opened: "closed xs \<Longrightarrow> \<not> opened xs"
  by (metis append_butlast_last_id closed_def opened_simps(2,3))

lemma closed_snoc [simp]: "closed (xs @ [x]) \<longleftrightarrow> is_terminator x \<and> opened xs"
  by (simp add: closed_def)

lemma nonterm_targets: "\<not> is_terminator i \<Longrightarrow> targets i = {}"
  by (cases i) simp_all

lemma bindM_Inr: "bindM m f c = Inr (y, c') \<longleftrightarrow> (\<exists>x c1. m c = Inr (x, c1) \<and> f x c1 = Inr (y, c'))"
  by (auto simp: bindM_def bindE_eq_Inr_iff)

lemma needM_Inr [simp]: "needM p c = Inr (y, c') \<longleftrightarrow> p = Some y \<and> c' = c"
  by (cases p) (auto simp: needM_def)

lemma bindP_Inr: "bindP m f c = Inr (y, c') \<longleftrightarrow> (\<exists>x c1. m c = Inr (Some x, c1) \<and> f x c1 = Inr (y, c'))"
  by (auto simp: bindP_def bindM_Inr)

lemma st_Inr [simp]:
  "returnM v c = Inr (y, c') \<longleftrightarrow> y = v \<and> c' = c" "throwM e c \<noteq> Inr z"
  "getM h c = Inr (w, c') \<longleftrightarrow> w = h c \<and> c' = c"
  "liftM r c = Inr (y, c') \<longleftrightarrow> r = Inr y \<and> c' = c"
  by (cases r; auto simp: returnM_def throwM_def getM_def liftM_def)+

lemma log_ins_Inr: "cg_point c = Some b \<Longrightarrow> log_ins i c = Inr (u, c') \<longleftrightarrow> c' = c\<lparr>cg_code := cg_code c @ [(b, i)]\<rparr>"
  by (auto simp: log_ins_def modM_def)

lemma blk_log: "blk (c\<lparr>cg_code := cg_code c @ [(b, i)]\<rparr>) x = (if x = b then blk c x @ [i] else blk c x)"
  by (simp add: blk_def)

lemma nblocks_log [simp]: "nblocks (c\<lparr>cg_code := xs\<rparr>) = nblocks c"
  by (simp add: nblocks_def)

lemma shape_cong:
  assumes "cg_blocks c' = cg_blocks c" "cg_code c' = cg_code c"
  shows "nblocks c' = nblocks c" "blk c' = blk c" "tidy c' = tidy c" "open_blocks c' = open_blocks c"
  using assms by (simp_all add: nblocks_def blk_def [abs_def] tidy_def open_blocks_def)

lemma open_in_range: "x \<in> open_blocks c \<Longrightarrow> x < nblocks c"
  by (simp add: open_blocks_def)

lemma writing_range: "writing c rest b \<Longrightarrow> x \<in> insert b rest \<Longrightarrow> x < nblocks c"
  using open_in_range [of x c] by (simp add: writing_def)

lemma log_writing:
  assumes "writing c rest b" "\<not> is_terminator i" "log_ins i c = Inr (u, c')"
  shows "writing c' rest b" "nblocks c' = nblocks c"
proof -
  from assms have c': "c' = c\<lparr>cg_code := cg_code c @ [(b, i)]\<rparr>" by (simp add: writing_def log_ins_Inr)
  show "nblocks c' = nblocks c" by (simp add: c')
  have b: "b \<in> open_blocks c" using assms(1) by (simp add: writing_def)
  have "open_blocks c' = open_blocks c"
    using assms(2) by (auto simp: open_blocks_def c' blk_log)
  moreover have "tidy c'"
    using assms(1,2) b by (auto simp: writing_def tidy_def c' blk_log nonterm_targets open_blocks_def)
  ultimately show "writing c' rest b" using assms(1) by (simp add: writing_def c')
qed

lemma log_ended:
  assumes "writing c rest b" "is_terminator i" "targets i \<subseteq> {..<nblocks c}" "log_ins i c = Inr (u, c')"
  shows "ended c' rest" "nblocks c' = nblocks c"
proof -
  from assms have c': "c' = c\<lparr>cg_code := cg_code c @ [(b, i)]\<rparr>" by (simp add: writing_def log_ins_Inr)
  show "nblocks c' = nblocks c" by (simp add: c')
  have b: "b \<in> open_blocks c" using assms(1) by (simp add: writing_def)
  have "open_blocks c' = open_blocks c - {b}"
    using assms(2) by (auto simp: open_blocks_def c' blk_log)
  moreover have "tidy c'"
    using assms b by (auto simp: writing_def tidy_def c' blk_log open_blocks_def)
  ultimately show "ended c' rest" using assms(1) by (simp add: writing_def ended_def)
qed

lemma create_writing:
  assumes "writing c rest b" "BasicBlock_Create name c = Inr (x, c')"
  shows "writing c' (insert x rest) b" "x \<notin> rest" "x \<noteq> b" "nblocks c' = Suc x" "nblocks c = x"
proof -
  from assms(2) have x: "x = nblocks c" and c': "c' = c\<lparr>cg_blocks := cg_blocks c @ [name]\<rparr>"
    by (auto simp: BasicBlock_Create_def nblocks_def)
  show n: "nblocks c' = Suc x" and "nblocks c = x" by (simp_all add: x c' nblocks_def)
  have blk: "blk c' y = blk c y" for y by (simp add: c' blk_def)
  have new: "blk c x = []"
    using assms(1) by (auto simp: writing_def tidy_def x blk_def list_all_iff filter_empty_conv)
  have o: "open_blocks c' = insert x (open_blocks c)"
    using new by (auto simp: open_blocks_def n blk x less_Suc_eq)
  show "x \<notin> rest" "x \<noteq> b" using writing_range [OF assms(1), of x] by (auto simp: x)
  have "list_all (\<lambda>(y, i). y < Suc x \<and> targets i \<subseteq> {..<Suc x}) (cg_code c)"
    using assms(1) by (fastforce simp: writing_def tidy_def x list_all_iff)
  then have "tidy c'"
    using assms(1) new by (simp add: writing_def tidy_def n blk x less_Suc_eq) (auto simp: c')
  with o assms(1) \<open>x \<notin> rest\<close> \<open>x \<noteq> b\<close> show "writing c' (insert x rest) b" by (auto simp: writing_def c')
qed

lemma set_writing:
  assumes "ended c (insert x rest)" "x \<notin> rest" "SetInsertPoint x c = Inr (u, c')"
  shows "writing c' rest x" "nblocks c' = nblocks c"
proof -
  have c': "c' = c\<lparr>cg_point := Some x\<rparr>" using assms(3) by (simp add: SetInsertPoint_def modM_def)
  show "nblocks c' = nblocks c" "writing c' rest x"
    using assms(1,2) shape_cong [of c' c] by (simp_all add: writing_def ended_def c')
qed

lemma same_writing:
  assumes "writing c rest b" "cg_blocks c' = cg_blocks c" "cg_code c' = cg_code c" "cg_point c' = cg_point c"
  shows "writing c' rest b" "nblocks c' = nblocks c"
  using assms shape_cong [OF assms(2,3)] by (simp_all add: writing_def)

section \<open>Every construct closes the blocks it opens\<close>

definition at_work :: "nat set \<times> nat \<Rightarrow> 'db cg \<Rightarrow> bool" where
  "at_work i c \<longleftrightarrow> (\<exists>b. writing c (fst i) b) \<and> snd i \<le> nblocks c"

definition at_rest :: "nat set \<times> nat \<Rightarrow> 'db cg \<Rightarrow> bool" where
  "at_rest i c \<longleftrightarrow> ended c (fst i) \<and> snd i \<le> nblocks c"

definition triple :: "('s \<Rightarrow> bool) \<Rightarrow> ('s, 'a) st \<Rightarrow> ('s \<Rightarrow> bool) \<Rightarrow> bool" where
  "triple P m Q \<longleftrightarrow> (\<forall>c x c'. P c \<longrightarrow> m c = Inr (x, c') \<longrightarrow> Q c')"

lemma keeps_triple: "keeps I {} m \<longleftrightarrow> (\<forall>i. triple (I i) m (I i))"
  by (auto simp: keeps_def triple_def split: sum.splits)

lemma triple_bind:
  "(\<And>c x c'. P c \<Longrightarrow> m c = Inr (x, c') \<Longrightarrow> P' x c' \<and> A x) \<Longrightarrow> (\<And>x. A x \<Longrightarrow> triple (P' x) (f x) Q) \<Longrightarrow>
   triple P (bindM m f) Q"
  unfolding triple_def bindM_Inr by blast

lemma create_bind:
  assumes "\<And>x. x \<notin> rest \<Longrightarrow> n \<le> x \<Longrightarrow> triple (at_work (insert x rest, Suc x)) (f x) Q"
  shows "triple (at_work (rest, n)) (bindM (BasicBlock_Create name) f) Q"
  by (rule triple_bind [where A = "\<lambda>x. x \<notin> rest \<and> n \<le> x" and P' = "\<lambda>x. at_work (insert x rest, Suc x)"])
     (use assms in \<open>auto simp: at_work_def dest: create_writing\<close>)

lemma part_bind:
  assumes "\<And>x. triple (at_work i) (f x) Q" "keeps at_work {} m"
  shows "triple (at_work i) (bindM m f) Q"
  by (rule triple_bind [where A = "\<lambda>_. True" and P' = "\<lambda>_. at_work i"])
     (use assms keepsD in \<open>fastforce+\<close>)

lemma part_bindP:
  assumes "\<And>x. triple (at_work i) (f x) Q" "keeps at_work {} m"
  shows "triple (at_work i) (bindP m f) Q"
  unfolding bindP_def by (intro part_bind assms keeps_need) simp

lemma end_bind:
  assumes "\<And>x. triple (at_rest (rest, n)) (f x) Q" "is_terminator i" "targets i \<subseteq> {..<n}"
  shows "triple (at_work (rest, n)) (bindM (log_ins i) f) Q"
proof (rule triple_bind [where A = "\<lambda>_. True" and P' = "\<lambda>_. at_rest (rest, n)"])
  fix c u c'
  assume "at_work (rest, n) c" and l: "log_ins i c = Inr (u, c')"
  then obtain b where w: "writing c rest b" and n: "n \<le> nblocks c" by (auto simp: at_work_def)
  have "targets i \<subseteq> {..<nblocks c}" using assms(3) n by auto
  from log_ended [OF w assms(2) this l] n show "at_rest (rest, n) c' \<and> True"
    by (simp add: at_rest_def)
qed (rule assms)

lemma set_bind:
  assumes "triple (at_work (S - {x}, n)) (f ()) Q" "x \<in> S"
  shows "triple (at_rest (S, n)) (bindM (SetInsertPoint x) f) Q"
proof (rule triple_bind [where A = "\<lambda>_. True" and P' = "\<lambda>_. at_work (S - {x}, n)"])
  fix c u c'
  assume "at_rest (S, n) c" and l: "SetInsertPoint x c = Inr (u, c')"
  then have "ended c (insert x (S - {x}))" "n \<le> nblocks c"
    using assms(2) by (auto simp: at_rest_def insert_absorb)
  from set_writing [OF this(1) _ l] this(2) show "at_work (S - {x}, n) c' \<and> True"
    by (auto simp: at_work_def)
qed (use assms in simp)

lemma work_last:
  assumes "keeps at_work {} m" "S = rest" "k \<le> n"
  shows "triple (at_work (S, n)) m (at_work (rest, k))"
  unfolding triple_def
proof (intro allI impI)
  fix c x c'
  assume w: "at_work (S, n) c" and m: "m c = Inr (x, c')"
  from keepsD [OF assms(1) w m] assms(2,3) show "at_work (rest, k) c'" by (simp add: at_work_def)
qed

lemma bindM_return: "bindM m returnM = m"
  by (auto simp: bindM_def returnM_def bindE_def fun_eq_iff split: sum.splits)

lemma set_last:
  assumes "S - {x} = rest" "x \<in> S" "k \<le> n"
  shows "triple (at_rest (S, n)) (SetInsertPoint x) (at_work (rest, k))"
  using set_bind [where f = returnM, OF work_last [OF keeps_return assms(1,3)] assms(2)]
  by (simp add: bindM_return)

lemma point_bind:
  assumes "\<And>x. triple (at_rest i) (f x) Q"
  shows "triple (at_rest i) (bindM (bindP (getM cg_point) returnM) f) Q"
  using assms by (auto simp: triple_def bindM_Inr bindP_Inr)

lemma bind_assoc: "bindM (bindP m g) f = bindP m (\<lambda>x. bindM (g x) f)"
  by (auto simp: bindP_def bindM_def needM_def bindE_def fun_eq_iff split: sum.splits option.splits)

lemma work_same:
  assumes "\<And>c x c'. m c = Inr (x, c') \<Longrightarrow>
    cg_blocks c' = cg_blocks c \<and> cg_code c' = cg_code c \<and> cg_point c' = cg_point c"
  shows "keeps at_work {} m"
proof (rule keepsI)
  fix i c x c'
  assume "at_work i c" "m c = Inr (x, c')"
  with assms [of c x c'] same_writing [of c "fst i" _ c'] show "at_work i c'" by (auto simp: at_work_def)
qed simp

lemma work_log: "\<not> is_terminator i \<Longrightarrow> keeps at_work {} (log_ins i)"
  by (rule keepsI) (auto simp: at_work_def dest: log_writing)

lemma work_tables:
  "keeps at_work {} freshM" "keeps at_work {} (types_index k)" "keeps at_work {} (set_types k t)"
  "keeps at_work {} (StructType_create n ts)" "keeps at_work {} (vars_index k)"
  "keeps at_work {} (stack_index q)" "keeps at_work {} (functions_index k)"
  "keeps at_work {} (schema_index k)" "keeps at_work {} (set_vars k v)" "keeps at_work {} (set_stack q v)"
  "keeps at_work {} (set_node q h)"
  by (rule work_same; auto simp: freshM_def types_index_def set_types_def modM_def StructType_create_def Let_def
      vars_index_def stack_index_def functions_index_def schema_index_def set_vars_def set_stack_def set_node_def
      split: prod.splits)+

lemma work_emit: "keeps at_work {} (emit_val op args)"
  unfolding emit_val_def by (intro keeps_bind work_tables work_log keeps_return) simp

lemma work_loops: "keeps at_work {} (enter_loopM a b c d)" "keeps at_work {} exit_loopM"
  by (rule work_same; auto simp: enter_loopM_def exit_loopM_def modM_def bindE_eq_Inr_iff)+

lemma work_runtime: "keeps at_work {} (call_runtime k args)"
  unfolding call_runtime_def by (intro keeps_bindP work_tables work_emit) simp

lemma work_to_i1: "keeps at_work {} (to_i1 L v)"
  by (simp add: to_i1_def work_emit)

lemmas work_rules = create_bind set_bind point_bind end_bind part_bindP part_bind

lemmas work_parts = keeps_return keeps_get keeps_need keeps_throw keeps_lift keeps_bind keeps_bindP
  work_tables work_emit work_log work_loops work_runtime work_to_i1

lemma work_If:
  assumes "keeps at_work {} cond" "keeps at_work {} t" "keeps at_work {} f"
  shows "keeps at_work {} (If_codegen L cond t f)"
proof -
  have "triple (at_work (rest, n)) (If_codegen L cond t f) (at_work (rest, n))" for rest n
    unfolding If_codegen_def
    by ((rule work_rules)+, rule set_last) (use assms work_emit in auto)
  then show ?thesis by (auto simp: keeps_triple)
qed

lemma work_conditional:
  assumes "keeps at_work {} lhs" "keeps at_work {} rhs"
  shows "keeps at_work {} (get_conditional_value L lhs rhs forAND)"
proof -
  have "triple (at_work (rest, n)) (get_conditional_value L lhs rhs forAND) (at_work (rest, n))" for rest n
    unfolding get_conditional_value_def
    by ((rule work_rules)+, rule work_last) (use assms in \<open>auto intro: work_parts\<close>)
  then show ?thesis by (auto simp: keeps_triple)
qed

lemma work_For:
  assumes "keeps at_work {} init" "\<And>v. cond = Ref v \<Longrightarrow> keeps at_work {} v" "cond \<noteq> Null"
    "\<And>v. step = Ref v \<Longrightarrow> keeps at_work {} v" "keeps at_work {} body"
  shows "keeps at_work {} (For_codegen init cond step body)"
proof -
  let ?step = "case step of Uninit \<Rightarrow> throwM Undefined | Null \<Rightarrow> returnM () | Ref v \<Rightarrow> bindM v (\<lambda>_. returnM ())"
  have step: "keeps at_work {} ?step"
    using assms(4) by (auto intro!: work_parts split: slot.splits)
  have "triple (at_work (rest, n)) (For_codegen init cond step body) (at_work (rest, n))" for rest n
  proof (cases cond)
    case (Ref v)
    show ?thesis
      unfolding For_codegen_def Ref slot.case bind_assoc
      by ((rule work_rules)+, rule work_last) (use assms step Ref in \<open>auto intro: work_parts\<close>)
  next
    case Uninit
    then show ?thesis by (simp add: triple_def For_codegen_def bindM_Inr)
  qed (use assms in simp)
  then show ?thesis by (auto simp: keeps_triple)
qed

lemma work_Scan:
  assumes "keeps at_work {} body"
  shows "keeps at_work {} (Scan_codegen p table row body)"
proof -
  have cells: "keeps at_work {} (Scan_cells sc key vs is ko vo prev)" for sc key vs "is" ko vo prev
    by (induction "is" arbitrary: ko vo prev) (auto intro!: work_parts)
  have "triple (at_work (rest, n)) (Scan_codegen p table row body) (at_work (rest, n))" for rest n
    unfolding Scan_codegen_def emit_get_cursor_def emit_is_valid_cursor_def emit_cursor_copy_key_def
      emit_cursor_copy_value_def emit_cursor_next_def emit_cursor_destroy_def
    by ((rule work_rules)+, rule work_last) (use assms cells in \<open>auto intro!: work_parts\<close>)
  then show ?thesis by (auto simp: keeps_triple)
qed

interpretation flow: codegen_inv at_work "{}" False UNIV
  by unfold_locales (auto intro: work_parts work_conditional work_If work_For work_Scan)

interpretation flow_slots: alloca_inv at_work "{}"
proof
  show "keeps at_work {} (find_or_create_prefix w)" for w
    by (rule work_same)
       (auto simp: find_or_create_prefix_def CreateGlobalStringPtr_def bindM_Inr modM_def freshM_def split: option.splits)
  show "keeps at_work {} (Define_alloca put schema n)" "keeps at_work {} (DefineTuple_alloca n t)" for put schema n t
    by (rule work_same; auto simp: Define_alloca_def DefineTuple_alloca_def bindM_Inr modM_def)+
qed (auto intro: work_parts work_conditional)

section \<open>Whole programs\<close>

lemma ok_erase: "ok_stmt j lets (erase_stmt s) \<longleftrightarrow> ok_stmt j lets s"
proof (induction s rule: erase_stmt.induct)
  case (4 init cond every blk)
  then show ?case by (cases init; cases cond) (auto simp: list_all_iff)
next
  case (11 cond t f)
  then show ?case by (cases f) (auto simp: list_all_iff)
qed (auto simp: list_all_iff)

lemma compile_stages:
  assumes "compile put L addr ast c = Inr (u, c')" "cg_blocks c = []" "cg_code c = []"
  obtains ast' x x' c5 u6 c6 u7 c7 where
    "stmt_analyze addr ast x = Inr (ast', x')"
    "cg_blocks c5 = [''entry_jit'']" "cg_code c5 = []" "cg_point c5 = Some 0" "cg_vars c5 = cg_vars c"
    "alloca_all put L ast' c5 = Inr (u6, c6)" "codegen L [] ast' c6 = Inr (u7, c7)"
    "log_ins (IRet (LConst LI1 1)) c7 = Inr (u, c')"
proof -
  obtain u1 c1 u2 c2 ast' c3 bb c4 u5 c5 u6 c6 u7 c7 where
    r: "init_types c = Inr (u1, c1)" "init_functions c1 = Inr (u2, c2)" "analyzeM addr ast c2 = Inr (ast', c3)"
    "BasicBlock_Create ''entry_jit'' c3 = Inr (bb, c4)" "SetInsertPoint bb c4 = Inr (u5, c5)"
    and rest: "alloca_all put L ast' c5 = Inr (u6, c6)" "codegen L [] ast' c6 = Inr (u7, c7)"
    "log_ins (IRet (LConst LI1 1)) c7 = Inr (u, c')"
    using assms(1) by (auto simp: compile_def bindM_Inr)
  have "cg_blocks c1 = [] \<and> cg_code c1 = [] \<and> cg_vars c1 = cg_vars c"
    using r(1) assms(2,3) by (auto simp: init_types_def bindM_Inr getTypeByName_def set_types_def modM_def
        StructType_create_def Let_def split: option.splits)
  then have "cg_blocks c2 = [] \<and> cg_code c2 = [] \<and> cg_vars c2 = cg_vars c"
    using r(2) by (auto simp: init_functions_def bindM_Inr bindP_Inr declare_function_def set_functions_def modM_def
        types_index_def split: prod.splits)
  then have "cg_blocks c3 = []" "cg_code c3 = []" "cg_vars c3 = cg_vars c"
    and an: "\<exists>x. stmt_analyze addr ast (cg_ctx c2) = Inr (ast', x)"
    using r(3) by (auto simp: analyzeM_def bindE_eq_Inr_iff)
  moreover from this have "cg_blocks c5 = [''entry_jit'']" "cg_code c5 = []" "cg_point c5 = Some 0" "cg_vars c5 = cg_vars c"
    using r(4,5) by (auto simp: BasicBlock_Create_def SetInsertPoint_def modM_def)
  ultimately show thesis using that rest by blast
qed

lemma compile_writing:
  assumes "compile put L addr ast c = Inr (u, c')" "cg_blocks c = []" "cg_code c = []" "ok_stmt False UNIV ast"
  shows "ended c' {}"
proof -
  from compile_stages [OF assms(1-3)] obtain ast' x x' c5 u6 c6 u7 c7 where
    an: "stmt_analyze addr ast x = Inr (ast', x')"
    and c5: "cg_blocks c5 = [''entry_jit'']" "cg_code c5 = []" "cg_point c5 = Some 0"
    and r: "alloca_all put L ast' c5 = Inr (u6, c6)" "codegen L [] ast' c6 = Inr (u7, c7)"
    "log_ins (IRet (LConst LI1 1)) c7 = Inr (u, c')" .
  from c5 have "writing c5 {} 0"
    by (auto simp: writing_def tidy_def open_blocks_def nblocks_def blk_def)
  then have "at_work ({}, 0) c5" by (auto simp: at_work_def)
  moreover have "keeps at_work {} (alloca_all put L ast')"
    unfolding alloca_all_def by (auto intro!: keeps_bind keeps_lift keeps_each flow_slots.stmt_slots)
  ultimately have "at_work ({}, 0) c6" using r(1) by (blast dest: keepsD)
  moreover have "ok_stmt False UNIV ast'"
    using an assms(4) stmt_analyze_erase(1) ok_erase by metis
  ultimately have "at_work ({}, 0) c7" using keepsD [OF flow.stmt_code(1) _ r(2)] by blast
  then obtain b where "writing c7 {} b" by (auto simp: at_work_def)
  from log_ended(1) [OF this _ _ r(3)] show ?thesis by simp
qed

lemma ended_blocks:
  assumes "ended c {}" "b < nblocks c"
  obtains body t where "blk c b = body @ [t]" "is_terminator t" "opened body" "targets t \<subseteq> {..<nblocks c}"
proof -
  have "closed (blk c b)" using assms by (auto simp: ended_def tidy_def open_blocks_def)
  then have c: "blk c b = butlast (blk c b) @ [last (blk c b)]" "is_terminator (last (blk c b))" "opened (butlast (blk c b))"
    by (auto simp: closed_def)
  then have "last (blk c b) \<in> set (blk c b)" by (metis last_in_set snoc_eq_iff_butlast)
  then have "(b, last (blk c b)) \<in> set (cg_code c)" by (auto simp: blk_def)
  then have "targets (last (blk c b)) \<subseteq> {..<nblocks c}"
    using assms(1) by (fastforce simp: ended_def tidy_def list_all_iff)
  with c that show thesis by blast
qed

end
