(* ===== verification/Reir_Steps.thy ===== *)
theory Reir_Steps
  imports Reir_Flow
begin

text \<open>
  Invariants of the generator that jumps keep as well: the loop stack, the code already
  emitted, the builder's position and the slots of variables. With \<^verbatim>\<open>Reir_Flow\<close> this
  gives the properties of whole programs.
\<close>

section \<open>Other invariants\<close>

text \<open>\<open>For::codegen\<close> between entering and leaving the loop context.\<close>

definition For_middle ::
    "nat \<Rightarrow> nat \<Rightarrow> nat \<Rightarrow> nat \<Rightarrow> ('db cg, llval option) st slot \<Rightarrow> ('db cg, llval option) st slot \<Rightarrow>
     ('db cg, unit) st \<Rightarrow> ('db cg, unit) st" where
  "For_middle begin body every finish cond step bl =
     bindM (log_ins (IBr begin)) (\<lambda>_.
     bindM (SetInsertPoint begin) (\<lambda>_.
     bindM (case cond of
              Uninit \<Rightarrow> throwM Undefined
            | Null \<Rightarrow> returnM ()
            | Ref v \<Rightarrow> bindP v (\<lambda>ret. log_ins (ICondBr ret body finish))) (\<lambda>_.
     bindM (SetInsertPoint body) (\<lambda>_.
     bindM bl (\<lambda>_.
     bindM (log_ins (IBr every)) (\<lambda>_.
     bindM (SetInsertPoint every) (\<lambda>_.
     bindM (case step of
              Uninit \<Rightarrow> throwM Undefined
            | Null \<Rightarrow> returnM ()
            | Ref v \<Rightarrow> bindM v (\<lambda>_. returnM ())) (\<lambda>_.
     bindM (log_ins (IBr begin)) (\<lambda>_.
     SetInsertPoint finish)))))))))"

lemma bindM_assoc: "bindM (bindM m f) g = bindM m (\<lambda>x. bindM (f x) g)"
  by (auto simp: bindM_def bindE_def fun_eq_iff split: sum.splits)

lemma For_codegen_middle:
  "For_codegen init cond step bl =
     bindM init (\<lambda>_.
     bindM (BasicBlock_Create ''for_begin'') (\<lambda>begin.
     bindM (BasicBlock_Create ''for_body'') (\<lambda>body.
     bindM (BasicBlock_Create ''for_every'') (\<lambda>every.
     bindM (BasicBlock_Create ''for_finish'') (\<lambda>finish.
     bindM (enter_loopM begin body every finish) (\<lambda>_.
     bindM (For_middle begin body every finish cond step bl) (\<lambda>_.
     exit_loopM)))))))"
  unfolding For_codegen_def For_middle_def bindM_assoc ..

text \<open>Invariants that no single step of the generator breaks, jumps included.\<close>

locale step_inv =
  fixes I :: "'i \<Rightarrow> 'db cg \<Rightarrow> bool" and E :: "err set" and lets :: "string set"
  assumes step_errors: "E \<subseteq> no_slot"
    and step_fresh: "keeps I E freshM"
    and step_log: "keeps I E (log_ins ins)"
    and step_types: "keeps I E (types_index k)" "keeps I E (set_types k t)" "keeps I E (StructType_create n ts)"
    and step_tables: "keeps I E (vars_index k)" "keeps I E (stack_index q)" "keeps I E (functions_index k)"
      "keeps I E (schema_index k)"
    and step_blocks: "keeps I E (BasicBlock_Create nm)" "keeps I E (SetInsertPoint b)"
    and step_loop: "keeps I E (body :: ('db cg, unit) st) \<Longrightarrow>
      keeps I E (bindM (enter_loopM b1 b2 b3 b4) (\<lambda>_. bindM body (\<lambda>_. exit_loopM)))"
    and step_slot: "name \<in> lets \<Longrightarrow> I i c \<Longrightarrow> E = {} \<or> (\<exists>v. cg_vars c name = Some (Some v))"
begin

lemma step_undef: "Undefined \<notin> E"
  using step_errors by auto

lemmas steps = keeps_bind keeps_bindP [OF step_undef] keeps_need [OF step_undef] keeps_throw [OF step_undef]
  keeps_return keeps_get step_fresh step_log step_types step_tables step_blocks

lemma step_emit: "keeps I E (emit_val op args)"
  unfolding emit_val_def by (intro steps)

lemma step_conditional:
  "keeps I E lhs \<Longrightarrow> keeps I E rhs \<Longrightarrow> keeps I E (get_conditional_value L lhs rhs b)"
  unfolding get_conditional_value_def to_i1_def by (auto intro!: steps step_emit)

lemma step_If: "keeps I E cond \<Longrightarrow> keeps I E t \<Longrightarrow> keeps I E f \<Longrightarrow> keeps I E (If_codegen L cond t f)"
  unfolding If_codegen_def by (auto intro!: steps step_emit)

lemma step_Scan:
  assumes "keeps I E body"
  shows "keeps I E (Scan_codegen p table row body)"
proof -
  have lift: "(\<And>e. r = Inl e \<Longrightarrow> e = Undefined) \<Longrightarrow> keeps I E (liftM r)" for r :: "'x res"
    using step_undef by (intro keeps_lift) blast
  have cells: "keeps I E (Scan_cells sc key vs is ko vo prev)" for sc key vs "is" ko vo prev
    by (induction "is" arbitrary: ko vo prev)
       (auto intro!: steps step_emit lift simp: sc_is_key_def bindE_eq_Inl_iff)
  show ?thesis
    unfolding Scan_codegen_def emit_get_cursor_def emit_is_valid_cursor_def emit_cursor_copy_key_def
      emit_cursor_copy_value_def emit_cursor_next_def emit_cursor_destroy_def call_runtime_def prefix_end_def
    by (auto intro!: steps step_emit lift cells assms split: if_splits)
qed

lemma step_For:
  assumes "keeps I E init" "\<And>v. cond = Ref v \<Longrightarrow> keeps I E v" "\<And>v. step = Ref v \<Longrightarrow> keeps I E v" "keeps I E body"
  shows "keeps I E (For_codegen init cond step body)"
proof -
  have "keeps I E (For_middle a b c d cond step body)" for a b c d
    using assms unfolding For_middle_def by (auto intro!: steps split: slot.splits)
  note loop = step_loop [OF this]
  show ?thesis
    unfolding For_codegen_middle
    by (rule keeps_bind [OF assms(1)], (rule keeps_bind, rule step_blocks)+, rule loop)
qed

lemma step_Jump: "keeps I E (Jump_codegen j)"
  unfolding Jump_codegen_def by (auto intro!: steps split: list.splits)

end

sublocale step_inv \<subseteq> codegen_inv I E True lets
  by unfold_locales
     (use step_errors step_slot in \<open>auto intro: steps step_conditional step_If step_For step_Scan step_Jump\<close>)

text \<open>The loop stack is as it was, instructions are only added, and slots stay.\<close>

definition loops_are :: "loop_context list \<Rightarrow> 'db cg \<Rightarrow> bool" where
  "loops_are l c \<longleftrightarrow> cx_loop (cg_ctx c) = l"

definition code_after :: "(nat \<times> ins) list \<Rightarrow> 'db cg \<Rightarrow> bool" where
  "code_after xs c \<longleftrightarrow> prefix xs (cg_code c)"

definition slots_for :: "string set \<Rightarrow> unit \<Rightarrow> 'db cg \<Rightarrow> bool" where
  "slots_for ns i c \<longleftrightarrow> (\<forall>n \<in> ns. \<exists>v. cg_vars c n = Some (Some v))"

lemmas step_defs = freshM_def log_ins_def types_index_def set_types_def modM_def StructType_create_def Let_def
  vars_index_def stack_index_def functions_index_def schema_index_def BasicBlock_Create_def SetInsertPoint_def
  enter_loopM_def exit_loopM_def

interpretation loops: step_inv loops_are "{}" UNIV
proof
  fix body :: "('c cg, unit) st" and b1 b2 b3 b4
  assume body: "keeps loops_are {} body"
  show "keeps loops_are {} (bindM (enter_loopM b1 b2 b3 b4) (\<lambda>_. bindM body (\<lambda>_. exit_loopM)))"
  proof (rule keepsI)
    fix l and c :: "'c cg" and u c'
    assume "loops_are l c" and "bindM (enter_loopM b1 b2 b3 b4) (\<lambda>_. bindM body (\<lambda>_. exit_loopM)) c = Inr (u, c')"
    then obtain x c2 where m: "body (c\<lparr>cg_ctx := enter_loop b1 b2 b3 b4 (cg_ctx c)\<rparr>) = Inr (x, c2)"
      and e: "exit_loopM c2 = Inr (u, c')" and l: "cx_loop (cg_ctx c) = l"
      by (auto simp: bindM_Inr enter_loopM_def modM_def loops_are_def)
    have "loops_are (\<lparr>lc_begin = b1, lc_body = b2, lc_every = b3, lc_finish = b4\<rparr> # l) c2"
      using keepsD [OF body _ m] l by (simp add: loops_are_def enter_loop_def)
    with e show "loops_are l c'"
      by (auto simp: loops_are_def exit_loopM_def exit_loop_ctx_def)
  qed simp
qed (auto simp: keeps_def loops_are_def step_defs split: prod.splits option.splits)

interpretation growth: step_inv code_after "{}" UNIV
proof
  fix body :: "('c cg, unit) st" and b1 b2 b3 b4
  assume body: "keeps code_after {} body"
  have "keeps code_after {} (enter_loopM b1 b2 b3 b4)" "keeps code_after {} (exit_loopM :: ('c cg, unit) st)"
    by (auto simp: keeps_def code_after_def step_defs bindE_def split: sum.splits)
  with body show "keeps code_after {} (bindM (enter_loopM b1 b2 b3 b4) (\<lambda>_. bindM body (\<lambda>_. exit_loopM)))"
    by (intro keeps_bind)
qed (auto simp: keeps_def code_after_def step_defs split: prod.splits option.splits)

interpretation slots: step_inv "slots_for ns" no_slot ns for ns
proof
  fix body :: "('c cg, unit) st" and b1 b2 b3 b4
  assume body: "keeps (slots_for ns) no_slot body"
  have "keeps (slots_for ns) no_slot (enter_loopM b1 b2 b3 b4)"
    "keeps (slots_for ns) no_slot (exit_loopM :: ('c cg, unit) st)"
    by (auto simp: keeps_def slots_for_def step_defs exit_loop_ctx_def split: list.splits)
  with body show "keeps (slots_for ns) no_slot (bindM (enter_loopM b1 b2 b3 b4) (\<lambda>_. bindM body (\<lambda>_. exit_loopM)))"
    by (intro keeps_bind)
next
  show "keeps (slots_for ns) no_slot (vars_index k)" for k
    by (auto simp: keeps_def slots_for_def step_defs pmap_index_def split: option.splits)
qed (auto simp: keeps_def slots_for_def step_defs split: prod.splits option.splits)

end
