(* ===== verification/Reir_Programs.thy ===== *)
theory Reir_Programs
  imports Reir_Steps
begin

text \<open>
  What the invariants give for whole programs: the blocks of a compiled program, the loop
  stack, the slots of variables, and what a jump does to the block it stands in.
\<close>

section \<open>Jumps\<close>

text \<open>The builder points at some block.\<close>

definition pointed :: "unit \<Rightarrow> 'db cg \<Rightarrow> bool" where
  "pointed i c \<longleftrightarrow> cg_point c \<noteq> None"

interpretation pointed: step_inv pointed "{}" UNIV
proof
  fix body :: "('c cg, unit) st" and b1 b2 b3 b4
  assume body: "keeps pointed {} body"
  have "keeps pointed {} (enter_loopM b1 b2 b3 b4)" "keeps pointed {} (exit_loopM :: ('c cg, unit) st)"
    by (auto simp: keeps_def pointed_def step_defs bindE_def split: sum.splits)
  with body show "keeps pointed {} (bindM (enter_loopM b1 b2 b3 b4) (\<lambda>_. bindM body (\<lambda>_. exit_loopM)))"
    by (intro keeps_bind)
qed (auto simp: keeps_def pointed_def step_defs split: prod.splits option.splits)

lemma ok_any: "ok_stmt True UNIV s"
  by (induction s rule: erase_stmt.induct) (auto simp: list_all_iff split: slot.splits option.splits)

lemma block_codegen_append:
  "block_codegen L p i (xs @ ys) = bindM (block_codegen L p i xs) (\<lambda>_. block_codegen L p (i + length xs) ys)"
  by (induction xs arbitrary: i) (auto simp: bindM_assoc bindM_def returnM_def fun_eq_iff)

lemma jump_then_branch:
  assumes "block_codegen L p i (ss @ [Jump j]) c = Inr (u, c1)" "log_ins (IBr x) c1 = Inr (v, c2)" "cg_point c \<noteq> None"
  shows "\<exists>b t pre. cg_code c2 = pre @ [(b, IBr t), (b, IBr x)]"
proof -
  obtain w c0 where s: "block_codegen L p i ss c = Inr (w, c0)" and j: "Jump_codegen j c0 = Inr (u, c1)"
    using assms(1) by (auto simp: block_codegen_append bindM_Inr)
  have "pointed () c0"
    using keepsD [OF pointed.stmt_code(2) _ s, of "()"] assms(3) by (simp add: pointed_def ok_any list_all_iff)
  then obtain b where "cg_point c0 = Some b" by (auto simp: pointed_def)
  with j assms(2) show ?thesis
    by (auto simp: Jump_codegen_def bindM_Inr log_ins_def modM_def split: list.splits)
qed

lemma blk_prefix:
  assumes "prefix (pre @ [(b, i1), (b, i2)]) (cg_code c)"
  shows "\<exists>xs ys. blk c b = xs @ i1 # i2 # ys"
  using assms by (auto simp: prefix_def blk_def) blast

lemma prefix_log:
  "log_ins i c = Inr (u, c') \<Longrightarrow> prefix (cg_code c) (cg_code c')"
  "SetInsertPoint b c = Inr (u, c') \<Longrightarrow> cg_code c' = cg_code c"
  by (auto simp: log_ins_def SetInsertPoint_def modM_def prefix_def split: option.splits)

lemma prefix_stmts:
  "block_codegen L p i ss c = Inr (u, c') \<Longrightarrow> prefix (cg_code c) (cg_code c')"
  using keepsD [OF growth.stmt_code(2), of ss "cg_code c" c L p i] by (auto simp: code_after_def ok_any list_all_iff)

lemma If_jump_twice:
  assumes "codegen L p (If cond (ss @ [Jump j]) f) c = Inr (u, c')"
  shows "\<exists>b xs t x ys. blk c' b = xs @ IBr t # IBr x # ys"
proof -
  obtain tb fb fin c1 c2 c3 c4 c5 c6 c7 u1 u2 u3 u4 u5 u6 where
    1: "SetInsertPoint tb c1 = Inr (u1, c2)" "block_codegen L (p @ [1]) 0 (ss @ [Jump j]) c2 = Inr (u2, c3)"
    "log_ins (IBr fin) c3 = Inr (u3, c4)" and 2: "SetInsertPoint fb c4 = Inr (u4, c5)"
    "(case f of None \<Rightarrow> returnM () | Some f' \<Rightarrow> block_codegen L (p @ [2]) 0 f') c5 = Inr (u5, c6)"
    "log_ins (IBr fin) c6 = Inr (u6, c7)" "SetInsertPoint fin c7 = Inr (u, c')"
    using assms by (auto simp: If_codegen_def bindM_Inr bindP_Inr)
  from jump_then_branch [OF 1(2,3)] 1(1) obtain b t pre where "cg_code c4 = pre @ [(b, IBr t), (b, IBr fin)]"
    by (auto simp: SetInsertPoint_def modM_def)
  moreover have "prefix (cg_code c5) (cg_code c6)" using 2(2) prefix_stmts by (cases f) auto
  then have "prefix (cg_code c4) (cg_code c')"
    using prefix_log(2) [OF 2(1)] prefix_log(1) [OF 2(3)] prefix_log(2) [OF 2(4)] by (metis prefix_order.trans)
  ultimately show ?thesis using blk_prefix by metis
qed

lemma For_jump_twice:
  assumes "codegen L p (For init cond every (ss @ [Jump j])) c = Inr (u, c')"
  shows "\<exists>b xs t x ys. blk c' b = xs @ IBr t # IBr x # ys"
proof -
  obtain bd ev fin b0 c1 c2 c3 c4 c5 c6 c7 c8 u1 u2 u3 u4 u5 u6 u7 v where
    1: "SetInsertPoint bd c1 = Inr (u1, c2)" "block_codegen L (p @ [3]) 0 (ss @ [Jump j]) c2 = Inr (u2, c3)"
    "log_ins (IBr ev) c3 = Inr (u3, c4)" and 2: "SetInsertPoint ev c4 = Inr (u4, c5)"
    "(case map_slot (get_value L (p @ [2])) every of
              Uninit \<Rightarrow> throwM Undefined
            | Null \<Rightarrow> returnM ()
            | Ref v \<Rightarrow> bindM v (\<lambda>_. returnM ())) c5 = Inr (u5, c6)"
    "log_ins (IBr b0) c6 = Inr (u6, c7)" "SetInsertPoint fin c7 = Inr (u7, c8)" "exit_loopM c8 = Inr (u, c')"
    using assms by (auto simp: For_codegen_def bindM_Inr bindP_Inr)
  from jump_then_branch [OF 1(2,3)] 1(1) obtain b t pre where "cg_code c4 = pre @ [(b, IBr t), (b, IBr ev)]"
    by (auto simp: SetInsertPoint_def modM_def)
  moreover have "prefix (cg_code c5) (cg_code c6)"
    using 2(2) keepsD [OF growth.get_value(1), of "cg_code c5" c5]
    by (auto simp: code_after_def map_slot_def bindM_Inr split: slot.splits)
  then have "prefix (cg_code c4) (cg_code c')"
    using prefix_log(2) [OF 2(1)] prefix_log(1) [OF 2(3)] prefix_log(2) [OF 2(4)] 2(5)
    by (auto simp: exit_loopM_def bindE_eq_Inr_iff)
  ultimately show ?thesis using blk_prefix by metis
qed

section \<open>Slots\<close>

text \<open>The statements whose loops are initialised by a statement without parts.\<close>

fun leaf :: "stmt \<Rightarrow> bool" where
  "leaf (Block _) = False"
| "leaf (Transaction _ _) = False"
| "leaf (For _ _ _ _) = False"
| "leaf (Scan _ _ _) = False"
| "leaf (If _ _ _) = False"
| "leaf _ = True"

fun leaf_inits :: "stmt \<Rightarrow> bool" where
  "leaf_inits (Block ss) \<longleftrightarrow> list_all leaf_inits ss"
| "leaf_inits (Transaction _ ss) \<longleftrightarrow> list_all leaf_inits ss"
| "leaf_inits (For init _ _ ss) \<longleftrightarrow> (case init of Ref i \<Rightarrow> leaf i | _ \<Rightarrow> True) \<and> list_all leaf_inits ss"
| "leaf_inits (Scan _ _ ss) \<longleftrightarrow> list_all leaf_inits ss"
| "leaf_inits (If _ t f) \<longleftrightarrow> list_all leaf_inits t \<and> (case f of None \<Rightarrow> True | Some f' \<Rightarrow> list_all leaf_inits f')"
| "leaf_inits _ \<longleftrightarrow> True"

definition lets_of :: "(path \<times> stmt) list \<Rightarrow> string set" where
  "lets_of nodes = {n. \<exists>q ty e. (q, Let n ty e) \<in> set nodes}"

lemma lets_of_simps [simp]:
  "lets_of [] = {}" "lets_of (xs @ ys) = lets_of xs \<union> lets_of ys"
  by (auto simp: lets_of_def)

lemma lets_of_one: "lets_of [(q, s)] = (case s of Let n _ _ \<Rightarrow> {n} | _ \<Rightarrow> {})"
  by (auto simp: lets_of_def split: stmt.splits)

lemma ok_mono: "ok_stmt j A s \<Longrightarrow> A \<subseteq> B \<Longrightarrow> ok_stmt j B s"
proof (induction s rule: erase_stmt.induct)
  case (4 init cond every blk)
  then show ?case by (cases init) (auto simp: list_all_iff)
next
  case (11 cond t f)
  then show ?case by (cases f) (auto simp: list_all_iff)
qed (auto simp: list_all_iff)

lemma ok_list_mono: "list_all (ok_stmt j A) ss \<Longrightarrow> A \<subseteq> B \<Longrightarrow> list_all (ok_stmt j B) ss"
  using ok_mono by (auto simp: list_all_iff)

lemma leaf_ok: "leaf s \<Longrightarrow> ok_stmt True (lets_of [(q, s)]) s"
  by (cases s) (auto simp: lets_of_def)

lemma lets_of_sub: "lets_of xs \<subseteq> lets_of (x # xs)" "lets_of xs \<subseteq> lets_of (xs @ ys)" "lets_of ys \<subseteq> lets_of (xs @ ys)"
  by (auto simp: lets_of_def)

lemmas ok_sub = ok_mono [OF _ lets_of_sub(1)] ok_list_mono [OF _ lets_of_sub(1)]
  ok_list_mono [OF _ lets_of_sub(2)] ok_list_mono [OF _ lets_of_sub(3)]

lemma visited_ok:
  "each_statement_at p s = Inr xs \<Longrightarrow> leaf_inits s \<Longrightarrow> ok_stmt True (lets_of ((p, s) # xs)) s"
  "block_statement_at p i ss = Inr xs \<Longrightarrow> list_all leaf_inits ss \<Longrightarrow> list_all (ok_stmt True (lets_of xs)) ss"
proof (induction p s and p i ss arbitrary: xs and xs rule: each_statement_at_block_statement_at.induct)
  case (3 p init cond every bl)
  from "3.prems"(1) obtain ys zs where
    y: "(case init of Uninit \<Rightarrow> Inl Undefined | Null \<Rightarrow> Inr [] | Ref i \<Rightarrow> Inr [(p @ [0], i)]) = Inr ys"
    and z: "block_statement_at (p @ [3]) 0 bl = Inr zs" and xs: "xs = ys @ zs"
    by (auto simp: bindE_eq_Inr_iff)
  have "list_all (ok_stmt True (lets_of xs)) bl"
    using "3.IH" [OF y z] "3.prems"(2) unfolding xs by (simp add: ok_sub(4) del: lets_of_simps)
  moreover have "ok_stmt True (lets_of xs) i" if "init = Ref i" for i
    using that y "3.prems"(2) ok_mono [OF leaf_ok [of i "p @ [0]"], of "lets_of xs"] by (auto simp: xs)
  ultimately have "ok_stmt True (lets_of xs) (For init cond every bl)" by (auto split: slot.splits)
  then show ?case by (rule ok_sub(1))
next
  case (5 p cond t f)
  from "5.prems"(1) obtain ys zs where y: "block_statement_at (p @ [1]) 0 t = Inr ys"
    and z: "(case f of None \<Rightarrow> Inr [] | Some f' \<Rightarrow> block_statement_at (p @ [2]) 0 f') = Inr zs"
    and xs: "xs = ys @ zs"
    by (auto simp: bindE_eq_Inr_iff)
  have "list_all (ok_stmt True (lets_of xs)) t"
    using "5.IH"(1) [OF y] "5.prems"(2) unfolding xs by (simp add: ok_sub(3) del: lets_of_simps)
  moreover have "list_all (ok_stmt True (lets_of xs)) f'" if "f = Some f'" for f'
    using that z "5.IH"(2) [OF y, of f' zs] "5.prems"(2) unfolding xs by (simp add: ok_sub(4) del: lets_of_simps)
  ultimately have "ok_stmt True (lets_of xs) (If cond t f)" by (auto split: option.splits)
  then show ?case by (rule ok_sub(1))
next
  case (8 p i s ss)
  from "8.prems"(1) obtain ys zs where y: "each_statement_at (p @ [i]) s = Inr ys"
    and z: "block_statement_at p (Suc i) ss = Inr zs" and xs: "xs = ((p @ [i], s) # ys) @ zs"
    by (auto simp: bindE_eq_Inr_iff)
  have "ok_stmt True (lets_of ((p @ [i], s) # ys)) s" using "8.IH"(1) [OF y] "8.prems"(2) by simp
  then have "ok_stmt True (lets_of xs) s" unfolding xs by (rule ok_mono [OF _ lets_of_sub(2)])
  moreover have "list_all (ok_stmt True (lets_of xs)) ss"
    using "8.IH"(2) [OF y z] "8.prems"(2) unfolding xs by (intro ok_sub(4)) simp
  ultimately show ?case by simp
qed (auto simp: lets_of_one intro: ok_sub(1,2))


interpretation kept_slots: alloca_inv "slots_for ns" no_slot for ns
proof
  have tables: "keeps (slots_for ns) no_slot m"
    if "\<And>c x c'. m c = Inr (x, c') \<Longrightarrow> cg_vars c' = cg_vars c" "\<And>c e. m c = Inl e \<Longrightarrow> e = Undefined"
    for m :: "('b cg, 'x) st"
    using that(1) by (intro keepsI) (use that(2) in \<open>auto simp: slots_for_def\<close>, metis no_slot_simps(1))
  have column: "Define_column t i = Inl e \<Longrightarrow> e = Undefined" for t i e
    by (auto simp: Define_column_def Let_def split: if_splits option.splits)
  have columns: "Define_columns t is = Inl e \<Longrightarrow> e = Undefined" for t "is" e
    by (induction "is") (auto simp: bindE_eq_Inl_iff dest: column)
  show "keeps (slots_for ns) no_slot (find_or_create_prefix w)" for w
    by (rule tables)
       (auto simp: find_or_create_prefix_def CreateGlobalStringPtr_def bindM_Inr modM_def freshM_def bindM_def
         bindE_def getM_def returnM_def split: option.splits)
  show "keeps (slots_for ns) no_slot (Define_alloca put schema n)" "keeps (slots_for ns) no_slot (DefineTuple_alloca n t)"
    for put schema n t
    by (auto intro!: tables keeps_bind keeps_need keeps_lift
        simp: Define_alloca_def DefineTuple_alloca_def modM_def dest!: columns)
  show "keeps (slots_for ns) no_slot (set_vars n v)" for n v
    by (auto simp: keeps_def slots_for_def set_vars_def modM_def)
  show "keeps (slots_for ns) no_slot (set_stack q v)" "keeps (slots_for ns) no_slot (set_node q h)" for q v h
    by (auto intro!: tables simp: set_stack_def set_node_def modM_def)
qed (fact slots.schemas)

lemma slot_made:
  "alloca_stack put L q s c = Inr (u, c') \<Longrightarrow> slots_for ns () c \<Longrightarrow> slots_for (ns \<union> lets_of [(q, s)]) () c'"
proof (cases s)
  case (Let n ty e)
  assume "alloca_stack put L q s c = Inr (u, c')" "slots_for ns () c"
  then have "slots_for ns () c'" "\<exists>v. cg_vars c' n = Some (Some v)"
    using keepsD [OF kept_slots.stmt_slots, of ns "()" c put L q s u c'] Let
    by (auto simp: Let_alloca_def bindP_Inr bindM_Inr set_vars_def modM_def)
  then show ?thesis by (auto simp: slots_for_def lets_of_one Let)
qed (use keepsD [OF kept_slots.stmt_slots, of ns "()" c put L q s u c'] in \<open>auto simp: lets_of_one\<close>)

lemma slots_made:
  "eachM (\<lambda>(p, n). alloca_stack put L p n) nodes c = Inr (u, c') \<Longrightarrow> slots_for ns () c \<Longrightarrow>
   slots_for (ns \<union> lets_of nodes) () c'"
proof (induction nodes arbitrary: c ns)
  case (Cons x nodes)
  obtain q s where x: "x = (q, s)" by (cases x)
  from Cons.prems obtain u1 c1 where "alloca_stack put L q s c = Inr (u1, c1)"
    and r: "eachM (\<lambda>(p, n). alloca_stack put L p n) nodes c1 = Inr (u, c')"
    by (auto simp: bindM_Inr x)
  then have "slots_for (ns \<union> lets_of [x]) () c1" using slot_made Cons.prems(2) x by blast
  from Cons.IH [OF r this] show ?case using lets_of_simps(2) [of "[x]" nodes] by (simp add: Un_assoc)
qed simp

section \<open>Properties\<close>

text \<open>Concrete programs: an integer literal, and a state with an entry block.\<close>

abbreviation int_lit :: "64 word \<Rightarrow> expr" where
  "int_lit w \<equiv> PrimaryExpression None (MaybeValue_int w)"

definition demo_state :: "unit cg" where
  "demo_state = (cg_new \<lparr>md_tables = Map.empty, md_db = ()\<rparr>)\<lparr>cg_blocks := [''entry_jit''], cg_point := Some 0\<rparr>"

definition demo_prog :: stmt where
  "demo_prog = Block [Let ''x'' None (int_lit 1),
     If (BinaryExpression None OP_LESSTHAN (VariableReference None ''x'') (int_lit 2))
       [ExprStatement (Assign None (VariableReference None ''x'') (int_lit 3))] None]"

definition demo_loop :: stmt where
  "demo_loop = For Null (Ref (int_lit 1)) Null [Jump break_jump]"

lemmas analyze_defs = PrimaryExpression_analyze_def type_index_builtin builtin_types_new Let_analyze_def
  VariableReference_analyze_def set_variable_def operate_def type_index_def CompilerContext_new_def

lemmas demo_defs = demo_state_def demo_prog_def demo_loop_def

lemma demo_prog_compiles:
  "\<exists>c. compile_fresh (\<lambda>db k v. ()) sample_llvm demo_addr \<lparr>md_tables = Map.empty, md_db = ()\<rparr> demo_prog = Inr ((), c) \<and>
     length (cg_blocks c) = 4"
  by (simp add: demo_defs analyze_defs run_defs)

lemma demo_loop_compiles: "\<exists>c. codegen sample_llvm [] demo_loop demo_state = Inr ((), c)"
  by (simp add: demo_defs run_defs CompilerContext_new_def)

lemma demo_slots: "\<exists>c. alloca_all (\<lambda>db k v. ()) sample_llvm demo_prog demo_state = Inr ((), c)"
  by (simp add: demo_defs run_defs CompilerContext_new_def)

lemma fresh_engine:
  "define_functions (cg_new md) = Inr (u, c) \<Longrightarrow> cg_blocks c = [] \<and> cg_code c = []"
  by (auto simp: define_functions_def bindM_Inr declare_function_def set_functions_def modM_def cg_new_def)

text \<open>
  C8. Every block of a compiled program without \<open>break\<close> and \<open>continue\<close>, whose loops have a
  condition, is a sequence of instructions none of which is a terminator, followed by one
  terminator, and the terminator goes to blocks of the function.
\<close>

theorem compiled_blocks_closed:
  assumes "compile_fresh put L addr md ast = Inr (u, c)" "ok_stmt False UNIV ast" "b < length (cg_blocks c)"
  shows "\<exists>body t. map snd (filter (\<lambda>y. fst y = b) (cg_code c)) = body @ [t] \<and> is_terminator t \<and>
    (\<forall>i \<in> set body. \<not> is_terminator i) \<and> targets t \<subseteq> {..<length (cg_blocks c)}"
proof -
  from assms(1) obtain v c0 where "define_functions (cg_new md) = Inr (v, c0)" "compile put L addr ast c0 = Inr (u, c)"
    by (auto simp: compile_fresh_def bindM_Inr)
  with fresh_engine assms(2) have "ended c {}" using compile_writing by blast
  from ended_blocks [OF this, of b] assms(3) obtain body t where "blk c b = body @ [t]" "is_terminator t"
    "opened body" "targets t \<subseteq> {..<nblocks c}"
    by (auto simp: nblocks_def)
  then show ?thesis by (auto simp: nblocks_def blk_def opened_def list_all_iff)
qed

theorem compiled_blocks_closed_witness:
  "\<exists>c. compile_fresh (\<lambda>db k v. ()) sample_llvm demo_addr \<lparr>md_tables = Map.empty, md_db = ()\<rparr> demo_prog = Inr ((), c) \<and>
     (\<exists>body t. map snd (filter (\<lambda>y. fst y = 2) (cg_code c)) = body @ [t] \<and> is_terminator t \<and>
        (\<forall>i \<in> set body. \<not> is_terminator i) \<and> targets t \<subseteq> {..<length (cg_blocks c)})"
proof -
  obtain c where c: "compile_fresh (\<lambda>db k v. ()) sample_llvm demo_addr \<lparr>md_tables = Map.empty, md_db = ()\<rparr> demo_prog =
      Inr ((), c)" "length (cg_blocks c) = 4"
    using demo_prog_compiles by blast
  have "ok_stmt False UNIV demo_prog" by (simp add: demo_prog_def)
  from compiled_blocks_closed [OF c(1) this, of 2] c show ?thesis by auto
qed

text \<open>
  C34. Generating the code of a statement leaves the stack of enclosing loops as it was,
  whatever the statement contains.
\<close>

theorem loop_stack_balanced:
  assumes "codegen L p s c = Inr (u, c')"
  shows "cx_loop (cg_ctx c') = cx_loop (cg_ctx c)"
  using keepsD [OF loops.stmt_code(1) [OF ok_any] _ assms, of "cx_loop (cg_ctx c)"]
  by (simp add: loops_are_def)

theorem loop_stack_balanced_witness:
  "\<exists>c. codegen sample_llvm [] demo_loop demo_state = Inr ((), c) \<and> cx_loop (cg_ctx c) = cx_loop (cg_ctx demo_state)"
  using demo_loop_compiles loop_stack_balanced [of sample_llvm "[]" demo_loop demo_state "()"] by blast



text \<open>
  C37. A jump as the last statement of a branch or of a loop body makes a block with two
  terminators: the branch to the jump's target is followed by the branch the enclosing
  statement ends its part with.
\<close>

theorem jump_ends_block_twice:
  assumes "codegen L p s c = Inr (u, c')"
    "s = If cond (ss @ [Jump j]) f \<or> s = For init lcond every (ss @ [Jump j])"
  shows "\<exists>b xs t x ys. map snd (filter (\<lambda>y. fst y = b) (cg_code c')) = xs @ IBr t # IBr x # ys"
  using assms If_jump_twice [of L p cond ss j f c] For_jump_twice [of L p init lcond every ss j c]
  by (auto simp: blk_def simp del: codegen.simps)

theorem jump_ends_block_twice_witness:
  "\<exists>c. codegen sample_llvm [] demo_loop demo_state = Inr ((), c) \<and>
     (\<exists>b xs t x ys. map snd (filter (\<lambda>y. fst y = b) (cg_code c)) = xs @ IBr t # IBr x # ys)"
proof -
  have "demo_loop = For Null (Ref (int_lit 1)) Null ([] @ [Jump break_jump])" by (simp add: demo_loop_def)
  with demo_loop_compiles jump_ends_block_twice [of sample_llvm "[]" demo_loop demo_state "()" _ undefined "[]" break_jump
      None Null "Ref (int_lit 1)" Null]
  show ?thesis by blast
qed

end
