(* ===== verification/Reir_Layout.thy ===== *)
theory Reir_Layout
  imports Reir_Programs
begin

text \<open>
  The bytes generated code moves: what an insert copies into its key and value buffers, and
  what a scan loads from them. A pointer is resolved to an object and an offset by \<open>addr\<close>,
  an argument, with LLVM's rules for addresses as \<open>llvm_addresses\<close>; the memory maps an
  object to its bytes.
\<close>

section \<open>Memory\<close>

type_synonym mem = "llval \<Rightarrow> string"

definition llvm_addresses :: "llvm \<Rightarrow> (llval \<Rightarrow> llval \<times> nat) \<Rightarrow> bool" where
  "llvm_addresses L addr \<longleftrightarrow>
     (\<forall>n t nm. addr (LRes n (OpAlloca t nm) []) = (LRes n (OpAlloca t nm) [], 0)) \<and>
     (\<forall>n s. addr (LGlobalString n s) = (LGlobalString n s, 0)) \<and>
     (\<forall>n t p. addr (LRes n (OpBitCast t) [p]) = addr p) \<and>
     (\<forall>n p t i. getType L p = LPtr LI8 \<longrightarrow> unat i < 2 ^ 31 \<longrightarrow>
        addr (LRes n OpInBoundsGEP [p, LConst t i]) = (fst (addr p), snd (addr p) + unat i)) \<and>
     (\<forall>n p k t u i. getType L p = LPtr (LArray k LI8) \<longrightarrow> unat i < 2 ^ 31 \<longrightarrow>
        addr (LRes n OpInBoundsGEP [p, LConst t 0, LConst u i]) = (fst (addr p), snd (addr p) + unat i))"

fun sample_addr :: "llval \<Rightarrow> llval \<times> nat" where
  "sample_addr (LRes n (OpBitCast t) [p]) = sample_addr p"
| "sample_addr (LRes n OpInBoundsGEP [p, LConst t i]) = (fst (sample_addr p), snd (sample_addr p) + unat i)"
| "sample_addr (LRes n OpInBoundsGEP [p, LConst t j, LConst u i]) = (fst (sample_addr p), snd (sample_addr p) + unat i)"
| "sample_addr p = (p, 0)"

lemma sample_llvm_addresses: "llvm_addresses sample_llvm sample_addr"
  by (simp add: llvm_addresses_def)

text \<open>\<open>memcpy\<close> between two objects, and the copies among a list of instructions.\<close>

definition memcpy :: "(llval \<Rightarrow> llval \<times> nat) \<Rightarrow> llval \<Rightarrow> llval \<Rightarrow> nat \<Rightarrow> mem \<Rightarrow> mem res" where
  "memcpy addr dst src len m =
     (case (addr dst, addr src) of ((d, i), (s, j)) \<Rightarrow>
        bindE (buf_read (m s) j len) (\<lambda>x.
        bindE (buf_write (m d) i x) (\<lambda>b.
        Inr (m(d := b)))))"

fun run_copies :: "(llval \<Rightarrow> llval \<times> nat) \<Rightarrow> ins list \<Rightarrow> mem \<Rightarrow> mem res" where
  "run_copies addr [] m = Inr m"
| "run_copies addr (IMemCpy dst src len # is) m = bindE (memcpy addr dst src (unat len) m) (run_copies addr is)"
| "run_copies addr (_ # is) m = run_copies addr is m"

lemma run_copies_append: "run_copies addr (xs @ ys) m = bindE (run_copies addr xs m) (run_copies addr ys)"
  by (induction addr xs m rule: run_copies.induct) (auto simp: bindE_def split: sum.splits)

section \<open>Rows of integers\<close>

definition plain_ints :: "attribute list \<Rightarrow> bool" where
  "plain_ints as \<longleftrightarrow> list_all (\<lambda>a. is_integer (attr_ty a) \<and> attr_prop a AND PROP_NULLABLE = 0) as"

lemma plain_cell: "int_cell a v \<Longrightarrow> attr_prop a AND PROP_NULLABLE = 0 \<Longrightarrow> length (attr_bytes a v) = 8"
  by (auto simp: int_cell_bytes_length PROP_defs)

lemma plain_row_length:
  "plain_ints as \<Longrightarrow> int_row (\<lambda>_. True) as vs \<Longrightarrow>
   length (row_bytes P as vs) = 8 * length (filter P as)"
proof (induction as arbitrary: vs)
  case (Cons a as)
  then obtain v vs' where "vs = v # vs'" "int_row (\<lambda>_. True) as vs'" "int_cell a v"
    by (auto simp: int_row_def list_all2_Cons1)
  with Cons show ?case by (auto simp: plain_ints_def plain_cell)
qed simp

lemma unat_small: "n < 2 ^ 31 \<Longrightarrow> unat (ucast (of_nat n :: 32 word) :: 64 word) = n"
  by (simp add: unsigned_ucast_eq unsigned_of_nat take_bit_nat_eq_self)


lemma emit_run:
  "cg_point c = Some b \<Longrightarrow> emit_val op args c = Inr (LRes (cg_count c) op args,
     c\<lparr>cg_count := Suc (cg_count c), cg_code := cg_code c @ [(b, IVal (LRes (cg_count c) op args))]\<rparr>)"
  by (simp add: emit_val_def bindM_def returnM_def freshM_def log_ins_def modM_def)

lemma log_run: "cg_point c = Some b \<Longrightarrow> log_ins i c = Inr ((), c\<lparr>cg_code := cg_code c @ [(b, i)]\<rparr>)"
  by (simp add: log_ins_def modM_def)

lemma lift_run: "liftM (Inr x) c = Inr (x, c)"
  by (simp add: liftM_def)

lemmas straight_run = bindM_def emit_run log_run lift_run

section \<open>Insert\<close>

lemma memcpy_cell:
  assumes "addr dst = (d, i)" "addr src = (s, j)" "buf_read (m s) j len = Inr x" "buf_write (m d) i x = Inr y"
  shows "memcpy addr dst src len m = Inr (m(d := y))"
  using assms by (simp add: memcpy_def)

lemma buf_write_split:
  assumes "buf_write buf off (a @ b) = Inr buf'"
  obtains buf1 where "buf_write buf off a = Inr buf1" "buf_write buf1 (off + length a) b = Inr buf'"
  using assms by (auto simp: bindE_eq_Inr_iff simp flip: buf_write_append)

lemma Insert_cells_run:
  assumes addr: "llvm_addresses L addr"
    and buff: "getType L buff = LPtr LI8" "addr buff = (t, 0)"
    and k: "getType L k = LPtr (LArray nk LI8)" "addr k = (k, 0)"
    and v: "getType L v = LPtr (LArray nv LI8)" "addr v = (v, 0)"
    and distinct: "k \<noteq> v" "t \<noteq> k" "t \<noteq> v"
    and "drop i (sc_attrs sc) = as" "i + length as = length (sc_attrs sc)" "plain_ints as" "int_row (\<lambda>_. True) as vs"
    and "off + 8 * length as < 2 ^ 31" "ki + 8 * length as < 2 ^ 31" "vi + 8 * length as < 2 ^ 31"
    and "buf_read (m t) off (length (row_bytes (\<lambda>_. True) as vs)) = Inr (row_bytes (\<lambda>_. True) as vs)"
    and "buf_write (m k) ki (row_bytes attr_is_key as vs) = Inr kb"
    and "buf_write (m v) vi (row_bytes (\<lambda>a. \<not> attr_is_key a) as vs) = Inr vb"
    and "cg_point c = Some b"
    and "Insert_cells sc buff k v [i..<length (sc_attrs sc)] (of_nat off) (of_nat ki) (of_nat vi) c = Inr ((kx, vx), c')"
  shows "\<exists>ins. cg_code c' = cg_code c @ map (Pair b) ins \<and> cg_point c' = Some b \<and>
     cg_functions c' = cg_functions c \<and>
     kx = of_nat (ki + length (row_bytes attr_is_key as vs)) \<and>
     vx = of_nat (vi + length (row_bytes (\<lambda>a. \<not> attr_is_key a) as vs)) \<and>
     run_copies addr ins m = Inr (m(k := kb, v := vb))"
  using assms(11-)
proof (induction as arbitrary: i off ki vi vs c m)
  case Nil
  then show ?case by (auto split: if_splits intro!: exI [of _ "[]"])
next
  case (Cons a as)
  then obtain w ws where vs: "vs = w # ws" and ws: "int_row (\<lambda>_. True) as ws" and w: "int_cell a w"
    by (auto simp: int_row_def list_all2_Cons1)
  have a: "sc_attrs sc ! i = a" "i < length (sc_attrs sc)" "drop (Suc i) (sc_attrs sc) = as"
    using Cons.prems(1,2) by (auto simp: nth_via_drop drop_Suc simp flip: tl_drop)
  have plain: "is_integer (attr_ty a)" "attr_prop a AND PROP_NULLABLE = 0" "plain_ints as"
    using Cons.prems(3) by (auto simp: plain_ints_def)
  have len: "get_tuple_length sc i = Inr 8"
    using a plain by (simp add: get_tuple_length_def attr_default_size_int int_size_def)
  have w8: "length (attr_bytes a w) = 8" by (rule plain_cell [OF w plain(2)])
  have row: "row_bytes P (a # as) vs = (if P a then attr_bytes a w else []) @ row_bytes P as ws" for P
    by (simp add: vs)
  have rd: "buf_read (m t) off 8 = Inr (attr_bytes a w)"
    "buf_read (m t) (off + 8) (length (row_bytes (\<lambda>_. True) as ws)) = Inr (row_bytes (\<lambda>_. True) as ws)"
    using buf_read_append [of "m t" off "attr_bytes a w" "row_bytes (\<lambda>_. True) as ws"] Cons.prems(8) w8
    by (simp_all add: row)
  have bounds: "Suc i + length as = length (sc_attrs sc)" "off + 8 + 8 * length as < 2 ^ 31" "ki + 8 + 8 * length as < 2 ^ 31"
    "vi + 8 + 8 * length as < 2 ^ 31" "ki + 8 * length as < 2 ^ 31" "vi + 8 * length as < 2 ^ 31"
    using Cons.prems(2,5-7) by auto
  have pt: "cg_point (c\<lparr>cg_count := n, cg_code := xs\<rparr>) = Some b" for n xs using Cons.prems(11) by simp
  have small: "off < 2 ^ 31" "ki < 2 ^ 31" "vi < 2 ^ 31" using Cons.prems(5-7) by auto
  have up: "[i..<length (sc_attrs sc)] = i # [Suc i..<length (sc_attrs sc)]" using a(2) by (simp add: upt_conv_Cons)
  let ?src = "LRes (cg_count c) OpInBoundsGEP [buff, getInt32 (of_nat off)]"
  have src: "addr ?src = (t, off)" using addr buff small(1) by (simp add: llvm_addresses_def unat_small)
  show ?case
  proof (cases "attr_is_key a")
    case True
    let ?dst = "LRes (Suc (cg_count c)) OpInBoundsGEP [k, getInt64 0, getInt32 (of_nat ki)]"
    let ?is = "[IVal ?src, IVal ?dst, IMemCpy ?dst ?src 8]"
    let ?c = "c\<lparr>cg_count := Suc (Suc (cg_count c)), cg_code := cg_code c @ map (Pair b) ?is\<rparr>"
    have dst: "addr ?dst = (k, ki)" using addr k small(2) by (simp add: llvm_addresses_def unat_small)
    obtain kb1 where kb: "buf_write (m k) ki (attr_bytes a w) = Inr kb1"
      "buf_write kb1 (ki + 8) (row_bytes attr_is_key as ws) = Inr kb"
      using Cons.prems(9) True w8 by (auto simp: row elim: buf_write_split)
    have "Insert_cells sc buff k v [Suc i..<length (sc_attrs sc)] (of_nat (off + 8)) (of_nat (ki + 8)) (of_nat vi) ?c =
        Inr ((kx, vx), c')"
      using Cons.prems(11,12) True a len by (simp add: up straight_run sc_is_key_def add.assoc)
    moreover have "buf_read ((m(k := kb1)) t) (off + 8) (length (row_bytes (\<lambda>_. True) as ws)) =
        Inr (row_bytes (\<lambda>_. True) as ws)" "buf_write ((m(k := kb1)) k) (ki + 8) (row_bytes attr_is_key as ws) = Inr kb"
      "buf_write ((m(k := kb1)) v) vi (row_bytes (\<lambda>a. \<not> attr_is_key a) as ws) = Inr vb"
      using rd(2) kb(2) Cons.prems(10) distinct True by (simp_all add: row)
    ultimately obtain ins where
      "cg_code c' = cg_code ?c @ map (Pair b) ins" "cg_point c' = Some b" "cg_functions c' = cg_functions ?c"
      "kx = of_nat (ki + 8 + length (row_bytes attr_is_key as ws))"
      "vx = of_nat (vi + length (row_bytes (\<lambda>a. \<not> attr_is_key a) as ws))"
      "run_copies addr ins (m(k := kb1)) = Inr ((m(k := kb1))(k := kb, v := vb))"
      using Cons.IH [OF a(3) bounds(1) plain(3) ws bounds(2,3,6) _ _ _ pt] by blast
    moreover have "(m(k := kb1))(k := kb, v := vb) = m(k := kb, v := vb)" by auto
    ultimately show ?thesis
      using True w8 memcpy_cell [OF dst src rd(1) kb(1)]
      by (intro exI [of _ "?is @ ins"]) (simp add: row fun_upd_def)
  next
    case False
    let ?dst = "LRes (Suc (cg_count c)) OpInBoundsGEP [v, getInt32 0, getInt32 (of_nat vi)]"
    let ?is = "[IVal ?src, IVal ?dst, IMemCpy ?dst ?src 8]"
    let ?c = "c\<lparr>cg_count := Suc (Suc (cg_count c)), cg_code := cg_code c @ map (Pair b) ?is\<rparr>"
    have dst: "addr ?dst = (v, vi)" using addr v small(3) by (simp add: llvm_addresses_def unat_small)
    obtain vb1 where vb: "buf_write (m v) vi (attr_bytes a w) = Inr vb1"
      "buf_write vb1 (vi + 8) (row_bytes (\<lambda>a. \<not> attr_is_key a) as ws) = Inr vb"
      using Cons.prems(10) False w8 by (auto simp: row elim: buf_write_split)
    have "Insert_cells sc buff k v [Suc i..<length (sc_attrs sc)] (of_nat (off + 8)) (of_nat ki) (of_nat (vi + 8)) ?c =
        Inr ((kx, vx), c')"
      using Cons.prems(11,12) False a len by (simp add: up straight_run sc_is_key_def add.assoc)
    moreover have "buf_read ((m(v := vb1)) t) (off + 8) (length (row_bytes (\<lambda>_. True) as ws)) =
        Inr (row_bytes (\<lambda>_. True) as ws)" "buf_write ((m(v := vb1)) k) ki (row_bytes attr_is_key as ws) = Inr kb"
      "buf_write ((m(v := vb1)) v) (vi + 8) (row_bytes (\<lambda>a. \<not> attr_is_key a) as ws) = Inr vb"
      using rd(2) vb(2) Cons.prems(9) distinct False by (simp_all add: row)
    ultimately obtain ins where
      "cg_code c' = cg_code ?c @ map (Pair b) ins" "cg_point c' = Some b" "cg_functions c' = cg_functions ?c"
      "kx = of_nat (ki + length (row_bytes attr_is_key as ws))"
      "vx = of_nat (vi + 8 + length (row_bytes (\<lambda>a. \<not> attr_is_key a) as ws))"
      "run_copies addr ins (m(v := vb1)) = Inr ((m(v := vb1))(k := kb, v := vb))"
      using Cons.IH [OF a(3) bounds(1) plain(3) ws bounds(2,5,4) _ _ _ pt] by blast
    moreover have "(m(v := vb1))(k := kb, v := vb) = m(k := kb, v := vb)" using distinct(1) by auto
    ultimately show ?thesis
      using False w8 memcpy_cell [OF dst src rd(1) vb(1)]
      by (intro exI [of _ "?is @ ins"]) (simp add: row fun_upd_def)
  qed
qed

text \<open>The registers of the statements are not touched while code is generated.\<close>

definition nodes_are :: "(path \<Rightarrow> node_regs) \<Rightarrow> 'db cg \<Rightarrow> bool" where
  "nodes_are r c \<longleftrightarrow> cg_nodes c = r"

interpretation nodes: step_inv nodes_are "{}" UNIV
proof
  fix body :: "('c cg, unit) st" and b1 b2 b3 b4
  assume body: "keeps nodes_are {} body"
  have "keeps nodes_are {} (enter_loopM b1 b2 b3 b4)" "keeps nodes_are {} (exit_loopM :: ('c cg, unit) st)"
    by (auto simp: keeps_def nodes_are_def step_defs bindE_def split: sum.splits)
  with body show "keeps nodes_are {} (bindM (enter_loopM b1 b2 b3 b4) (\<lambda>_. bindM body (\<lambda>_. exit_loopM)))"
    by (intro keeps_bind)
qed (auto simp: keeps_def nodes_are_def step_defs split: prod.splits option.splits)

text \<open>The slots of an insert: two buffers of the fixed lengths, the row, and the table's prefix.\<close>

definition own_globals :: "'db cg \<Rightarrow> bool" where
  "own_globals c \<longleftrightarrow> (\<forall>w g. cg_globals c w = Some g \<longrightarrow> (\<exists>n. g = LGlobalString n w))"

definition insert_slots :: "schema \<Rightarrow> node_regs \<Rightarrow> llval \<Rightarrow> llval \<Rightarrow> llval \<Rightarrow> llval \<Rightarrow> bool" where
  "insert_slots sc r g k v t \<longleftrightarrow>
     nr_prefix r = Some g \<and> nr_key_stack r = Some k \<and> nr_value_stack r = Some v \<and> nr_tuple_stack r = Some t \<and>
     (\<exists>n. g = LGlobalString n (get_key_prefix sc)) \<and>
     (\<exists>n kl m vl i u nm nm' nm''. k = LRes n (OpAlloca (LArray kl LI8) nm) [] \<and> v = LRes m (OpAlloca (LArray vl LI8) nm') [] \<and>
        t = LRes i (OpAlloca u nm'') [] \<and> n < m \<and> m < i)"

lemma prefix_made:
  assumes "find_or_create_prefix w c = Inr (g, c')" "own_globals c"
  shows "\<exists>n. g = LGlobalString n w" "cx_local_schema (cg_ctx c') = cx_local_schema (cg_ctx c)"
  using assms by (auto simp: find_or_create_prefix_def CreateGlobalStringPtr_def own_globals_def bindM_Inr
      freshM_def modM_def split: option.splits)

lemma emit_Inr:
  "emit_val op args c = Inr (r, c') \<Longrightarrow> r = LRes (cg_count c) op args \<and> cg_count c' = Suc (cg_count c) \<and>
     cg_nodes c' = cg_nodes c"
  by (auto simp: emit_val_def bindM_Inr freshM_def log_ins_def modM_def split: option.splits)

definition count_from :: "nat \<Rightarrow> 'db cg \<Rightarrow> bool" where
  "count_from n c \<longleftrightarrow> n \<le> cg_count c"

interpretation counting: step_inv count_from "{}" UNIV
proof
  fix body :: "('c cg, unit) st" and b1 b2 b3 b4
  assume body: "keeps count_from {} body"
  have "keeps count_from {} (enter_loopM b1 b2 b3 b4)" "keeps count_from {} (exit_loopM :: ('c cg, unit) st)"
    by (auto simp: keeps_def count_from_def step_defs bindE_def split: sum.splits)
  with body show "keeps count_from {} (bindM (enter_loopM b1 b2 b3 b4) (\<lambda>_. bindM body (\<lambda>_. exit_loopM)))"
    by (intro keeps_bind)
qed (auto simp: keeps_def count_from_def step_defs split: prod.splits option.splits)

lemma Insert_alloca_slots:
  assumes "Insert_alloca L p table e c = Inr (u, c')" "cx_local_schema (cg_ctx c) table = Some (Some sc)" "own_globals c"
  shows "\<exists>g k v t. insert_slots sc (cg_nodes c' p) g k v t"
proof -
  obtain g c2 c4 c5 c7 k v t bt c8 kl vl where
    g: "find_or_create_prefix (get_key_prefix sc) c = Inr (g, c2)"
    and k: "emit_val (OpAlloca (LArray (unat (kl :: 64 word)) LI8) ''insert_key_stack'') []
      (c2\<lparr>cg_nodes := (cg_nodes c2)(p := (cg_nodes c2 p)\<lparr>nr_prefix := Some g\<rparr>)\<rparr>) = Inr (k, c4)"
    and v: "emit_val (OpAlloca (LArray (unat (vl :: 64 word)) LI8) ''insert_val_stack'') [] c4 = Inr (v, c5)"
    and bt: "get_type L e
      (c5\<lparr>cg_nodes := (cg_nodes c5)(p := (cg_nodes c5 p)\<lparr>nr_key_stack := Some k, nr_value_stack := Some v\<rparr>)\<rparr>) =
        Inr (Some bt, c7)" (is "get_type L e ?c6 = _")
    and t: "emit_val (OpAlloca bt ''tuple_stack'') [] c7 = Inr (t, c8)"
    and c': "c' = c8\<lparr>cg_nodes := (cg_nodes c8)(p := (cg_nodes c8 p)\<lparr>nr_tuple_stack := Some t\<rparr>)\<rparr>"
    using assms(1,2)
    by (auto simp: Insert_alloca_def alloca_buffers_def bindM_Inr bindP_Inr schema_index_def pmap_index_def set_node_def modM_def
        split: if_splits)
  have "cg_nodes c7 = cg_nodes ?c6" "cg_count c5 \<le> cg_count c7"
    using keepsD [OF nodes.get_type(1) _ bt, of "cg_nodes ?c6"] keepsD [OF counting.get_type(1) _ bt, of "cg_count c5"]
    by (simp_all add: nodes_are_def count_from_def)
  with emit_Inr [OF k] emit_Inr [OF v] emit_Inr [OF t] prefix_made(1) [OF g assms(3)] c' show ?thesis
    by (auto simp: insert_slots_def)
qed


text \<open>The type the row is found to have when its code is generated.\<close>

definition insert_row_type :: "llvm \<Rightarrow> path \<Rightarrow> string \<Rightarrow> expr \<Rightarrow> ('db cg, llty option) st" where
  "insert_row_type L p table e =
     bindM (schema_index table) (\<lambda>_.
     bindM (get_value L (p @ [0]) e) (\<lambda>_.
     bindM (get_type L e) (\<lambda>_. get_type L e)))"

lemma plain_fixed_lengths:
  assumes "plain_ints (sc_attrs sc)" "int_row (\<lambda>_. True) (sc_attrs sc) vs"
  shows "get_fixed_key_length sc = Inr (of_nat (Suc (length (key_bytes sc vs))))"
    "get_fixed_value_length sc = Inr (of_nat (length (row_bytes (\<lambda>a. \<not> attr_is_key a) (sc_attrs sc) vs)))"
proof -
  have ints: "list_all (\<lambda>a. P a \<longrightarrow> is_integer (attr_ty a)) (sc_attrs sc)" for P
    using assms(1) by (auto simp: plain_ints_def list_all_iff)
  have "int_sizes P as = 8 * length (filter P as)" if "plain_ints as" for P as
    using that by (induction as) (auto simp: plain_ints_def int_size_def)
  then have sizes: "int_sizes P (sc_attrs sc) = length (row_bytes P (sc_attrs sc) vs)" for P
    using assms by (simp add: plain_row_length)
  from ints int_types_fixed show
    "get_fixed_key_length sc = Inr (of_nat (Suc (length (key_bytes sc vs))))"
    "get_fixed_value_length sc = Inr (of_nat (length (row_bytes (\<lambda>a. \<not> attr_is_key a) (sc_attrs sc) vs)))"
    by (simp_all add: get_fixed_key_length_def get_fixed_value_length_def add_default_sizes_int sizes key_bytes_def
        get_key_prefix_def)
qed

lemma int_row_any: "int_row (\<lambda>_. True) as vs \<Longrightarrow> int_row P as vs"
  by (auto simp: int_row_def elim: list_all2_mono)

lemma scast_small: "n < 2 ^ 31 \<Longrightarrow> scast (of_nat n :: 32 word) = (of_nat n :: 64 word)"
proof -
  assume "n < 2 ^ 31"
  then have "int n < 2 ^ 31" by (metis of_nat_less_iff of_nat_numeral of_nat_power)
  then have "sint (of_nat n :: 32 word) = int n"
    by (simp add: signed_of_nat signed_take_bit_int_eq_self)
  then show ?thesis by (metis of_int_of_nat_eq scast_eq)
qed

lemma insert_tail:
  assumes "bindM (emit_val (OpBitCast t) [k]) (\<lambda>key. bindM (emit_val (OpBitCast t) [v]) (\<lambda>val.
      emit_insert key kl val vl)) c = Inr (u, c')" "cg_point c = Some b"
  defines "key \<equiv> LRes (cg_count c) (OpBitCast t) [k]" and "val \<equiv> LRes (Suc (cg_count c)) (OpBitCast t) [v]"
  shows "\<exists>i f. cg_code c' = cg_code c @ map (Pair b) ([IVal key, IVal val] @ [IVal (LRes i (OpCall f) [get_ptr ''arg'', key, kl, val, vl])])"
  using assms
  by (auto simp: emit_insert_def call_runtime_def straight_run bindP_def bindE_eq_Inr_iff returnM_def functions_index_def
      split: prod.splits)

text \<open>
  The parts of an insert after the code of its row: the row is stored, the prefix copied, then
  the cells, then the call.
\<close>

lemma Insert_code_parts:
  assumes ty: "insert_row_type L p table e c = Inr (Some (LStruct n nm ts), c2)"
    and sc: "cx_local_schema (cg_ctx c) table = Some (Some sc)"
    and c: "cg_point c \<noteq> None" "Insert_codegen L p table e c = Inr (u, c')"
    and slots: "nr_prefix (cg_nodes c p) = Some g" "nr_key_stack (cg_nodes c p) = Some k"
      "nr_value_stack (cg_nodes c p) = Some v" "nr_tuple_stack (cg_nodes c p) = Some t"
  shows "\<exists>b x kx vx c4 c5 buff. buff = LRes (cg_count c2) (OpBitCast (LPtr LI8)) [t] \<and> cg_point c4 = Some b \<and>
    cg_code c4 = (cg_code c2 @ [(b, IStore x t), (b, IVal buff)]) @ map (Pair b) [IMemCpy k g (of_nat (length (get_key_prefix sc)))] \<and>
    Insert_cells sc buff k v [0..<length ts] 0 (of_nat (length (get_key_prefix sc))) 0 c4 = Inr ((kx, vx), c5) \<and>
    bindM (emit_val (OpBitCast (LPtr LI8)) [k]) (\<lambda>key. bindM (emit_val (OpBitCast (LPtr LI8)) [v]) (\<lambda>val.
      emit_insert key (getInt64 (scast kx)) val (getInt64 (scast vx)))) c5 = Inr (u, c')"
proof -
  obtain row c1 t1 c3 where r: "get_value L (p @ [0]) e c = Inr (row, c1)" "get_type L e c1 = Inr (t1, c3)"
    "get_type L e c3 = Inr (Some (LStruct n nm ts), c2)"
    using ty(1) sc by (auto simp: insert_row_type_def bindM_Inr schema_index_def pmap_index_def fun_upd_triv)
  have "cg_nodes c2 = cg_nodes c"
    using keepsD [OF nodes.get_value(1) _ r(1)] keepsD [OF nodes.get_type(1) _ r(2)] keepsD [OF nodes.get_type(1) _ r(3)]
    by (simp add: nodes_are_def)
  have "pointed () c2"
    using keepsD [OF pointed.get_value(1) _ r(1), of "()"] keepsD [OF pointed.get_type(1) _ r(2), of "()"]
      keepsD [OF pointed.get_type(1) _ r(3), of "()"] c(1)
    by (simp add: pointed_def)
  then obtain b where b: "cg_point c2 = Some b" by (auto simp: pointed_def)
  let ?n = "length (get_key_prefix sc)" and ?buff = "LRes (cg_count c2) (OpBitCast (LPtr LI8)) [t]"
  let ?c4 = "\<lambda>x. c2\<lparr>cg_count := Suc (cg_count c2),
    cg_code := cg_code c2 @ [(b, IStore x t), (b, IVal ?buff), (b, IMemCpy k g (of_nat ?n))]\<rparr>"
  obtain x kx vx c5 where "Insert_cells sc ?buff k v [0..<length ts] 0 (of_nat ?n) 0 (?c4 x) = Inr ((kx, vx), c5)"
    "bindM (emit_val (OpBitCast (LPtr LI8)) [k]) (\<lambda>key. bindM (emit_val (OpBitCast (LPtr LI8)) [v]) (\<lambda>val.
       emit_insert key (getInt64 (scast kx)) val (getInt64 (scast vx)))) c5 = Inr (u, c')"
    using c(2) sc r b slots \<open>cg_nodes c2 = cg_nodes c\<close>
    by (auto simp: Insert_codegen_def bindM_Inr bindP_Inr schema_index_def pmap_index_def fun_upd_triv
        log_run emit_run split: if_splits)
  with b show ?thesis
    by (intro exI [of _ b] exI [of _ x] exI [of _ kx] exI [of _ vx] exI [of _ "?c4 x"] exI [of _ c5] exI [of _ ?buff]) simp
qed

lemma Insert_code_run:
  assumes L: "llvm_types L" "llvm_addresses L addr"
    and slots': "insert_slots sc (cg_nodes c p) g k v t"
    and sc: "cx_local_schema (cg_ctx c) table = Some (Some sc)"
    and ty: "insert_row_type L p table e c = Inr (Some (LStruct n nm ts), c2)" "length ts = columns sc"
    and ints: "plain_ints (sc_attrs sc)" "int_row (\<lambda>_. True) (sc_attrs sc) vs"
      "length (get_key_prefix sc) + 8 * columns sc < 2 ^ 31"
    and m: "m t = row_bytes (\<lambda>_. True) (sc_attrs sc) vs" "m g = get_key_prefix sc"
      "buf_write (m k) 0 (key_bytes sc vs) = Inr kb"
      "buf_write (m v) 0 (row_bytes (\<lambda>a. \<not> attr_is_key a) (sc_attrs sc) vs) = Inr vb"
    and c: "cg_point c \<noteq> None" "Insert_codegen L p table e c = Inr (u, c')"
  shows "\<exists>pre b ins i f key val. cg_code c' = pre @ map (Pair b) (ins @ [IVal (LRes i (OpCall f)
        [get_ptr ''arg'', key, getInt64 (of_nat (length (key_bytes sc vs))), val,
         getInt64 (of_nat (length (row_bytes (\<lambda>a. \<not> attr_is_key a) (sc_attrs sc) vs)))])]) \<and>
      addr key = (k, 0) \<and> addr val = (v, 0) \<and> run_copies addr ins m = Inr (m(k := kb, v := vb))"
proof -
  have slots: "nr_prefix (cg_nodes c p) = Some g" "nr_key_stack (cg_nodes c p) = Some k"
    "nr_value_stack (cg_nodes c p) = Some v" "nr_tuple_stack (cg_nodes c p) = Some t"
    "addr g = (g, 0)" "addr k = (k, 0)" "addr v = (v, 0)" "addr t = (t, 0)"
    and distinct: "k \<noteq> v" "t \<noteq> k" "t \<noteq> v" "g \<noteq> k"
    using slots' L(2) by (auto simp: insert_slots_def llvm_addresses_def)
  obtain kl vl where arr: "getType L k = LPtr (LArray kl LI8)" "getType L v = LPtr (LArray vl LI8)"
    using slots' L(1) by (auto simp: insert_slots_def llvm_types_def)
  let ?n = "length (get_key_prefix sc)" and ?vs = "row_bytes (\<lambda>a. \<not> attr_is_key a) (sc_attrs sc) vs"
  from Insert_code_parts [OF ty(1) sc c slots(1-4)] obtain b x kx vx c4 c5 where
    c4: "cg_code c4 = (cg_code c2 @ [(b, IStore x t), (b, IVal (LRes (cg_count c2) (OpBitCast (LPtr LI8)) [t]))]) @
      map (Pair b) [IMemCpy k g (of_nat ?n)]" (is "_ = ?pre @ _") "cg_point c4 = Some b"
    and cells: "Insert_cells sc (LRes (cg_count c2) (OpBitCast (LPtr LI8)) [t]) k v [0..<length (sc_attrs sc)] 0 (of_nat ?n) 0 c4 =
      Inr ((kx, vx), c5)" (is "Insert_cells sc ?buff _ _ _ _ _ _ _ = _")
    and rest: "bindM (emit_val (OpBitCast (LPtr LI8)) [k]) (\<lambda>key. bindM (emit_val (OpBitCast (LPtr LI8)) [v]) (\<lambda>val.
      emit_insert key (getInt64 (scast kx)) val (getInt64 (scast vx)))) c5 = Inr (u, c')"
    using ty(2) by (auto simp: columns_def)
  have buff: "getType L ?buff = LPtr LI8" "addr ?buff = (t, 0)"
    using L slots(8) by (simp_all add: llvm_types_def llvm_addresses_def)
  obtain kb0 where kb: "buf_write (m k) 0 (get_key_prefix sc) = Inr kb0"
    "buf_write ((m(k := kb0)) k) ?n (row_bytes attr_is_key (sc_attrs sc) vs) = Inr kb"
    using m(3) by (auto simp: key_bytes_def elim: buf_write_split)
  have rd: "buf_read ((m(k := kb0)) t) 0 (length (row_bytes (\<lambda>_. True) (sc_attrs sc) vs)) =
      Inr (row_bytes (\<lambda>_. True) (sc_attrs sc) vs)"
    using m(1) distinct by (simp add: buf_read_def)
  have vw: "buf_write ((m(k := kb0)) v) 0 (row_bytes (\<lambda>a. \<not> attr_is_key a) (sc_attrs sc) vs) = Inr vb"
    using m(4) distinct by simp
  have "\<exists>ins. cg_code c5 = cg_code c4 @ map (Pair b) ins \<and> cg_point c5 = Some b \<and> cg_functions c5 = cg_functions c4 \<and>
     kx = of_nat (?n + length (row_bytes attr_is_key (sc_attrs sc) vs)) \<and> vx = of_nat (0 + length ?vs) \<and>
     run_copies addr ins (m(k := kb0)) = Inr ((m(k := kb0))(k := kb, v := vb))"
    by (rule Insert_cells_run [OF L(2) buff arr(1) slots(6) arr(2) slots(7) distinct(1,2,3) _ _ ints(1,2) _ _ _ rd kb(2) vw])
       (use ints(3) c4 cells in \<open>simp_all add: columns_def\<close>)
  then obtain ins where ins: "cg_code c5 = cg_code c4 @ map (Pair b) ins" "cg_point c5 = Some b"
    "kx = of_nat (length (key_bytes sc vs))" "vx = of_nat (length ?vs)"
    "run_copies addr ins (m(k := kb0)) = Inr ((m(k := kb0))(k := kb, v := vb))"
    by (auto simp: key_bytes_def)
  have cols: "length (row_bytes P (sc_attrs sc) vs) \<le> 8 * columns sc" for P
    using plain_row_length [OF ints(1,2), of P] by (simp add: columns_def)
  have "length (key_bytes sc vs) < 2 ^ 31" "length ?vs < 2 ^ 31"
    using ints(3) cols [of attr_is_key] cols [of "\<lambda>a. \<not> attr_is_key a"] by (simp_all add: key_bytes_def)
  note tail = insert_tail [OF rest ins(2), unfolded ins(3,4) scast_small [OF this(1)] scast_small [OF this(2)]]
  have "buf_read (m g) 0 ?n = Inr (get_key_prefix sc)" by (simp add: m(2) buf_read_def)
  from memcpy_cell [OF slots(6,5) this kb(1)] have "memcpy addr k g ?n m = Inr (m(k := kb0))" .
  moreover have "unat (of_nat ?n :: 64 word) = ?n"
    using ints(3) by (simp add: unsigned_of_nat take_bit_nat_eq_self)
  moreover have "(m(k := kb0))(k := kb, v := vb) = m(k := kb, v := vb)" by auto
  ultimately have "run_copies addr (IMemCpy k g (of_nat ?n) # ins @ [IVal key, IVal val]) m = Inr (m(k := kb, v := vb))" for key val
    using ins(5) by (simp add: run_copies_append)
  moreover have "addr (LRes i (OpBitCast (LPtr LI8)) [k]) = (k, 0)" "addr (LRes i (OpBitCast (LPtr LI8)) [v]) = (v, 0)" for i
    using L(2) slots(6,7) by (simp_all add: llvm_addresses_def)
  moreover from tail obtain i f where "cg_code c' = ?pre @ map (Pair b) ((IMemCpy k g (of_nat ?n) # ins @
      [IVal (LRes (cg_count c5) (OpBitCast (LPtr LI8)) [k]), IVal (LRes (Suc (cg_count c5)) (OpBitCast (LPtr LI8)) [v])]) @
      [IVal (LRes i (OpCall f) [get_ptr ''arg'', LRes (cg_count c5) (OpBitCast (LPtr LI8)) [k],
         getInt64 (of_nat (length (key_bytes sc vs))), LRes (Suc (cg_count c5)) (OpBitCast (LPtr LI8)) [v],
         getInt64 (of_nat (length ?vs))])])"
    by (auto simp: ins(1) c4(1))
  ultimately show ?thesis by blast
qed

end
