(* ===== verification/Reir_Storage.thy ===== *)
theory Reir_Storage
  imports Reir_Layout
begin

text \<open>
  Rows between generated code and the storage engine: what a scan loads from its buffers, and
  the properties of insert and scan, with a concrete table for their examples.
\<close>

section \<open>Scan\<close>

text \<open>The fields of a row value that is put together from 64-bit loads.\<close>

definition load_u64 :: "(llval \<Rightarrow> llval \<times> nat) \<Rightarrow> mem \<Rightarrow> llval \<Rightarrow> 64 word option" where
  "load_u64 addr m p =
     (case addr p of (s, j) \<Rightarrow>
        case buf_read (m s) j 8 of Inr bs \<Rightarrow> Some (u64_of_bytes bs) | Inl _ \<Rightarrow> None)"

fun row_fields :: "(llval \<Rightarrow> llval \<times> nat) \<Rightarrow> mem \<Rightarrow> llval \<Rightarrow> nat \<Rightarrow> 64 word option" where
  "row_fields addr m (LRes _ (OpInsertValue i) [prev, LRes _ OpLoad [p]]) =
     (row_fields addr m prev)(i := load_u64 addr m p)"
| "row_fields addr m _ = (\<lambda>_. None)"

abbreviation int_cells :: "64 word list \<Rightarrow> maybe_value list" where
  "int_cells ws \<equiv> map MaybeValue_int ws"

lemma int_cell_int: "is_integer (attr_ty a) \<Longrightarrow> int_cell a (MaybeValue_int w)"
  by (simp add: int_cell_def attr_ok_def at_ok_def is_integer_def MaybeValue_int_def value_ok_def ValueImpl_int_def)

lemma int_row_ints: "plain_ints as \<Longrightarrow> length ws = length as \<Longrightarrow> int_row (\<lambda>_. True) as (int_cells ws)"
  by (auto simp: int_row_def plain_ints_def list_all_iff list_all2_conv_all_nth intro: int_cell_int)

lemma plain_int_bytes: "attr_prop a AND PROP_NULLABLE = 0 \<Longrightarrow> attr_bytes a (MaybeValue_int w) = bytes_of_u64 w"
  by (auto simp: attr_bytes_def PROP_defs MaybeValue_int_def ValueImpl_int_def value_bytes_def)

lemma load_cell:
  "addr p = (s, j) \<Longrightarrow> buf_read (m s) j 8 = Inr (bytes_of_u64 w) \<Longrightarrow> load_u64 addr m p = Some w"
  by (simp add: load_u64_def)

lemma Scan_cells_run:
  assumes addr: "llvm_addresses L addr"
    and key: "getType L key = LPtr LI8" "addr key = (k, 0)"
    and v: "getType L v = LPtr (LArray nv LI8)" "addr v = (v, 0)"
    and "drop i (sc_attrs sc) = as" "i + length as = length (sc_attrs sc)" "plain_ints as" "length ws = length as"
    and "ko + 8 * length as < 2 ^ 31" "vo + 8 * length as < 2 ^ 31"
    and "buf_read (m k) ko (length (row_bytes attr_is_key as (int_cells ws))) = Inr (row_bytes attr_is_key as (int_cells ws))"
    and "buf_read (m v) vo (length (row_bytes (\<lambda>a. \<not> attr_is_key a) as (int_cells ws))) =
      Inr (row_bytes (\<lambda>a. \<not> attr_is_key a) as (int_cells ws))"
    and "cg_point c = Some b"
    and "Scan_cells sc key v [i..<length (sc_attrs sc)] (of_nat ko) (of_nat vo) prev c = Inr (x, c')"
  shows "cg_point c' = Some b \<and>
     row_fields addr m x = (\<lambda>j. if i \<le> j \<and> j < length (sc_attrs sc) then Some (ws ! (j - i)) else row_fields addr m prev j)"
  using assms(6-)
proof (induction as arbitrary: i ko vo ws c prev)
  case Nil
  then show ?case by (auto simp: fun_eq_iff split: if_splits)
next
  case (Cons a as)
  then obtain w ws' where ws: "ws = w # ws'" "length ws' = length as" by (cases ws) auto
  have a: "sc_attrs sc ! i = a" "i < length (sc_attrs sc)" "drop (Suc i) (sc_attrs sc) = as"
    using Cons.prems(1,2) by (auto simp: nth_via_drop drop_Suc simp flip: tl_drop)
  have plain: "attr_prop a AND PROP_NULLABLE = 0" "plain_ints as" using Cons.prems(3) by (auto simp: plain_ints_def)
  have row: "row_bytes P (a # as) (int_cells ws) = (if P a then bytes_of_u64 w else []) @ row_bytes P as (int_cells ws')" for P
    by (simp add: ws(1) plain_int_bytes [OF plain(1)])
  have up: "[i..<length (sc_attrs sc)] = i # [Suc i..<length (sc_attrs sc)]" using a(2) by (simp add: upt_conv_Cons)
  have i: "Suc i + length as = length (sc_attrs sc)" using Cons.prems(2) by simp
  let ?x = "\<lambda>o'. LRes (Suc (Suc (Suc (cg_count c)))) (OpInsertValue i) [prev, LRes (Suc (Suc (cg_count c))) OpLoad
      [LRes (Suc (cg_count c)) (OpBitCast (LPtr LI64)) [o']]]"
  let ?c = "\<lambda>xs. c\<lparr>cg_count := Suc (Suc (Suc (Suc (cg_count c)))), cg_code := xs\<rparr>"
  have cast: "addr (LRes n (OpBitCast t) [q]) = addr q" for n t q using addr by (simp add: llvm_addresses_def)
  have step: "cg_point c' = Some b \<and> row_fields addr m x =
      (\<lambda>j. if i \<le> j \<and> j < length (sc_attrs sc) then Some (ws ! (j - i)) else row_fields addr m prev j)"
    if "addr q = (d, off)" "buf_read (m d) off 8 = Inr (bytes_of_u64 w)"
      "cg_point c' = Some b \<and> row_fields addr m x = (\<lambda>j. if Suc i \<le> j \<and> j < length (sc_attrs sc)
         then Some (ws' ! (j - Suc i)) else row_fields addr m (?x q) j)" for q d off
    using that load_cell [of addr "LRes (Suc (cg_count c)) (OpBitCast (LPtr LI64)) [q]" d off m w] a(2)
    by (auto simp: fun_eq_iff cast ws(1) nth_Cons' Suc_diff_Suc)
  show ?case
  proof (cases "attr_is_key a")
    case True
    let ?q = "LRes (cg_count c) OpInBoundsGEP [key, getInt32 (of_nat ko)]"
    have q: "addr ?q = (k, ko)" using addr key Cons.prems(5) by (simp add: llvm_addresses_def unat_small)
    have rd: "buf_read (m k) ko 8 = Inr (bytes_of_u64 w)"
      "buf_read (m k) (ko + 8) (length (row_bytes attr_is_key as (int_cells ws'))) = Inr (row_bytes attr_is_key as (int_cells ws'))"
      using buf_read_append [of "m k" ko "bytes_of_u64 w" "row_bytes attr_is_key as (int_cells ws')"] Cons.prems(7) True
      by (simp_all add: row)
    have "\<exists>xs. Scan_cells sc key v [Suc i..<length (sc_attrs sc)] (of_nat (ko + 8)) (of_nat vo) (?x ?q) (?c xs) = Inr (x, c')"
      using Cons.prems(9,10) True a
      by (auto simp: up straight_run sc_is_key_def add.assoc)
    then obtain xs where "Scan_cells sc key v [Suc i..<length (sc_attrs sc)] (of_nat (ko + 8)) (of_nat vo) (?x ?q) (?c xs) = Inr (x, c')" ..
    note IH = Cons.IH [OF a(3) i plain(2) ws(2) _ _ rd(2) _ _ this]
    show ?thesis
      by (rule step [OF q rd(1)], rule IH) (use Cons.prems(5,6,8,9) True in \<open>simp_all add: row\<close>)
  next
    case False
    let ?q = "LRes (cg_count c) OpInBoundsGEP [v, getInt32 0, getInt32 (of_nat vo)]"
    have q: "addr ?q = (v, vo)" using addr v Cons.prems(6) by (simp add: llvm_addresses_def unat_small)
    have rd: "buf_read (m v) vo 8 = Inr (bytes_of_u64 w)"
      "buf_read (m v) (vo + 8) (length (row_bytes (\<lambda>a. \<not> attr_is_key a) as (int_cells ws'))) =
         Inr (row_bytes (\<lambda>a. \<not> attr_is_key a) as (int_cells ws'))"
      using buf_read_append [of "m v" vo "bytes_of_u64 w" "row_bytes (\<lambda>a. \<not> attr_is_key a) as (int_cells ws')"] Cons.prems(8) False
      by (simp_all add: row)
    have "\<exists>xs. Scan_cells sc key v [Suc i..<length (sc_attrs sc)] (of_nat ko) (of_nat (vo + 8)) (?x ?q) (?c xs) = Inr (x, c')"
      using Cons.prems(9,10) False a by (auto simp: up straight_run sc_is_key_def add.assoc)
    then obtain xs where "Scan_cells sc key v [Suc i..<length (sc_attrs sc)] (of_nat ko) (of_nat (vo + 8)) (?x ?q) (?c xs) = Inr (x, c')" ..
    note IH = Cons.IH [OF a(3) i plain(2) ws(2) _ _ _ rd(2) _ this]
    show ?thesis
      by (rule step [OF q rd(1)], rule IH) (use Cons.prems(5,6,7,9) False in \<open>simp_all add: row\<close>)
  qed
qed


text \<open>\<open>Scan::codegen\<close> up to the row value, and from the store of the row on.\<close>

definition Scan_row :: "path \<Rightarrow> string \<Rightarrow> string \<Rightarrow> ('db cg, llval \<times> node_regs \<times> llval \<times> nat \<times> nat) st" where
  "Scan_row p table row =
     bindP (schema_index table) (\<lambda>sc.
     bindM (liftM (prefix_end (get_key_prefix sc))) (\<lambda>key_prefix_end.
     bindM (types_index row) (\<lambda>rowtype.
     bindM (getM (\<lambda>c. cg_nodes c p)) (\<lambda>r.
     bindM (needM (nr_prefix r)) (\<lambda>prefix_begin.
     bindM (needM (nr_prefix_end r)) (\<lambda>pre_end.
     bindM (emit_get_cursor prefix_begin (getInt64 (of_nat (length (get_key_prefix sc))))
              pre_end (getInt64 (of_nat (length key_prefix_end)))) (\<lambda>cursor.
     bindM (BasicBlock_Create ''fullscan_check'') (\<lambda>check.
     bindM (BasicBlock_Create ''fullscan_begin'') (\<lambda>begin.
     bindM (BasicBlock_Create ''fullscan_fin'') (\<lambda>fin.
     bindM (log_ins (IBr check)) (\<lambda>_.
     bindM (SetInsertPoint check) (\<lambda>_.
     bindM (emit_is_valid_cursor cursor) (\<lambda>valid.
     bindM (emit_val OpICmpEQ [valid, LConst LI1 1]) (\<lambda>cond.
     bindM (log_ins (ICondBr cond begin fin)) (\<lambda>_.
     bindM (SetInsertPoint begin) (\<lambda>_.
     bindM (needM (nr_key_stack r)) (\<lambda>key_stack.
     bindM (emit_val (OpBitCast (LPtr LI8)) [key_stack]) (\<lambda>key.
     bindM (emit_cursor_copy_key cursor key) (\<lambda>_.
     bindM (needM (nr_value_stack r)) (\<lambda>value_stack.
     bindM (emit_val (OpBitCast (LPtr LI8)) [value_stack]) (\<lambda>val.
     bindM (emit_cursor_copy_value cursor val) (\<lambda>_.
     bindM (needM rowtype) (\<lambda>rt.
     bindM (Scan_cells sc key value_stack [0..<columns sc] (of_nat (length (get_key_prefix sc))) 0
              (LUndef rt)) (\<lambda>prev.
     returnM (prev, r, cursor, check, fin)))))))))))))))))))))))))"

definition Scan_rest :: "llval \<Rightarrow> nat \<Rightarrow> nat \<Rightarrow> ('db cg, unit) st \<Rightarrow> ('db cg, unit) st" where
  "Scan_rest cursor check fin body =
     bindM body (\<lambda>_.
     bindM (emit_cursor_next cursor) (\<lambda>_.
     bindM (log_ins (IBr check)) (\<lambda>_.
     bindM (SetInsertPoint fin) (\<lambda>_.
     emit_cursor_destroy cursor))))"

lemma return_bindM: "bindM (returnM x) f = f x"
  by (auto simp: bindM_def returnM_def)

lemma Scan_codegen_parts:
  "Scan_codegen p table row body =
     bindM (Scan_row p table row) (\<lambda>(prev, r, cursor, check, fin).
     bindM (needM (nr_tuple_stack r)) (\<lambda>tuple_stack.
     bindM (log_ins (IStore prev tuple_stack)) (\<lambda>_.
     Scan_rest cursor check fin body)))"
  unfolding Scan_codegen_def Scan_row_def Scan_rest_def bind_assoc bindM_assoc return_bindM split_conv ..

lemma Scan_row_grows:
  assumes "Scan_row p table row c = Inr (x, c')"
  shows "prefix (cg_code c) (cg_code c')"
proof -
  have "keeps code_after {} (Scan_row p table row)"
    unfolding Scan_row_def emit_get_cursor_def emit_is_valid_cursor_def emit_cursor_copy_key_def
      emit_cursor_copy_value_def
    by (intro growth.steps growth.step_emit growth.runtime growth.cells keeps_lift) auto
  from keepsD [OF this _ assms, of "cg_code c"] show ?thesis by (simp add: code_after_def)
qed

lemma Scan_rest_grows:
  assumes "Scan_rest cursor check fin (block_codegen L p i ss) c = Inr (x, c')"
  shows "prefix (cg_code c) (cg_code c')"
proof -
  have "keeps code_after {} (Scan_rest cursor check fin (block_codegen L p i ss))"
    unfolding Scan_rest_def emit_cursor_next_def emit_cursor_destroy_def
    by (intro growth.steps growth.runtime growth.stmt_code(2)) (simp add: ok_any list_all_iff)
  from keepsD [OF this _ assms, of "cg_code c"] show ?thesis by (simp add: code_after_def)
qed


text \<open>The slots of a scan, and the row value it builds from them.\<close>

definition scan_slots :: "node_regs \<Rightarrow> llval \<Rightarrow> llval \<Rightarrow> llval \<Rightarrow> bool" where
  "scan_slots r k v t \<longleftrightarrow>
     nr_key_stack r = Some k \<and> nr_value_stack r = Some v \<and> nr_tuple_stack r = Some t \<and>
     (\<exists>n kl m vl nm nm'. k = LRes n (OpAlloca (LArray kl LI8) nm) [] \<and> v = LRes m (OpAlloca (LArray vl LI8) nm') [] \<and> n < m)"

lemma Scan_alloca_slots:
  assumes "Scan_alloca p table row c = Inr (u, c')"
  shows "\<exists>k v t. scan_slots (cg_nodes c' p) k v t"
  using assms
  by (auto simp: Scan_alloca_def alloca_buffers_def bindM_Inr bindP_Inr set_node_def set_types_def set_vars_def modM_def
      StructType_create_def Let_def scan_slots_def split: if_splits dest!: emit_Inr)

lemma call_point: "call_runtime key args c = Inr (x, c') \<Longrightarrow> cg_point c' = cg_point c"
  by (auto simp: call_runtime_def bindP_Inr functions_index_def emit_val_def bindM_Inr freshM_def log_ins_def modM_def
      split: option.splits prod.splits)

lemma emit_point: "emit_val op args c = Inr (x, c') \<Longrightarrow> cg_point c' = cg_point c \<and> (\<exists>n. x = LRes n op args)"
  by (auto simp: emit_val_def bindM_Inr freshM_def log_ins_def modM_def split: option.splits)

lemma Scan_row_cells:
  assumes "Scan_row p table row c = Inr ((x, r, cursor, check, fin), c')"
    and "cx_local_schema (cg_ctx c) table = Some (Some sc)" "nr_key_stack (cg_nodes c p) = Some k"
    "nr_value_stack (cg_nodes c p) = Some v"
  shows "r = cg_nodes c p \<and> (\<exists>b n c1 rt. cg_point c1 = Some b \<and>
    Scan_cells sc (LRes n (OpBitCast (LPtr LI8)) [k]) v [0..<columns sc] (of_nat (length (get_key_prefix sc))) 0 (LUndef rt) c1 =
      Inr (x, c'))"
  using assms
  by (auto simp: Scan_row_def bindM_Inr bindP_Inr schema_index_def pmap_index_def types_index_def SetInsertPoint_def modM_def
      emit_cursor_copy_key_def emit_cursor_copy_value_def split: prod.splits dest!: call_point emit_point) blast


lemma buf_read_written: "buf_write buf off (a @ b) = Inr buf' \<Longrightarrow> buf_read buf' (off + length a) (length b) = Inr b"
  using buf_read_write_same [of buf off "a @ b" buf'] buf_read_append(2) [of buf' off a b] by simp

lemma scan_code_run:
  assumes L: "llvm_types L" "llvm_addresses L addr"
    and slots: "scan_slots (cg_nodes c p) k v t"
    and sc: "cx_local_schema (cg_ctx c) table = Some (Some sc)"
    and ints: "plain_ints (sc_attrs sc)" "length ws = columns sc" "length (get_key_prefix sc) + 8 * columns sc < 2 ^ 31"
    and m: "encode_key sc (int_cells ws) kbuf = Inr (m k)" "encode_value sc (int_cells ws) vbuf = Inr (m v)"
    and c: "codegen L p (Scan table row ss) c = Inr (u, c')"
  shows "\<exists>pre b x post. cg_code c' = pre @ (b, IStore x t) # post \<and> prefix (cg_code c) pre \<and>
    row_fields addr m x = (\<lambda>j. if j < columns sc then Some (ws ! j) else None)"
proof -
  have regs: "nr_key_stack (cg_nodes c p) = Some k" "nr_value_stack (cg_nodes c p) = Some v" "nr_tuple_stack (cg_nodes c p) = Some t"
    and addrs: "addr k = (k, 0)" "addr v = (v, 0)"
    using slots L(2) by (auto simp: scan_slots_def llvm_addresses_def)
  obtain nv where v: "getType L v = LPtr (LArray nv LI8)"
    using slots L(1) by (auto simp: scan_slots_def llvm_types_def)
  from c obtain x r cursor check fin c1 c2 t' where row: "Scan_row p table row c = Inr ((x, r, cursor, check, fin), c1)"
    and st: "nr_tuple_stack r = Some t'" "log_ins (IStore x t') c1 = Inr ((), c2)"
    and rest: "Scan_rest cursor check fin (block_codegen L (p @ [0]) 0 ss) c2 = Inr (u, c')"
    by (auto simp: Scan_codegen_parts bindM_Inr split: prod.splits)
  from Scan_row_cells [OF row sc regs(1,2)] obtain b n c3 rt where r: "r = cg_nodes c p" and "cg_point c3 = Some b"
    and cells: "Scan_cells sc (LRes n (OpBitCast (LPtr LI8)) [k]) v [0..<length (sc_attrs sc)]
      (of_nat (length (get_key_prefix sc))) (of_nat 0) (LUndef rt) c3 = Inr (x, c1)"
    by (auto simp: columns_def)
  note row_ok = int_row_ints [OF ints(1) ints(2) [unfolded columns_def]]
  have kb: "buf_read (m k) (length (get_key_prefix sc)) (length (row_bytes attr_is_key (sc_attrs sc) (int_cells ws))) =
      Inr (row_bytes attr_is_key (sc_attrs sc) (int_cells ws))"
    using m(1) buf_read_written [of kbuf 0 "get_key_prefix sc"]
    by (simp add: encode_key_bytes [OF int_row_any [OF row_ok]] key_bytes_def)
  have vb: "buf_read (m v) 0 (length (row_bytes (\<lambda>a. \<not> attr_is_key a) (sc_attrs sc) (int_cells ws))) =
      Inr (row_bytes (\<lambda>a. \<not> attr_is_key a) (sc_attrs sc) (int_cells ws))"
    using m(2) buf_read_write_same by (simp add: encode_value_def encode_selected_bytes [OF int_row_any [OF row_ok]])
  have key: "getType L (LRes n (OpBitCast (LPtr LI8)) [k]) = LPtr LI8" "addr (LRes n (OpBitCast (LPtr LI8)) [k]) = (k, 0)"
    using L addrs(1) by (simp_all add: llvm_types_def llvm_addresses_def)
  have "cg_point c1 = Some b \<and> row_fields addr m x =
      (\<lambda>j. if 0 \<le> j \<and> j < length (sc_attrs sc) then Some (ws ! (j - 0)) else row_fields addr m (LUndef rt) j)"
    by (rule Scan_cells_run [OF L(2) key v addrs(2) _ _ ints(1) _ _ _ kb vb _ cells])
       (use ints(2,3) \<open>cg_point c3 = Some b\<close> in \<open>simp_all add: columns_def\<close>)
  then have x: "row_fields addr m x = (\<lambda>j. if j < columns sc then Some (ws ! j) else None)" and "cg_point c1 = Some b"
    by (auto simp: columns_def)
  then have "cg_code c2 = cg_code c1 @ [(b, IStore x t)]" using st r regs(3) by (auto simp: log_run)
  moreover note Scan_rest_grows [OF rest] Scan_row_grows [OF row]
  ultimately show ?thesis using x by (auto simp: prefix_def)
qed

section \<open>A concrete table\<close>

text \<open>The table \<open>t\<close> with one integer key, a row \<open>{7}\<close>, and a state in which both are compiled.\<close>

definition demo_row :: expr where
  "demo_row = RowLiteral None [int_lit 7]"

definition demo_tables :: "unit cg" where
  "demo_tables = demo_state\<lparr>cg_ctx := CompilerContext_new\<lparr>cx_local_schema := [''t'' \<mapsto> Some one_int_key]\<rparr>,
     cg_functions := (\<lambda>k. Some (Some \<lparr>fn_name = k, fn_ret = LI1, fn_args = []\<rparr>))\<rparr>"

lemma one_int_key_plain: "plain_ints (sc_attrs one_int_key)" "columns one_int_key = 1" "get_key_prefix one_int_key = ''t:''"
  by (simp_all add: plain_ints_def one_int_key_def Schema_new_def is_integer_def AttrType_of_string_def PROP_defs AT_defs
      columns_def get_key_prefix_def)

lemmas table_defs = demo_row_def demo_tables_def demo_state_def one_int_key_plain CompilerContext_new_def

lemma one_int_key_sizes: "get_fixed_key_length one_int_key = Inr 11" "get_fixed_value_length one_int_key = Inr 0"
  using plain_fixed_lengths [OF one_int_key_plain(1) one_int_key_row]
  by (simp_all add: plain_row_length [OF one_int_key_plain(1) one_int_key_row] key_bytes_def one_int_key_plain(3))
     (simp_all add: one_int_key_def Schema_new_def attr_is_key_def PROP_defs)

lemma one_int_key_fixed: "fixed_key_length one_int_key" "fixed_value_length one_int_key"
  using one_int_key_plain(1) by (auto simp: plain_ints_def list_all_iff intro!: int_types_fixed)

lemmas insert_run = Insert_alloca_def Insert_codegen_def alloca_buffers_def find_or_create_prefix_def emit_insert_def
  call_runtime_def insert_element_def insert_row_type_def node_regs_new_def Scan_alloca_def Scan_codegen_def prefix_end_def
  emit_get_cursor_def emit_is_valid_cursor_def emit_cursor_copy_key_def emit_cursor_copy_value_def emit_cursor_next_def
  emit_cursor_destroy_def one_int_key_sizes one_int_key_fixed

lemma demo_cells:
  "sc_is_key one_int_key 0 = Inr True" "get_tuple_length one_int_key 0 = Inr 8"
  "Scan_row_attrs (sc_attrs one_int_key) = Inr [LI64]"
  by (simp_all add: sc_is_key_def get_tuple_length_def one_int_key_def Schema_new_def attr_is_key_def is_integer_def
      attr_default_size_def at_default_size_def AttrType_of_string_def PROP_defs AT_defs)

text \<open>The state after the slots of \<open>INSERT t {7}\<close> are allocated.\<close>

definition demo_type :: llty where
  "demo_type = LStruct 0 ''{i64,}'' [LI64]"

definition demo_key :: llval where
  "demo_key = LRes (Suc 0) (OpAlloca (LArray 11 LI8) ''insert_key_stack'') []"

definition demo_value :: llval where
  "demo_value = LRes (Suc (Suc 0)) (OpAlloca (LArray 0 LI8) ''insert_val_stack'') []"

definition demo_tuple :: llval where
  "demo_tuple = LRes (Suc (Suc (Suc 0))) (OpAlloca demo_type ''tuple_stack'') []"

definition demo_ready :: "unit cg" where
  "demo_ready = demo_tables\<lparr>cg_globals := [''t:'' \<mapsto> LGlobalString 0 ''t:''],
     cg_nodes := (\<lambda>_. node_regs_new)([] := \<lparr>nr_prefix = Some (LGlobalString 0 ''t:''), nr_prefix_end = None,
       nr_key_stack = Some demo_key, nr_value_stack = Some demo_value, nr_tuple_stack = Some demo_tuple\<rparr>),
     cg_types := [''{i64,}'' \<mapsto> Some demo_type], cg_structs := [demo_type], cg_count := Suc (Suc (Suc (Suc 0))),
     cg_code := map (Pair 0) [IVal demo_key, IVal demo_value, IVal demo_tuple]\<rparr>"

lemmas ready_defs = table_defs demo_ready_def demo_key_def demo_value_def demo_tuple_def demo_type_def

lemma demo_insert_slots: "Insert_alloca sample_llvm [] ''t'' demo_row demo_tables = Inr ((), demo_ready)"
  by (simp add: ready_defs insert_run run_defs demo_cells)

lemma demo_insert_type: "\<exists>c2. insert_row_type sample_llvm [] ''t'' demo_row demo_ready = Inr (Some demo_type, c2)"
  by (simp add: ready_defs insert_run run_defs demo_cells)

lemma demo_insert_code: "\<exists>c'. Insert_codegen sample_llvm [] ''t'' demo_row demo_ready = Inr ((), c')"
  by (simp add: ready_defs insert_run run_defs demo_cells cong: lazy_binds)

lemma demo_ready_facts:
  "own_globals demo_tables" "cx_local_schema (cg_ctx demo_tables) ''t'' = Some (Some one_int_key)"
  "cx_local_schema (cg_ctx demo_ready) ''t'' = Some (Some one_int_key)" "cg_point demo_ready = Some 0"
  "cg_nodes demo_ready [] = \<lparr>nr_prefix = Some (LGlobalString 0 ''t:''), nr_prefix_end = None,
     nr_key_stack = Some demo_key, nr_value_stack = Some demo_value, nr_tuple_stack = Some demo_tuple\<rparr>"
  "demo_key \<noteq> demo_value" "demo_tuple \<noteq> demo_key" "demo_tuple \<noteq> demo_value"
  by (simp_all add: own_globals_def ready_defs cg_new_def)

lemma demo_scan_runs:
  "\<exists>c1 c'. Scan_alloca [] ''t'' ''r'' demo_tables = Inr ((), c1) \<and>
     codegen sample_llvm [] (Scan ''t'' ''r'' []) c1 = Inr ((), c') \<and>
     cx_local_schema (cg_ctx c1) ''t'' = Some (Some one_int_key)"
  by (simp add: ready_defs insert_run run_defs demo_cells cong: lazy_binds)

definition demo_mem :: mem where
  "demo_mem x =
     (if x = demo_tuple then row_bytes (\<lambda>_. True) (sc_attrs one_int_key) [MaybeValue_int 7]
      else if x = demo_key then replicate 11 (CHR 0x00)
      else if x = demo_value then []
      else ''t:'')"

lemma demo_mem_facts:
  "demo_mem demo_tuple = row_bytes (\<lambda>_. True) (sc_attrs one_int_key) [MaybeValue_int 7]"
  "demo_mem demo_key = replicate 11 (CHR 0x00)" "demo_mem demo_value = []" "demo_mem (LGlobalString 0 ''t:'') = ''t:''"
  using demo_ready_facts(6-8) by (simp_all add: demo_mem_def) (simp_all add: demo_tuple_def demo_key_def demo_value_def)

section \<open>Properties\<close>

text \<open>
  C6. The code of an insert writes what the row encoder writes. For a row of integers none of
  which may be null, with as many elements as the table has columns, the copies after the
  row's own code leave in the key buffer what \<open>encode_key\<close> and in the value buffer what
  \<open>encode_value\<close> puts there, and the engine is called on these two buffers with the lengths
  \<open>key_length\<close> and \<open>value_length\<close>.
\<close>

theorem insert_encodes_row:
  assumes L: "llvm_types L" "llvm_addresses L addr"
    and slots: "Insert_alloca L p table e c0 = Inr (u0, c1)" "own_globals c0"
      "cx_local_schema (cg_ctx c0) table = Some (Some sc)"
    and code: "Insert_codegen L p table e c = Inr (u, c')" "cg_nodes c p = cg_nodes c1 p" "cg_point c \<noteq> None"
      "cx_local_schema (cg_ctx c) table = Some (Some sc)"
    and row: "insert_row_type L p table e c = Inr (Some (LStruct n nm ts), c2)" "length ts = columns sc"
      "plain_ints (sc_attrs sc)" "int_row (\<lambda>_. True) (sc_attrs sc) vs"
      "length (get_key_prefix sc) + 8 * columns sc < 2 ^ 31"
    and regs: "nr_prefix (cg_nodes c p) = Some g" "nr_key_stack (cg_nodes c p) = Some k"
      "nr_value_stack (cg_nodes c p) = Some v" "nr_tuple_stack (cg_nodes c p) = Some t"
    and mem: "m t = row_bytes (\<lambda>_. True) (sc_attrs sc) vs" "m g = get_key_prefix sc"
      "get_fixed_key_length sc = Inr kl" "length (m k) = unat kl"
      "get_fixed_value_length sc = Inr vl" "length (m v) = unat vl"
  shows "\<exists>pre b ins i f key val kn vn m'.
      cg_code c' = pre @ map (Pair b) (ins @ [IVal (LRes i (OpCall f)
        [get_ptr ''arg'', key, getInt64 (of_nat kn), val, getInt64 (of_nat vn)])]) \<and>
      addr key = (k, 0) \<and> addr val = (v, 0) \<and> run_copies addr ins m = Inr m' \<and>
      encode_key sc vs (m k) = Inr (m' k) \<and> key_length sc vs = Inr kn \<and>
      encode_value sc vs (m v) = Inr (m' v) \<and> value_length sc vs = Inr vn"
proof -
  have sl: "insert_slots sc (cg_nodes c p) g k v t"
    using Insert_alloca_slots [OF slots(1,3,2)] regs code(2) by (auto simp: insert_slots_def)
  then have kv: "k \<noteq> v" by (auto simp: insert_slots_def)
  let ?vb = "row_bytes (\<lambda>a. \<not> attr_is_key a) (sc_attrs sc) vs"
  have cols: "length (row_bytes P (sc_attrs sc) vs) \<le> 8 * columns sc" for P
    using plain_row_length [OF row(3,4), of P] by (simp add: columns_def)
  have "unat kl = Suc (length (key_bytes sc vs))" "unat vl = length ?vb"
    using mem(3,5) plain_fixed_lengths [OF row(3,4)] row(5) cols [of attr_is_key] cols [of "\<lambda>a. \<not> attr_is_key a"]
    by (auto simp: key_bytes_def unsigned_of_nat take_bit_nat_eq_self simp del: of_nat_Suc)
  then obtain kb vb where w: "buf_write (m k) 0 (key_bytes sc vs) = Inr kb" "buf_write (m v) 0 ?vb = Inr vb"
    using mem(4,6) by (auto simp: buf_write_def)
  have enc: "encode_key sc vs (m k) = Inr kb" "encode_value sc vs (m v) = Inr vb"
    "key_length sc vs = Inr (length (key_bytes sc vs))" "value_length sc vs = Inr (length ?vb)"
    using w by (simp_all add: encode_key_bytes [OF int_row_any [OF row(4)]] key_length_bytes [OF int_row_any [OF row(4)]]
        encode_value_def encode_selected_bytes [OF int_row_any [OF row(4)]] value_length_def
        sum_lengths_bytes [OF int_row_any [OF row(4)]])
  let ?m = "m(k := kb, v := vb)"
  from Insert_code_run [OF L sl code(4) row mem(1,2) w code(3,1)] obtain pre b ins i f key val where
    "cg_code c' = pre @ map (Pair b) (ins @ [IVal (LRes i (OpCall f) [get_ptr ''arg'', key,
      getInt64 (of_nat (length (key_bytes sc vs))), val, getInt64 (of_nat (length ?vb))])])"
    "addr key = (k, 0)" "addr val = (v, 0)" "run_copies addr ins m = Inr ?m"
    by blast
  moreover from enc kv have "encode_key sc vs (m k) = Inr (?m k)" "encode_value sc vs (m v) = Inr (?m v)" by simp_all
  ultimately show ?thesis using enc(3,4) by blast
qed

theorem insert_encodes_row_witness:
  "\<exists>c'. Insert_codegen sample_llvm [] ''t'' demo_row demo_ready = Inr ((), c') \<and>
     (\<exists>pre b ins i f key val kn vn m'.
      cg_code c' = pre @ map (Pair b) (ins @ [IVal (LRes i (OpCall f)
        [get_ptr ''arg'', key, getInt64 (of_nat kn), val, getInt64 (of_nat vn)])]) \<and>
      sample_addr key = (demo_key, 0) \<and> sample_addr val = (demo_value, 0) \<and> run_copies sample_addr ins demo_mem = Inr m' \<and>
      encode_key one_int_key [MaybeValue_int 7] (demo_mem demo_key) = Inr (m' demo_key) \<and>
      key_length one_int_key [MaybeValue_int 7] = Inr kn \<and>
      encode_value one_int_key [MaybeValue_int 7] (demo_mem demo_value) = Inr (m' demo_value) \<and>
      value_length one_int_key [MaybeValue_int 7] = Inr vn)"
proof -
  obtain c' c2 where c: "Insert_codegen sample_llvm [] ''t'' demo_row demo_ready = Inr ((), c')"
    "insert_row_type sample_llvm [] ''t'' demo_row demo_ready = Inr (Some (LStruct 0 ''{i64,}'' [LI64]), c2)"
    using demo_insert_code demo_insert_type by (auto simp: demo_type_def)
  have "\<exists>pre b ins i f key val kn vn m'.
      cg_code c' = pre @ map (Pair b) (ins @ [IVal (LRes i (OpCall f)
        [get_ptr ''arg'', key, getInt64 (of_nat kn), val, getInt64 (of_nat vn)])]) \<and>
      sample_addr key = (demo_key, 0) \<and> sample_addr val = (demo_value, 0) \<and> run_copies sample_addr ins demo_mem = Inr m' \<and>
      encode_key one_int_key [MaybeValue_int 7] (demo_mem demo_key) = Inr (m' demo_key) \<and>
      key_length one_int_key [MaybeValue_int 7] = Inr kn \<and>
      encode_value one_int_key [MaybeValue_int 7] (demo_mem demo_value) = Inr (m' demo_value) \<and>
      value_length one_int_key [MaybeValue_int 7] = Inr vn"
    by (rule insert_encodes_row [where m = demo_mem and t = demo_tuple and g = "LGlobalString 0 ''t:''", OF
          sample_llvm_types sample_llvm_addresses demo_insert_slots demo_ready_facts(1,2) c(1)
          refl _ demo_ready_facts(3) c(2) _ one_int_key_plain(1) one_int_key_row _ _ _ _ _ demo_mem_facts(1) _
          one_int_key_sizes(1) _ one_int_key_sizes(2)])
       (simp_all add: one_int_key_plain demo_ready_facts(4,5) demo_mem_facts)
  with c(1) show ?thesis by blast
qed

text \<open>
  C7. A scan reads back what an insert wrote. When its buffers hold the key and the value that
  the encoder makes of a row of integers, the value the scan stores into its row variable has
  exactly these integers as its fields, in the order of the columns.
\<close>

theorem scan_reads_row:
  assumes "llvm_types L" "llvm_addresses L addr"
    and "Scan_alloca p table row c0 = Inr (u0, c1)" "cg_nodes c p = cg_nodes c1 p"
    and "codegen L p (Scan table row ss) c = Inr (u, c')" "cx_local_schema (cg_ctx c) table = Some (Some sc)"
    and "plain_ints (sc_attrs sc)" "length ws = columns sc" "length (get_key_prefix sc) + 8 * columns sc < 2 ^ 31"
    and "nr_key_stack (cg_nodes c p) = Some k" "nr_value_stack (cg_nodes c p) = Some v"
      "nr_tuple_stack (cg_nodes c p) = Some t"
    and "encode_key sc (map MaybeValue_int ws) kbuf = Inr (m k)" "encode_value sc (map MaybeValue_int ws) vbuf = Inr (m v)"
  shows "\<exists>pre b x post. cg_code c' = pre @ (b, IStore x t) # post \<and> prefix (cg_code c) pre \<and>
    row_fields addr m x = (\<lambda>j. if j < columns sc then Some (ws ! j) else None)"
proof -
  from Scan_alloca_slots [OF assms(3)] assms(4,10-12) have "scan_slots (cg_nodes c p) k v t" by (auto simp: scan_slots_def)
  from scan_code_run [OF assms(1,2) this assms(6-9) assms(13,14,5)] show ?thesis .
qed


theorem scan_reads_row_witness:
  "\<exists>c1 c' k v t kb vb. Scan_alloca [] ''t'' ''r'' demo_tables = Inr ((), c1) \<and>
     codegen sample_llvm [] (Scan ''t'' ''r'' []) c1 = Inr ((), c') \<and>
     (\<exists>pre b x post. cg_code c' = pre @ (b, IStore x t) # post \<and> prefix (cg_code c1) pre \<and>
        row_fields sample_addr (\<lambda>x. if x = k then kb else vb) x = (\<lambda>j. if j < columns one_int_key then Some ([7] ! j) else None))"
proof -
  obtain c1 c' where c: "Scan_alloca [] ''t'' ''r'' demo_tables = Inr ((), c1)"
    "codegen sample_llvm [] (Scan ''t'' ''r'' []) c1 = Inr ((), c')"
    "cx_local_schema (cg_ctx c1) ''t'' = Some (Some one_int_key)"
    using demo_scan_runs by blast
  from Scan_alloca_slots [OF c(1)] obtain k v t where sl: "nr_key_stack (cg_nodes c1 []) = Some k"
    "nr_value_stack (cg_nodes c1 []) = Some v" "nr_tuple_stack (cg_nodes c1 []) = Some t" "k \<noteq> v"
    by (auto simp: scan_slots_def)
  obtain kb vb where enc: "encode_key one_int_key (map MaybeValue_int [7]) (replicate 11 (CHR 0x00)) = Inr kb"
    "encode_value one_int_key (map MaybeValue_int [7]) [] = Inr vb"
    using plain_row_length [OF one_int_key_plain(1) one_int_key_row]
    by (simp add: encode_key_bytes [OF one_int_key_row] encode_value_def encode_selected_bytes [OF one_int_key_row]
        buf_write_def key_bytes_def one_int_key_plain(3))
       (simp add: one_int_key_def Schema_new_def attr_is_key_def PROP_defs)
  let ?m = "\<lambda>x. if x = k then kb else vb"
  have enc': "encode_key one_int_key (map MaybeValue_int [7]) (replicate 11 (CHR 0x00)) = Inr (?m k)"
    "encode_value one_int_key (map MaybeValue_int [7]) [] = Inr (?m v)"
    using enc sl(4) by simp_all
  have "\<exists>pre b x post. cg_code c' = pre @ (b, IStore x t) # post \<and> prefix (cg_code c1) pre \<and>
    row_fields sample_addr ?m x = (\<lambda>j. if j < columns one_int_key then Some ([7] ! j) else None)"
    by (rule scan_reads_row [OF sample_llvm_types sample_llvm_addresses c(1) refl c(2,3) one_int_key_plain(1) _ _ sl(1-3) enc'])
       (simp_all add: one_int_key_plain)
  with c show ?thesis by blast
qed

end
