(* ===== verification/Reir_Range.thy ===== *)
theory Reir_Range
  imports Reir_Codegen_Stmt "HOL-Library.List_Lexorder" "HOL-Library.Char_ord"
begin

text \<open>
  The range of a scan: the cursor goes from the key prefix of the table to \<open>prefix_end\<close>, in
  the engine's order of keys, the lexicographic order of unsigned bytes.
\<close>

lemma prefix_end_snoc: "prefix_end (m @ [x, s]) = Inr (m @ [next_char x, s])"
  by (simp add: prefix_end_def nth_append list_update_append)

lemma next_char_greater: "of_char x < (255 :: nat) \<Longrightarrow> x < next_char x \<and> (\<forall>y. x < y \<longrightarrow> next_char x \<le> y)"
  by (auto simp: next_char_def less_char_def less_eq_char_def)

lemma between:
  fixes x z s :: char
  assumes "x < z" "\<And>y. x < y \<Longrightarrow> z \<le> y"
  shows "m @ [x, s] \<le> key \<and> key < m @ [z, s] \<longleftrightarrow>
    (\<exists>y ys. key = m @ x # y # ys \<and> s \<le> y) \<or> (\<exists>ys. key = m @ z # ys \<and> (ys = [] \<or> hd ys < s))"
proof (induction m arbitrary: key)
  case Nil
  show ?case
  proof (cases key)
    case (Cons k ks)
    have "k = x \<or> k = z \<or> k < x \<or> z < k" using assms by (metis antisym_conv3 le_neq_trans)
    then show ?thesis
      using assms(1) Cons by (cases ks) (auto simp: order.strict_implies_order)
  qed simp
next
  case (Cons a m)
  then show ?case by (cases key) auto
qed


lemma table_key_split:
  assumes "CHR '':'' \<notin> set n"
  shows "name' @ CHR '':'' # cells = n @ ys \<longleftrightarrow>
    (\<exists>t. name' = n @ t \<and> ys = t @ CHR '':'' # cells)"
  using assms by (auto simp: append_eq_append_conv2 Cons_eq_append_conv)

lemma range_keys:
  assumes "sc_name sc = m @ [x]" "of_char x < (255 :: nat)" "CHR '':'' \<notin> set (sc_name sc)"
  shows "\<exists>e. prefix_end (get_key_prefix sc) = Inr e \<and>
    (\<forall>sc' cells. get_key_prefix sc \<le> get_key_prefix sc' @ cells \<and> get_key_prefix sc' @ cells < e \<longleftrightarrow>
       sc_name sc' = sc_name sc \<or>
       (\<exists>y s. sc_name sc' = sc_name sc @ y # s \<and> CHR '':'' \<le> y) \<or>
       (\<exists>y s. sc_name sc' = m @ next_char x # y # s \<and> y < CHR '':'') \<or>
       next_char x = CHR '':'' \<and> sc_name sc' = m \<and> (cells = [] \<or> hd cells < CHR '':''))"
proof -
  have p: "get_key_prefix s = sc_name s @ '':''" for s by (simp add: get_key_prefix_def)
  have e: "prefix_end (get_key_prefix sc) = Inr (m @ [next_char x, CHR '':''])"
    by (simp add: p assms(1) prefix_end_snoc)
  have n: "CHR '':'' \<notin> set (m @ [x])" "CHR '':'' \<notin> set m" using assms(1,3) by auto
  have key: "(get_key_prefix sc \<le> name @ CHR '':'' # cells \<and> name @ CHR '':'' # cells < m @ [next_char x, CHR '':'']) \<longleftrightarrow>
      (\<exists>y ys. name @ CHR '':'' # cells = (m @ [x]) @ y # ys \<and> CHR '':'' \<le> y) \<or>
      (\<exists>ys. name @ CHR '':'' # cells = m @ next_char x # ys \<and> (ys = [] \<or> hd ys < CHR '':''))" for name cells
    using between [of x "next_char x" m "CHR '':''" "name @ CHR '':'' # cells"] next_char_greater [OF assms(2)]
    by (simp add: p assms(1))
  have own: "(\<exists>y ys. name @ CHR '':'' # cells = (m @ [x]) @ y # ys \<and> CHR '':'' \<le> y) \<longleftrightarrow>
      name = m @ [x] \<or> (\<exists>y s. name = m @ x # y # s \<and> CHR '':'' \<le> y)" for name cells
    unfolding table_key_split [OF n(1)] by (auto simp: Cons_eq_append_conv append_eq_Cons_conv)
  have next_table: "(\<exists>ys. name @ CHR '':'' # cells = m @ next_char x # ys \<and> (ys = [] \<or> hd ys < CHR '':'')) \<longleftrightarrow>
      (\<exists>y s. name = m @ next_char x # y # s \<and> y < CHR '':'') \<or>
      next_char x = CHR '':'' \<and> name = m \<and> (cells = [] \<or> hd cells < CHR '':'')" for name cells
    unfolding table_key_split [OF n(2)]
    by (auto simp: Cons_eq_append_conv append_eq_Cons_conv hd_append neq_Nil_conv split: if_splits)
  show ?thesis
    using key own next_table by (intro exI [of _ "m @ [next_char x, CHR '':'']"] conjI e) (simp add: p assms(1))
qed


text \<open>
  C38. The range of a scan holds the rows of the table, and of which other tables. Besides its
  own rows a scan meets the rows of every table whose name continues the name of the table with
  a character that is not below the colon, of every table whose name continues the name with
  its last character incremented by one below the colon, and, when the incremented
  character is the colon, the rows of the table with the shortened name whose first key byte is
  below the colon.
\<close>

theorem scan_range_tables:
  assumes "sc_name sc = m @ [x]" "of_char x < (255 :: nat)" "CHR '':'' \<notin> set (sc_name sc)"
  shows "\<exists>e. prefix_end (get_key_prefix sc) = Inr e \<and>
    (\<forall>sc' cells. get_key_prefix sc \<le> get_key_prefix sc' @ cells \<and> get_key_prefix sc' @ cells < e \<longleftrightarrow>
       sc_name sc' = sc_name sc \<or>
       (\<exists>y s. sc_name sc' = sc_name sc @ y # s \<and> CHR '':'' \<le> y) \<or>
       (\<exists>y s. sc_name sc' = m @ next_char x # y # s \<and> y < CHR '':'') \<or>
       next_char x = CHR '':'' \<and> sc_name sc' = m \<and> (cells = [] \<or> hd cells < CHR '':''))"
  using assms by (rule range_keys)

theorem scan_range_tables_witness:
  "\<exists>e. prefix_end (get_key_prefix (Schema_new ''t'' [])) = Inr e \<and>
     (\<forall>cells. get_key_prefix (Schema_new ''t'' []) \<le> get_key_prefix (Schema_new ''tb'' []) @ cells \<and>
        get_key_prefix (Schema_new ''tb'' []) @ cells < e) \<and>
     (\<forall>cells. get_key_prefix (Schema_new ''t'' []) \<le> get_key_prefix (Schema_new ''u1'' []) @ cells \<and>
        get_key_prefix (Schema_new ''u1'' []) @ cells < e)"
proof -
  have next_t: "next_char (CHR ''t'') = CHR ''u''" by code_simp
  have "sc_name (Schema_new ''t'' []) = [] @ ''t''" "of_char (CHR ''t'') < (255 :: nat)" by (simp_all add: Schema_new_def)
  from scan_range_tables [OF this] obtain e where "prefix_end (get_key_prefix (Schema_new ''t'' [])) = Inr e"
    "\<And>sc' cells. get_key_prefix (Schema_new ''t'' []) \<le> get_key_prefix sc' @ cells \<and> get_key_prefix sc' @ cells < e \<longleftrightarrow>
       sc_name sc' = ''t'' \<or> (\<exists>y s. sc_name sc' = CHR ''t'' # y # s \<and> CHR '':'' \<le> y) \<or>
       (\<exists>y s. sc_name sc' = CHR ''u'' # y # s \<and> y < CHR '':'')"
    by (auto simp: Schema_new_def next_t)
  then show ?thesis by (auto simp: Schema_new_def less_char_def less_eq_char_def)
qed

end
