(* ===== verification/Reir_Foedus.thy ===== *)
theory Reir_Foedus
  imports Reir_Storage Reir_Range
begin

text \<open>
  \<^verbatim>\<open>src/reir/engine/foedus_interface.cpp\<close>, \<^verbatim>\<open>foedus_executor.cpp\<close>, \<^verbatim>\<open>foedus_runner.cpp\<close> and
  \<^verbatim>\<open>db_handle\<close>: the functions that generated code calls and that forward to the FOEDUS
  storage engine. The engine is a library: the record \<open>foedus\<close> has its operations, as arguments
  of the definitions, and \<open>foedus_laws\<close> their documented behaviour.
\<close>

section \<open>The engine\<close>

text \<open>
  An engine over states \<open>'e\<close>, cursors \<open>'c\<close> and error codes \<open>'r\<close>. A \<open>const char*\<close> argument is
  the content of the buffer from the pointer on. \<open>KeyLength\<close> and \<open>PayloadLength\<close> are unsigned
  integers of \<open>key_bits\<close> and \<open>payload_bits\<close> bits.
\<close>

record ('e, 'c, 'r) foedus =
  key_bits :: nat
  payload_bits :: nat
  kErrorCodeOk :: 'r
  get_error_message :: "'r \<Rightarrow> string"
  show_error_code :: "'r \<Rightarrow> string"
  xct_begin :: "'e \<Rightarrow> 'r \<times> 'e"
  xct_precommit :: "'e \<Rightarrow> 'r \<times> 'e"
  wait_for_commit :: "'e \<Rightarrow> 'e"
  insert_record :: "string \<Rightarrow> nat \<Rightarrow> string \<Rightarrow> nat \<Rightarrow> 'e \<Rightarrow> 'r \<times> 'e"
  overwrite_record :: "string \<Rightarrow> nat \<Rightarrow> string \<Rightarrow> nat \<Rightarrow> nat \<Rightarrow> 'e \<Rightarrow> 'r \<times> 'e"
  new_cursor :: "'e \<Rightarrow> 'c \<times> 'e"
  cursor_open :: "'c \<Rightarrow> string \<Rightarrow> nat \<Rightarrow> string \<Rightarrow> nat \<Rightarrow> 'e \<Rightarrow> 'r \<times> 'e"
  is_valid_record :: "'c \<Rightarrow> 'e \<Rightarrow> bool"
  cursor_next :: "'c \<Rightarrow> 'e \<Rightarrow> 'e"
  combined_key :: "'c \<Rightarrow> 'e \<Rightarrow> string"
  get_payload :: "'c \<Rightarrow> 'e \<Rightarrow> string"
  get_payload_length :: "'c \<Rightarrow> 'e \<Rightarrow> nat"
  delete_cursor :: "'c \<Rightarrow> 'e \<Rightarrow> 'e"

text \<open>What the functions work on: the engine's state and what was printed.\<close>

record 'e io =
  io_engine :: 'e
  io_out :: string

type_synonym ('e, 'z, 'a) iost = "(('e, 'z) io_scheme, 'a) st"

definition printM :: "string \<Rightarrow> ('e, 'z, unit) iost" where
  "printM t = modM (\<lambda>s. s\<lparr>io_out := io_out s @ t\<rparr>)"

definition engineM :: "('e \<Rightarrow> 'a \<times> 'e) \<Rightarrow> ('e, 'z, 'a) iost" where
  "engineM f s = (case f (io_engine s) of (x, e) \<Rightarrow> Inr (x, s\<lparr>io_engine := e\<rparr>))"

definition engine_do :: "('e \<Rightarrow> 'e) \<Rightarrow> ('e, 'z, unit) iost" where
  "engine_do f = engineM (\<lambda>e. ((), f e))"

section \<open>The functions generated code calls\<close>

definition begin_xct :: "('e, 'c, 'r) foedus \<Rightarrow> ('e, 'z, bool) iost" where
  "begin_xct E =
     bindM (printM (''FOEDUS transaction started '' @ endl)) (\<lambda>_.
     bindM (engineM (xct_begin E)) (\<lambda>ret.
     if ret = kErrorCodeOk E then returnM True
     else bindM (printM (''foedus error:[begin_xct]: '' @ get_error_message E ret @ endl)) (\<lambda>_.
          returnM False)))"

definition foedus_insert ::
    "('e, 'c, 'r) foedus \<Rightarrow> string \<Rightarrow> 64 word \<Rightarrow> string \<Rightarrow> 64 word \<Rightarrow> ('e, 'z, bool) iost" where
  "foedus_insert E key key_len val value_len =
     bindM (engineM (insert_record E key (take_bit (key_bits E) (unat key_len))
              val (take_bit (payload_bits E) (unat value_len)))) (\<lambda>ret.
     if ret \<noteq> kErrorCodeOk E
     then bindM (printM (''foedus error:[insert]: '' @ get_error_message E ret @ endl)) (\<lambda>_.
          returnM False)
     else returnM True)"

text \<open>The cursor is returned whether or not it could be opened.\<close>

definition foedus_generate_cursor ::
    "('e, 'c, 'r) foedus \<Rightarrow> string \<Rightarrow> 64 word \<Rightarrow> string \<Rightarrow> 64 word \<Rightarrow> ('e, 'z, 'c) iost" where
  "foedus_generate_cursor E from from_len to to_len =
     bindM (engineM (new_cursor E)) (\<lambda>cursor.
     bindM (engineM (cursor_open E cursor from (take_bit (key_bits E) (unat from_len))
              to (take_bit (key_bits E) (unat to_len)))) (\<lambda>ret.
     bindM (if ret \<noteq> kErrorCodeOk E
            then printM (''foedus error:[open_cursor]: '' @ get_error_message E ret @ endl)
            else returnM ()) (\<lambda>_.
     returnM cursor)))"

definition foedus_cursor_is_valid :: "('e, 'c, 'r) foedus \<Rightarrow> 'c \<Rightarrow> ('e, 'z, bool) iost" where
  "foedus_cursor_is_valid E cursor = getM (\<lambda>s. is_valid_record E cursor (io_engine s))"

definition foedus_cursor_next :: "('e, 'c, 'r) foedus \<Rightarrow> 'c \<Rightarrow> ('e, 'z, bool) iost" where
  "foedus_cursor_next E cursor =
     bindM (engine_do (cursor_next E cursor)) (\<lambda>_. foedus_cursor_is_valid E cursor)"

definition foedus_next_cursor :: "('e, 'c, 'r) foedus \<Rightarrow> 'c \<Rightarrow> ('e, 'z, bool) iost" where
  "foedus_next_cursor E c =
     bindM (engine_do (cursor_next E c)) (\<lambda>_. getM (\<lambda>s. is_valid_record E c (io_engine s)))"

text \<open>The buffer afterwards. Leaving it is undefined behaviour.\<close>

definition foedus_cursor_copy_key :: "('e, 'c, 'r) foedus \<Rightarrow> 'c \<Rightarrow> string \<Rightarrow> ('e, 'z, string) iost" where
  "foedus_cursor_copy_key E cursor buff =
     bindM (getM (\<lambda>s. combined_key E cursor (io_engine s))) (\<lambda>key. liftM (buf_write buff 0 key))"

definition foedus_cursor_copy_value :: "('e, 'c, 'r) foedus \<Rightarrow> 'c \<Rightarrow> string \<Rightarrow> ('e, 'z, string) iost" where
  "foedus_cursor_copy_value E cursor buff =
     bindM (getM (\<lambda>s. get_payload E cursor (io_engine s))) (\<lambda>payload.
     bindM (getM (\<lambda>s. get_payload_length E cursor (io_engine s))) (\<lambda>len.
     bindM (liftM (buf_read payload 0 len)) (\<lambda>bytes.
     liftM (buf_write buff 0 bytes))))"

definition foedus_cursor_destroy :: "('e, 'c, 'r) foedus \<Rightarrow> 'c \<Rightarrow> ('e, 'z, unit) iost" where
  "foedus_cursor_destroy E cursor = engine_do (delete_cursor E cursor)"

definition foedus_destroy_cursor :: "('e, 'c, 'r) foedus \<Rightarrow> 'c \<Rightarrow> ('e, 'z, bool) iost" where
  "foedus_destroy_cursor E c = bindM (engine_do (delete_cursor E c)) (\<lambda>_. returnM True)"

definition foedus_scan :: "string \<Rightarrow> 64 word \<Rightarrow> ('e, 'z, bool) iost" where
  "foedus_scan key key_len = returnM True"

definition foedus_update ::
    "('e, 'c, 'r) foedus \<Rightarrow> string \<Rightarrow> 64 word \<Rightarrow> string \<Rightarrow> 64 word \<Rightarrow> ('e, 'z, bool) iost" where
  "foedus_update E key key_len val value_len =
     bindM (engineM (overwrite_record E key (take_bit (key_bits E) (unat key_len)) val 0
              (take_bit (payload_bits E) (unat value_len)))) (\<lambda>ret.
     bindM (printM (''update invoked'' @ endl)) (\<lambda>_.
     if ret \<noteq> kErrorCodeOk E then throwM (RuntimeError (get_error_message E ret)) else returnM True))"

definition precommit_xct :: "('e, 'c, 'r) foedus \<Rightarrow> ('e, 'z, unit) iost" where
  "precommit_xct E =
     bindM (printM (''FOEDUS commit'' @ endl)) (\<lambda>_.
     bindM (engineM (xct_precommit E)) (\<lambda>ret.
     bindM (printM (if ret \<noteq> kErrorCodeOk E then show_error_code E ret @ endl else ''success.'' @ endl)) (\<lambda>_.
     engine_do (wait_for_commit E))))"

text \<open>\<^verbatim>\<open>foedus_executor.cpp\<close>: one row in a transaction of its own.\<close>

definition executor_insert :: "('e, 'c, 'r) foedus \<Rightarrow> string \<Rightarrow> string \<Rightarrow> ('e, 'z, unit) iost" where
  "executor_insert E key val =
     bindM (engineM (xct_begin E)) (\<lambda>_.
     bindM (engineM (insert_record E key (take_bit (key_bits E) (length key))
              val (take_bit (payload_bits E) (length val)))) (\<lambda>ret.
     if ret \<noteq> kErrorCodeOk E then throwM (RuntimeError (get_error_message E ret))
     else bindM (engineM (xct_precommit E)) (\<lambda>_. returnM ())))"

section \<open>What the engine documents\<close>

text \<open>
  The committed records in the order of their keys, the records the running transaction has
  written, and the records a cursor has still to visit.
\<close>

type_synonym records = "(string \<times> string) list"

fun put_record :: "string \<times> string \<Rightarrow> records \<Rightarrow> records" where
  "put_record (k, v) [] = [(k, v)]"
| "put_record (k, v) ((a, b) # rs) =
     (if k < a then (k, v) # (a, b) # rs else if k = a then (k, v) # rs else (a, b) # put_record (k, v) rs)"

definition in_range :: "string \<Rightarrow> string \<Rightarrow> records \<Rightarrow> records" where
  "in_range from to rs = filter (\<lambda>(k, v). from \<le> k \<and> k < to) rs"

record ('e, 'c) view =
  committed :: "'e \<Rightarrow> records"
  written :: "'e \<Rightarrow> records"
  pending :: "'e \<Rightarrow> 'c \<Rightarrow> records"

definition keeps_records :: "('e, 'c) view \<Rightarrow> ('e \<Rightarrow> 'e) \<Rightarrow> bool" where
  "keeps_records V f \<longleftrightarrow> (\<forall>e. committed V (f e) = committed V e \<and> written V (f e) = written V e)"

text \<open>
  One thread runs transactions. An insert that is reported as done adds to what the transaction
  has written, and a key that is committed is refused. A commit that is reported as done makes the
  written records the committed ones; any other leaves them. A cursor opened before anything
  was written goes through the committed records from the first key up to, and without, the second.
\<close>

definition foedus_laws :: "('e, 'c, 'r) foedus \<Rightarrow> ('e, 'c) view \<Rightarrow> bool" where
  "foedus_laws E V \<longleftrightarrow>
     (\<forall>e. sorted_wrt (<) (map fst (committed V e))) \<and>
     (\<forall>e r e'. xct_begin E e = (r, e') \<longrightarrow> committed V e' = committed V e \<and> (r = kErrorCodeOk E \<longrightarrow> written V e' = [])) \<and>
     (\<forall>e r e' k kl v vl. insert_record E k kl v vl e = (r, e') \<longrightarrow> committed V e' = committed V e \<and>
        (r = kErrorCodeOk E \<longrightarrow> take kl k \<notin> fst ` set (committed V e) \<and>
           written V e' = written V e @ [(take kl k, take vl v)]) \<and>
        (r \<noteq> kErrorCodeOk E \<longrightarrow> written V e' = written V e)) \<and>
     (\<forall>e r e'. xct_precommit E e = (r, e') \<longrightarrow> written V e' = [] \<and>
        committed V e' = (if r = kErrorCodeOk E then fold put_record (written V e) (committed V e) else committed V e)) \<and>
     keeps_records V (wait_for_commit E) \<and> (\<forall>e c e'. new_cursor E e = (c, e') \<longrightarrow>
        committed V e' = committed V e \<and> written V e' = written V e) \<and>
     (\<forall>c. keeps_records V (cursor_next E c) \<and> keeps_records V (delete_cursor E c)) \<and>
     (\<forall>e r e' c f fl t tl. cursor_open E c f fl t tl e = (r, e') \<longrightarrow>
        committed V e' = committed V e \<and> written V e' = written V e \<and>
        (r = kErrorCodeOk E \<longrightarrow> written V e = [] \<longrightarrow>
           pending V e' c = in_range (take fl f) (take tl t) (committed V e))) \<and>
     (\<forall>e c. is_valid_record E c e \<longleftrightarrow> pending V e c \<noteq> []) \<and>
     (\<forall>e c. pending V (cursor_next E c e) c = tl (pending V e c)) \<and>
     (\<forall>e c k v rs. pending V e c = (k, v) # rs \<longrightarrow>
        combined_key E c e = k \<and> get_payload E c e = v \<and> get_payload_length E c e = length v)"

section \<open>Ordered records\<close>

lemma put_record_keys: "fst ` set (put_record r rs) = insert (fst r) (fst ` set rs)"
  by (induction r rs rule: put_record.induct) auto

lemma put_record_sorted: "sorted_wrt (<) (map fst rs) \<Longrightarrow> sorted_wrt (<) (map fst (put_record r rs))"
proof (induction r rs rule: put_record.induct)
  case (2 k v a b rs)
  have "x \<in> set (put_record (k, v) rs) \<Longrightarrow> fst x = k \<or> (\<exists>y \<in> set rs. fst x = fst y)" for x
    using put_record_keys [of "(k, v)" rs] by auto
  with 2 show ?case by (fastforce simp: not_less_iff_gr_or_eq)
qed simp

lemma put_record_in: "r \<in> set (put_record r rs)"
  by (induction r rs rule: put_record.induct) auto

lemma put_record_same: "r \<in> set (put_record q rs) \<Longrightarrow> r = q \<or> r \<in> set rs"
  by (induction q rs rule: put_record.induct) (auto split: if_splits)

lemma put_record_other: "r \<in> set rs \<Longrightarrow> fst q \<noteq> fst r \<Longrightarrow> r \<in> set (put_record q rs)"
  by (induction q rs rule: put_record.induct) auto

lemma in_range_sorted: "sorted_wrt (<) (map fst rs) \<Longrightarrow> sorted_wrt (<) (map fst (in_range f t rs))"
  by (auto simp: in_range_def sorted_wrt_map intro: sorted_wrt_filter)

section \<open>Transactions and cursors over the engine\<close>

text \<open>
  What a scan of generated code does with its cursor: as long as a record is valid, its key and its
  value are copied into the two buffers and the cursor goes on. The result has the buffers of every
  round; at most \<open>n\<close> tests are made.
\<close>

fun scan_rows :: "('e, 'c, 'r) foedus \<Rightarrow> nat \<Rightarrow> 'c \<Rightarrow> string \<Rightarrow> string \<Rightarrow> ('e, 'z, (string \<times> string) list) iost" where
  "scan_rows E 0 cursor key val = throwM OutOfFuel"
| "scan_rows E (Suc n) cursor key val =
     bindM (foedus_cursor_is_valid E cursor) (\<lambda>valid.
     if \<not> valid then bindM (foedus_cursor_destroy E cursor) (\<lambda>_. returnM [])
     else bindM (foedus_cursor_copy_key E cursor key) (\<lambda>key.
          bindM (foedus_cursor_copy_value E cursor val) (\<lambda>val.
          bindM (foedus_cursor_next E cursor) (\<lambda>_.
          bindM (scan_rows E n cursor key val) (\<lambda>rows.
          returnM ((key, val) # rows))))))"

definition scan_table ::
    "('e, 'c, 'r) foedus \<Rightarrow> nat \<Rightarrow> schema \<Rightarrow> string \<Rightarrow> string \<Rightarrow> ('e, 'z, (string \<times> string) list) iost" where
  "scan_table E n sc key val =
     bindM (liftM (prefix_end (get_key_prefix sc))) (\<lambda>key_prefix_end.
     bindM (foedus_generate_cursor E (get_key_prefix sc) (of_nat (length (get_key_prefix sc)))
              key_prefix_end (of_nat (length key_prefix_end))) (\<lambda>cursor.
     scan_rows E n cursor key val))"

text \<open>A cursor as its client sees it: a list of records that it goes through.\<close>

locale record_cursor =
  fixes valid :: "('s, bool) st" and copy_key copy_value :: "string \<Rightarrow> ('s, string) st"
    and advance :: "('s, bool) st" and rest :: "'s \<Rightarrow> records"
  assumes valid_iff: "valid s = Inr (rest s \<noteq> [], s)"
    and copies_key: "rest s = r # rs \<Longrightarrow> copy_key b s = bindE (buf_write b 0 (fst r)) (\<lambda>b'. Inr (b', s))"
    and copies_value: "rest s = r # rs \<Longrightarrow> copy_value b s = bindE (buf_write b 0 (snd r)) (\<lambda>b'. Inr (b', s))"
    and advances: "rest s = r # rs \<Longrightarrow> \<exists>x s'. advance s = Inr (x, s') \<and> rest s' = rs"
begin

lemma round:
  assumes "rest s = (k, v) # rs" "length k \<le> length kb" "length v \<le> length vb"
  shows "\<exists>s'. bindM (copy_key kb) (\<lambda>key. bindM (copy_value vb) (\<lambda>val. bindM advance (\<lambda>_. f key val))) s =
      f (k @ drop (length k) kb) (v @ drop (length v) vb) s' \<and> rest s' = rs"
proof -
  from advances [OF assms(1)] obtain x s' where "advance s = Inr (x, s')" "rest s' = rs" by blast
  then show ?thesis
    using assms(2,3) by (auto simp: bindM_def copies_key [OF assms(1)] copies_value [OF assms(1)] buf_write_def)
qed

end

lemma foedus_cursor_record_cursor:
  assumes "foedus_laws E V"
  shows "record_cursor (foedus_cursor_is_valid E c) (foedus_cursor_copy_key E c) (foedus_cursor_copy_value E c)
    (foedus_cursor_next E c) (\<lambda>s :: ('e, 'z) io_scheme. pending V (io_engine s) c)"
proof unfold_locales
  have next_record: "pending V (cursor_next E c e) c = tl (pending V e c)"
    and at_record: "pending V e c = (k, v) # rs \<Longrightarrow> combined_key E c e = k \<and> get_payload E c e = v \<and>
      get_payload_length E c e = length v"
    and valid: "is_valid_record E c e \<longleftrightarrow> pending V e c \<noteq> []" for e k v rs
    using assms by (simp_all add: foedus_laws_def)
  fix s :: "('e, 'z) io_scheme" and r rs b
  show "foedus_cursor_is_valid E c s = Inr (pending V (io_engine s) c \<noteq> [], s)"
    by (simp add: foedus_cursor_is_valid_def getM_def valid)
  assume p: "pending V (io_engine s) c = r # rs"
  then have at: "combined_key E c (io_engine s) = fst r" "get_payload E c (io_engine s) = snd r"
    "get_payload_length E c (io_engine s) = length (snd r)"
    using at_record [of "io_engine s" "fst r" "snd r" rs] by simp_all
  show "foedus_cursor_copy_key E c b s = bindE (buf_write b 0 (fst r)) (\<lambda>b'. Inr (b', s))"
    by (simp add: foedus_cursor_copy_key_def bindM_def getM_def liftM_def at)
  show "foedus_cursor_copy_value E c b s = bindE (buf_write b 0 (snd r)) (\<lambda>b'. Inr (b', s))"
    by (simp add: foedus_cursor_copy_value_def bindM_def getM_def liftM_def at buf_read_def)
  show "\<exists>x s'. foedus_cursor_next E c s = Inr (x, s') \<and> pending V (io_engine s') c = rs"
    using p by (simp add: foedus_cursor_next_def foedus_cursor_is_valid_def engine_do_def engineM_def bindM_def getM_def next_record)
qed

text \<open>Every round's buffers begin with the record it visits.\<close>

definition shows_record :: "string \<times> string \<Rightarrow> string \<times> string \<Rightarrow> bool" where
  "shows_record buffers r \<longleftrightarrow> prefix (fst r) (fst buffers) \<and> prefix (snd r) (snd buffers)"

definition fits :: "nat \<Rightarrow> nat \<Rightarrow> string \<times> string \<Rightarrow> bool" where
  "fits kl vl r \<longleftrightarrow> length (fst r) \<le> kl \<and> length (snd r) \<le> vl"

lemma scan_rows_visits:
  assumes laws: "foedus_laws E V"
  shows "list_all (fits (length kb) (length vb)) (pending V (io_engine s) c) \<Longrightarrow> length (pending V (io_engine s) c) < n \<Longrightarrow>
    \<exists>rows s'. scan_rows E n c kb vb s = Inr (rows, s') \<and> list_all2 shows_record rows (pending V (io_engine s) c) \<and>
      list_all (\<lambda>(k, v). length k = length kb \<and> length v = length vb) rows"
proof (induction n arbitrary: s kb vb)
  case (Suc n)
  note rc = foedus_cursor_record_cursor [OF laws, of c]
  show ?case
  proof (cases "pending V (io_engine s) c")
    case Nil
    then show ?thesis
      by (simp add: bindM_def record_cursor.valid_iff [OF rc] foedus_cursor_destroy_def engine_do_def engineM_def returnM_def)
  next
    case (Cons r rs)
    obtain k v where r: "r = (k, v)" by fastforce
    have fit: "length k \<le> length kb" "length v \<le> length vb" and rs: "list_all (fits (length kb) (length vb)) rs" "length rs < n"
      using Suc.prems Cons by (auto simp: r fits_def list_all_iff)
    let ?k = "k @ drop (length k) kb" and ?v = "v @ drop (length v) vb"
    from record_cursor.round [OF rc _ fit, of s rs "\<lambda>key val. bindM (scan_rows E n c key val) (\<lambda>rows. returnM ((key, val) # rows))"]
      Cons r obtain s' where step: "scan_rows E (Suc n) c kb vb s = bindM (scan_rows E n c ?k ?v) (\<lambda>rows. returnM ((?k, ?v) # rows)) s'"
      and p: "pending V (io_engine s') c = rs"
      by (auto simp: bindM_def record_cursor.valid_iff [OF rc])
    from Suc.IH [of ?k ?v s'] rs fit obtain rows s'' where "scan_rows E n c ?k ?v s' = Inr (rows, s'')"
      "list_all2 shows_record rows rs" "list_all (\<lambda>(k, v). length k = length kb \<and> length v = length vb) rows"
      by (auto simp: p)
    moreover have "shows_record (?k, ?v) (k, v)" by (simp add: shows_record_def)
    ultimately show ?thesis using fit unfolding step by (simp add: bindM_def returnM_def Cons r)
  qed
qed simp

section \<open>An engine in memory\<close>

text \<open>An instance for examples: the log of committed records, the written ones and the cursors.\<close>

record mem_db =
  db_log :: records
  db_written :: records
  db_cursors :: "nat \<Rightarrow> records"
  db_next :: nat

definition db_records :: "mem_db \<Rightarrow> records" where
  "db_records e = fold put_record (db_log e) []"

definition mem_engine :: "(mem_db, nat, nat) foedus" where
  "mem_engine = \<lparr>key_bits = 16, payload_bits = 16, kErrorCodeOk = 0,
     get_error_message = (\<lambda>r. ''key already exists''), show_error_code = (\<lambda>r. ''1''),
     xct_begin = (\<lambda>e. (0, e\<lparr>db_written := []\<rparr>)),
     xct_precommit = (\<lambda>e. (0, e\<lparr>db_log := db_log e @ db_written e, db_written := []\<rparr>)),
     wait_for_commit = (\<lambda>e. e),
     insert_record = (\<lambda>k kl v vl e. if take kl k \<in> fst ` set (db_records e @ db_written e) then (1, e)
       else (0, e\<lparr>db_written := db_written e @ [(take kl k, take vl v)]\<rparr>)),
     overwrite_record = (\<lambda>k kl v off vl e. (1, e)),
     new_cursor = (\<lambda>e. (db_next e, e\<lparr>db_next := Suc (db_next e)\<rparr>)),
     cursor_open = (\<lambda>c f fl t tl e. (0, e\<lparr>db_cursors := (db_cursors e)(c := in_range (take fl f) (take tl t) (db_records e))\<rparr>)),
     is_valid_record = (\<lambda>c e. db_cursors e c \<noteq> []),
     cursor_next = (\<lambda>c e. e\<lparr>db_cursors := (db_cursors e)(c := tl (db_cursors e c))\<rparr>),
     combined_key = (\<lambda>c e. fst (hd (db_cursors e c))),
     get_payload = (\<lambda>c e. snd (hd (db_cursors e c))),
     get_payload_length = (\<lambda>c e. length (snd (hd (db_cursors e c)))),
     delete_cursor = (\<lambda>c e. e)\<rparr>"

definition mem_view :: "(mem_db, nat) view" where
  "mem_view = \<lparr>committed = db_records, written = db_written, pending = db_cursors\<rparr>"

lemma fold_put_sorted: "sorted_wrt (<) (map fst rs) \<Longrightarrow> sorted_wrt (<) (map fst (fold put_record qs rs))"
  by (induction qs arbitrary: rs) (simp_all add: put_record_sorted)

lemma mem_laws: "foedus_laws mem_engine mem_view"
  by (auto simp: foedus_laws_def mem_engine_def mem_view_def keeps_records_def db_records_def fold_put_sorted split: if_splits)

interpretation mem: record_cursor "foedus_cursor_is_valid mem_engine c" "foedus_cursor_copy_key mem_engine c"
  "foedus_cursor_copy_value mem_engine c" "foedus_cursor_next mem_engine c" "\<lambda>s. pending mem_view (io_engine s) c"
  by (rule foedus_cursor_record_cursor [OF mem_laws])

definition mem_start :: "mem_db io" where
  "mem_start = \<lparr>io_engine = \<lparr>db_log = [], db_written = [], db_cursors = (\<lambda>_. []), db_next = 0\<rparr>, io_out = []\<rparr>"
end
