(* ===== verification/Reir_Query.thy ===== *)
theory Reir_Query
  imports Reir_Foedus
begin

text \<open>
  Rows through the engine: the calls of a transaction with one insert, the records the tables of a
  database have, and what a later scan finds in its buffers.
\<close>

section \<open>Rows as records\<close>

definition row_record :: "schema \<Rightarrow> 64 word list \<Rightarrow> string \<times> string" where
  "row_record sc ws =
     (key_bytes sc (int_cells ws), row_bytes (\<lambda>a. \<not> attr_is_key a) (sc_attrs sc) (int_cells ws))"

text \<open>Buffers that hold the encoded row: encoding it into them changes nothing.\<close>

definition row_buffers :: "schema \<Rightarrow> 64 word list \<Rightarrow> string \<times> string \<Rightarrow> bool" where
  "row_buffers sc ws buffers \<longleftrightarrow>
     encode_key sc (int_cells ws) (fst buffers) = Inr (fst buffers) \<and>
     encode_value sc (int_cells ws) (snd buffers) = Inr (snd buffers)"

definition int_table :: "schema \<Rightarrow> bool" where
  "int_table sc \<longleftrightarrow> plain_ints (sc_attrs sc) \<and> sc_name sc \<noteq> [] \<and> CHR '':'' \<notin> set (sc_name sc) \<and>
     of_char (last (sc_name sc)) < (255 :: nat)"

text \<open>The names a scan of the table \<open>name\<close> does not run into.\<close>

definition apart :: "string \<Rightarrow> string \<Rightarrow> bool" where
  "apart name name' \<longleftrightarrow>
     (let z = next_char (last name); n = length name in
      name' \<noteq> name \<and> \<not> (prefix name name' \<and> n < length name' \<and> CHR '':'' \<le> name' ! n) \<and>
      \<not> (prefix (butlast name @ [z]) name' \<and> n < length name' \<and> name' ! n < CHR '':'') \<and>
      \<not> (z = CHR '':'' \<and> name' = butlast name))"

text \<open>Every committed record is a row of one of the tables, and the others are apart from this one.\<close>

definition database :: "('e, 'c) view \<Rightarrow> schema list \<Rightarrow> 'e \<Rightarrow> bool" where
  "database V tables e \<longleftrightarrow>
     (\<forall>r \<in> set (committed V e). \<exists>sc \<in> set tables. \<exists>ws. length ws = columns sc \<and> r = row_record sc ws)"

definition own_range :: "schema list \<Rightarrow> schema \<Rightarrow> bool" where
  "own_range tables sc \<longleftrightarrow> list_all (\<lambda>sc'. sc' = sc \<or> apart (sc_name sc) (sc_name sc')) tables"

lemma int_table_row: "int_table sc \<Longrightarrow> length ws = columns sc \<Longrightarrow> int_row (\<lambda>_. True) (sc_attrs sc) (int_cells ws)"
  by (simp add: int_table_def columns_def int_row_ints)

lemma row_record_lengths:
  assumes "int_table sc" "length ws = columns sc" "length ws' = columns sc"
  shows "length (fst (row_record sc ws)) = length (fst (row_record sc ws'))"
    "length (snd (row_record sc ws)) = length (snd (row_record sc ws'))"
  using assms plain_row_length [OF _ int_table_row] by (simp_all add: row_record_def key_bytes_def int_table_def)

lemma row_buffers_iff:
  assumes "int_table sc" "length ws = columns sc"
  shows "row_buffers sc ws buffers \<longleftrightarrow> shows_record buffers (row_record sc ws)"
proof -
  have "buf_write b 0 d = Inr b \<longleftrightarrow> prefix d b" for b d
    by (auto simp: buf_write_def prefix_def) metis
  with int_row_any [OF int_table_row [OF assms]] show ?thesis
    by (simp add: row_buffers_def shows_record_def row_record_def encode_key_bytes encode_value_def encode_selected_bytes)
qed

lemma row_key: "fst (row_record sc ws) = get_key_prefix sc @ row_bytes attr_is_key (sc_attrs sc) (int_cells ws)"
  by (simp add: row_record_def key_bytes_def)

lemma own_rows_in_range:
  assumes sc: "int_table sc" "own_range tables sc" and e: "prefix_end (get_key_prefix sc) = Inr e"
    and "sc' \<in> set tables"
  shows "get_key_prefix sc \<le> fst (row_record sc' ws) \<and> fst (row_record sc' ws) < e \<longleftrightarrow> sc' = sc"
proof -
  obtain m x where n: "sc_name sc = m @ [x]" using sc(1) by (auto simp: int_table_def intro: rev_exhaust)
  have "of_char x < (255 :: nat)" "CHR '':'' \<notin> set (sc_name sc)" using sc(1) n by (auto simp: int_table_def)
  from range_keys [OF n this] e have "get_key_prefix sc \<le> fst (row_record sc' ws) \<and> fst (row_record sc' ws) < e \<longleftrightarrow>
      sc_name sc' = sc_name sc \<or> (\<exists>y s. sc_name sc' = sc_name sc @ y # s \<and> CHR '':'' \<le> y) \<or>
      (\<exists>y s. sc_name sc' = m @ next_char x # y # s \<and> y < CHR '':'') \<or>
      next_char x = CHR '':'' \<and> sc_name sc' = m \<and> (row_bytes attr_is_key (sc_attrs sc') (int_cells ws) = [] \<or>
        hd (row_bytes attr_is_key (sc_attrs sc') (int_cells ws)) < CHR '':'')"
    unfolding row_key by auto
  moreover have "sc' = sc \<or> apart (sc_name sc) (sc_name sc')" using sc(2) assms(4) by (auto simp: own_range_def list_all_iff)
  ultimately show ?thesis
    by (auto simp: apart_def n Let_def nth_append prefix_def)
qed

section \<open>A transaction with one insert, then a scan\<close>

text \<open>The calls of \<open>transaction { insert ... }\<close>; the results of the first two are not looked at.\<close>

definition insert_txn ::
    "('e, 'c, 'r) foedus \<Rightarrow> string \<Rightarrow> 64 word \<Rightarrow> string \<Rightarrow> 64 word \<Rightarrow> ('e, 'z, unit) iost" where
  "insert_txn E key key_len val value_len =
     bindM (begin_xct E) (\<lambda>_.
     bindM (foedus_insert E key key_len val value_len) (\<lambda>_.
     precommit_xct E))"

text \<open>The engine reports success on all three calls.\<close>

definition txn_succeeds :: "('e, 'c, 'r) foedus \<Rightarrow> string \<Rightarrow> nat \<Rightarrow> string \<Rightarrow> nat \<Rightarrow> 'e \<Rightarrow> bool" where
  "txn_succeeds E k kl v vl e \<longleftrightarrow>
     (case xct_begin E e of (r1, e1) \<Rightarrow>
      case insert_record E k kl v vl e1 of (r2, e2) \<Rightarrow>
      case xct_precommit E e2 of (r3, e3) \<Rightarrow>
        r1 = kErrorCodeOk E \<and> r2 = kErrorCodeOk E \<and> r3 = kErrorCodeOk E)"

definition cursor_opens :: "('e, 'c, 'r) foedus \<Rightarrow> string \<Rightarrow> string \<Rightarrow> 'e \<Rightarrow> bool" where
  "cursor_opens E f t e \<longleftrightarrow>
     (case new_cursor E e of (c, e1) \<Rightarrow>
      case cursor_open E c f (length f) t (length t) e1 of (r, e2) \<Rightarrow> r = kErrorCodeOk E)"

lemma take_bit_fits: "n < 2 ^ b \<Longrightarrow> n < 2 ^ 64 \<Longrightarrow> take_bit b (unat (of_nat n :: 64 word)) = n"
  by (simp add: unat_of_nat_u64 take_bit_nat_eq_self)

lemma law_open:
  assumes "foedus_laws E V" "cursor_open E c f fl t m e = (r, e')"
  shows "r = kErrorCodeOk E \<Longrightarrow> written V e = [] \<Longrightarrow> pending V e' c = in_range (take fl f) (take m t) (committed V e)"
proof -
  have "\<forall>e r e' c f fl t m. cursor_open E c f fl t m e = (r, e') \<longrightarrow> r = kErrorCodeOk E \<longrightarrow> written V e = [] \<longrightarrow>
      pending V e' c = in_range (take fl f) (take m t) (committed V e)"
    using assms(1) by (simp add: foedus_laws_def)
  with assms(2) show "r = kErrorCodeOk E \<Longrightarrow> written V e = [] \<Longrightarrow> pending V e' c = in_range (take fl f) (take m t) (committed V e)"
    by blast
qed

lemma foedus_insert_fits:
  assumes "kl < 2 ^ key_bits E" "vl < 2 ^ payload_bits E" "kl < 2 ^ 64" "vl < 2 ^ 64"
    and "insert_record E k kl v vl (io_engine s) = (kErrorCodeOk E, e')"
  shows "foedus_insert E k (of_nat kl) v (of_nat vl) s = Inr (True, s\<lparr>io_engine := e'\<rparr>)"
  unfolding foedus_insert_def take_bit_fits [OF assms(1,3)] take_bit_fits [OF assms(2,4)]
  using assms(5) by (simp add: engineM_def bindM_def returnM_def)

lemma generate_cursor_fits:
  assumes "length f < 2 ^ key_bits E" "length t < 2 ^ key_bits E" "length f < 2 ^ 64" "length t < 2 ^ 64"
    and "new_cursor E (io_engine s) = (c, e1)" "cursor_open E c f (length f) t (length t) e1 = (kErrorCodeOk E, e2)"
  shows "foedus_generate_cursor E f (of_nat (length f)) t (of_nat (length t)) s = Inr (c, s\<lparr>io_engine := e2\<rparr>)"
  unfolding foedus_generate_cursor_def take_bit_fits [OF assms(1,3)] take_bit_fits [OF assms(2,4)]
  using assms(5,6) by (simp add: engineM_def bindM_def returnM_def)

lemma insert_txn_commits:
  fixes s :: "('e, 'z) io_scheme"
  assumes laws: "foedus_laws E V"
    and ok: "txn_succeeds E k kl v vl (io_engine s)"
    and len: "kl < 2 ^ key_bits E" "vl < 2 ^ payload_bits E" "kl < 2 ^ 64" "vl < 2 ^ 64"
  shows "\<exists>s'. insert_txn E k (of_nat kl) v (of_nat vl) s = Inr ((), s') \<and> written V (io_engine s') = [] \<and>
    take kl k \<notin> fst ` set (committed V (io_engine s)) \<and>
    committed V (io_engine s') = put_record (take kl k, take vl v) (committed V (io_engine s))"
proof -
  obtain e1 e2 e3 where calls: "xct_begin E (io_engine s) = (kErrorCodeOk E, e1)" "insert_record E k kl v vl e1 = (kErrorCodeOk E, e2)"
    "xct_precommit E e2 = (kErrorCodeOk E, e3)"
    using ok by (auto simp: txn_succeeds_def split: prod.splits)
  have "committed V e1 = committed V (io_engine s)" "written V e1 = []" using laws calls(1) by (simp_all add: foedus_laws_def)
  moreover have "committed V e2 = committed V e1" "written V e2 = written V e1 @ [(take kl k, take vl v)]"
    "take kl k \<notin> fst ` set (committed V e1)"
    using laws calls(2) unfolding foedus_laws_def by metis+
  moreover have "written V e3 = []" "committed V e3 = fold put_record (written V e2) (committed V e2)"
    using laws calls(3) unfolding foedus_laws_def by metis+
  moreover have "keeps_records V (wait_for_commit E)" using laws by (simp add: foedus_laws_def)
  ultimately show ?thesis
    by (simp add: insert_txn_def begin_xct_def foedus_insert_fits [OF len] precommit_xct_def printM_def modM_def engineM_def
        engine_do_def bindM_def returnM_def calls keeps_records_def)
qed

lemma scan_table_visits:
  fixes s :: "('e, 'z) io_scheme"
  assumes laws: "foedus_laws E V" and e: "prefix_end (get_key_prefix sc) = Inr e" "length (get_key_prefix sc) < 2 ^ key_bits E"
    "length (get_key_prefix sc) < 2 ^ 64"
    and opens: "cursor_opens E (get_key_prefix sc) e (io_engine s)"
    and w: "written V (io_engine s) = []"
    and fit: "list_all (fits (length kb) (length vb)) (in_range (get_key_prefix sc) e (committed V (io_engine s)))"
      "length (committed V (io_engine s)) < n"
  shows "\<exists>rows s'. scan_table E n sc kb vb s = Inr (rows, s') \<and>
    list_all2 shows_record rows (in_range (get_key_prefix sc) e (committed V (io_engine s)))"
proof -
  have l: "length e = length (get_key_prefix sc)"
    using e(1) by (auto simp: prefix_end_def split: if_splits)
  obtain c e1 where c: "new_cursor E (io_engine s) = (c, e1)" by fastforce
  obtain e2 where o: "cursor_open E c (get_key_prefix sc) (length (get_key_prefix sc)) e (length e) e1 = (kErrorCodeOk E, e2)"
    using opens c by (auto simp: cursor_opens_def split: prod.splits)
  have e1: "committed V e1 = committed V (io_engine s)" "written V e1 = []" using laws c w by (simp_all add: foedus_laws_def)
  have p: "pending V e2 c = in_range (get_key_prefix sc) e (committed V (io_engine s))"
    using law_open [OF laws o] e1 by simp
  let ?s = "s\<lparr>io_engine := e2\<rparr>"
  have "length (pending V e2 c) < n" using le_less_trans [OF length_filter_le fit(2)] by (simp add: p in_range_def)
  with scan_rows_visits [OF laws, where s = ?s, of kb vb c n] fit(1) p obtain rows s' where
    "scan_rows E n c kb vb ?s = Inr (rows, s')" "list_all2 shows_record rows (pending V e2 c)" by auto
  moreover have "scan_table E n sc kb vb s = scan_rows E n c kb vb ?s"
    using generate_cursor_fits [of "get_key_prefix sc" E e s c e1 e2] e c o l by (simp add: scan_table_def liftM_def bindM_def)
  ultimately show ?thesis using p by auto
qed


text \<open>The records of a database within the range of a scan.\<close>

lemma database_put:
  assumes "database V tables e" "committed V e' = put_record (row_record sc ws) (committed V e)"
    "sc \<in> set tables" "length ws = columns sc"
  shows "database V tables e'"
  using assms put_record_same [of _ "row_record sc ws" "committed V e"] unfolding database_def by metis

lemma own_records:
  assumes "int_table sc" "own_range tables sc" "prefix_end (get_key_prefix sc) = Inr t" "database V tables e" "sc \<in> set tables"
  shows "r \<in> set (in_range (get_key_prefix sc) t (committed V e)) \<longleftrightarrow>
    r \<in> set (committed V e) \<and> (\<exists>ws. length ws = columns sc \<and> r = row_record sc ws)"
proof -
  have "get_key_prefix sc \<le> fst r \<and> fst r < t \<longleftrightarrow> (\<exists>ws. length ws = columns sc \<and> r = row_record sc ws)"
    if r: "r \<in> set (committed V e)"
  proof -
    from assms(4) r obtain sc' ws where "sc' \<in> set tables" "length ws = columns sc'" "r = row_record sc' ws"
      by (auto simp: database_def)
    with own_rows_in_range [OF assms(1,2,3)] assms(5) show ?thesis by metis
  qed
  then show ?thesis by (simp add: in_range_def case_prod_beta) blast
qed

lemma row_record_inj:
  assumes "int_table sc" "length ws = columns sc" "length ws' = columns sc" "row_record sc ws = row_record sc ws'"
  shows "ws = ws'"
proof -
  have "list_all2 (\<lambda>a (v, w). P a \<longrightarrow> v = w) (sc_attrs sc) (zip (int_cells ws) (int_cells ws'))"
    if "row_bytes P (sc_attrs sc) (int_cells ws) = row_bytes P (sc_attrs sc) (int_cells ws')" for P
    using row_bytes_inj [OF int_row_any int_row_any that] int_table_row [OF assms(1)] assms(2,3) by blast
  from this [of attr_is_key] this [of "\<lambda>a. \<not> attr_is_key a"] assms(2-) have "int_cells ws = int_cells ws'"
    by (auto simp: row_record_def key_bytes_def list_all2_conv_all_nth columns_def intro!: nth_equalityI)
  moreover have "inj MaybeValue_int" by (auto simp: inj_def MaybeValue_int_def ValueImpl_int_def)
  ultimately show ?thesis by (metis inj_map_eq_map)
qed

lemma prefix_end_exists: "int_table sc \<Longrightarrow> \<exists>t. prefix_end (get_key_prefix sc) = Inr t"
  by (cases "sc_name sc" rule: rev_exhaust) (auto simp: int_table_def get_key_prefix_def prefix_end_snoc)

lemma rows_of_records:
  "\<forall>r \<in> set rs. \<exists>ws. length ws = columns sc \<and> r = row_record sc ws \<Longrightarrow>
    \<exists>wss. map (row_record sc) wss = rs \<and> list_all (\<lambda>ws. length ws = columns sc) wss"
proof (induction rs)
  case (Cons r rs)
  then obtain ws wss where "length ws = columns sc" "r = row_record sc ws" "map (row_record sc) wss = rs"
    "list_all (\<lambda>ws. length ws = columns sc) wss"
    by auto
  then show ?case by (intro exI [of _ "ws # wss"]) simp
qed simp

lemma put_record_set: "fst q \<notin> fst ` set rs \<Longrightarrow> set (put_record q rs) = insert q (set rs)"
  by (induction q rs rule: put_record.induct) auto

lemma put_record_length: "length (put_record r rs) \<le> Suc (length rs)"
  by (induction r rs rule: put_record.induct) auto

lemma fixed_buffers:
  assumes "int_table sc" "length ws = columns sc" "length (get_key_prefix sc) + 8 * columns sc < 2 ^ 31"
    and "get_fixed_key_length sc = Inr fk" "get_fixed_value_length sc = Inr fv"
  shows "unat fk = Suc (length (fst (row_record sc ws)))" "unat fv = length (snd (row_record sc ws))"
proof -
  note r = int_table_row [OF assms(1,2)]
  have plain: "plain_ints (sc_attrs sc)" using assms(1) by (simp add: int_table_def)
  have cols: "length (row_bytes P (sc_attrs sc) (int_cells ws)) \<le> 8 * columns sc" for P
    using plain_row_length [OF plain r, of P] by (simp add: columns_def)
  from assms(3-) cols [of attr_is_key] cols [of "\<lambda>a. \<not> attr_is_key a"] plain_fixed_lengths [OF plain r] show "unat fk = Suc (length (fst (row_record sc ws)))"
    "unat fv = length (snd (row_record sc ws))"
    by (auto simp: row_record_def key_bytes_def unsigned_of_nat take_bit_nat_eq_self simp del: of_nat_Suc)
qed

section \<open>Properties\<close>





end
