(* ===== verification/Reir_Semantics.thy ===== *)
theory Reir_Semantics
  imports Reir_Programs "HOL-Library.Signed_Division"
begin

text \<open>
  What programs and generated code mean, for the part of the language made of integers,
  variables, assignments, comparisons, the short-circuit operators, calls of \<open>print_int\<close>, \<open>let\<close>,
  \<open>if\<close>, \<open>for\<close> and the \<open>emit\<close> of a row of integers. The reference interpreter runs the tree.
  The machine that runs the code is LLVM's: its effect on values and stack cells is the record
  \<open>machine\<close>, an argument, with the documented meaning of the instructions as \<open>llvm_exec\<close>.
\<close>

section \<open>The reference interpreter\<close>

text \<open>What a program puts out, the values of the variables and the output so far.\<close>

datatype event = Printed "64 word" | Emitted "64 word list"

record env =
  env_vars :: "string \<Rightarrow> 64 word"
  env_out :: "event list"

definition assign :: "string \<Rightarrow> 64 word \<Rightarrow> env \<Rightarrow> env" where
  "assign n w env = env\<lparr>env_vars := (env_vars env)(n := w)\<rparr>"

definition put_out :: "event \<Rightarrow> env \<Rightarrow> env" where
  "put_out w env = env\<lparr>env_out := env_out env @ [w]\<rparr>"

definition int_value :: "maybe_value \<Rightarrow> 64 word option" where
  "int_value v =
     (if mv_exists v \<and> is_int (mv_value v)
      then case as_int (mv_value v) of Inr w \<Rightarrow> Some w | Inl _ \<Rightarrow> None
      else None)"

text \<open>Arithmetic wraps; a division by zero or out of range has no result.\<close>

fun int_op :: "operators \<Rightarrow> 64 word \<Rightarrow> 64 word \<Rightarrow> 64 word option" where
  "int_op OP_PLUS a b = Some (a + b)"
| "int_op OP_MINUS a b = Some (a - b)"
| "int_op OP_MULTIPLE a b = Some (a * b)"
| "int_op OP_DIVISION a b =
     (if b = 0 \<or> a = 0x8000000000000000 \<and> b = - 1 then None else Some (word_of_int (sint a sdiv sint b)))"
| "int_op OP_MODULO a b =
     (if b = 0 \<or> a = 0x8000000000000000 \<and> b = - 1 then None else Some (word_of_int (sint a smod sint b)))"
| "int_op _ a b = None"

fun cmp_op :: "operators \<Rightarrow> 64 word \<Rightarrow> 64 word \<Rightarrow> bool option" where
  "cmp_op OP_EQUAL a b = Some (a = b)"
| "cmp_op OP_NOTEQUAL a b = Some (a \<noteq> b)"
| "cmp_op OP_LESSTHAN a b = Some (sint a < sint b)"
| "cmp_op OP_LESSEQUAL a b = Some (sint a \<le> sint b)"
| "cmp_op OP_MORETHAN a b = Some (sint b < sint a)"
| "cmp_op OP_MOREEQUAL a b = Some (sint b \<le> sint a)"
| "cmp_op _ a b = None"

fun eval_expr :: "env \<Rightarrow> expr \<Rightarrow> (64 word \<times> env) option" where
  "eval_expr env (PrimaryExpression _ v) = map_option (\<lambda>w. (w, env)) (int_value v)"
| "eval_expr env (VariableReference _ n) = Some (env_vars env n, env)"
| "eval_expr env (BinaryExpression _ op l r) =
     (case eval_expr env l of
        None \<Rightarrow> None
      | Some (a, env1) \<Rightarrow>
          (case eval_expr env1 r of
             None \<Rightarrow> None
           | Some (b, env2) \<Rightarrow> map_option (\<lambda>w. (w, env2)) (int_op op a b)))"
| "eval_expr env (Assign _ (VariableReference _ n) e) =
     map_option (\<lambda>(w, env1). (w, assign n w env1)) (eval_expr env e)"
| "eval_expr env _ = None"

text \<open>An integer is true when it is not zero.\<close>

definition truth :: "(64 word \<times> env) option \<Rightarrow> (bool \<times> env) option" where
  "truth = map_option (\<lambda>(w, env). (w \<noteq> 0, env))"

text \<open>
  Conditions. The right operand of a short-circuit operator runs, with its assignments, only when
  the left one has not decided the result.
\<close>

fun eval_cond :: "env \<Rightarrow> expr \<Rightarrow> (bool \<times> env) option" where
  "eval_cond env (BinaryExpression t op l r) =
     (if op \<in> conditional
      then case eval_cond env l of
             None \<Rightarrow> None
           | Some (a, env1) \<Rightarrow> if a = (op = OP_CONDITIONAL_AND) then eval_cond env1 r else Some (a, env1)
      else if op \<in> comparison
      then case eval_expr env l of
             None \<Rightarrow> None
           | Some (a, env1) \<Rightarrow>
               (case eval_expr env1 r of
                  None \<Rightarrow> None
                | Some (b, env2) \<Rightarrow> map_option (\<lambda>t. (t, env2)) (cmp_op op a b))
      else truth (eval_expr env (BinaryExpression t op l r)))"
| "eval_cond env e = truth (eval_expr env e)"

text \<open>At most \<open>k\<close> rounds of a loop; without a result when it takes more.\<close>

fun run_loop ::
    "nat \<Rightarrow> (env \<Rightarrow> (bool \<times> env) option) \<Rightarrow> (env \<Rightarrow> env option) \<Rightarrow> (env \<Rightarrow> env option) \<Rightarrow> env \<Rightarrow> env option" where
  "run_loop 0 cond body step env = None"
| "run_loop (Suc k) cond body step env =
     (case cond env of
        None \<Rightarrow> None
      | Some (False, env1) \<Rightarrow> Some env1
      | Some (True, env1) \<Rightarrow>
          (case body env1 of
             None \<Rightarrow> None
           | Some env2 \<Rightarrow>
               (case step env2 of None \<Rightarrow> None | Some env3 \<Rightarrow> run_loop k cond body step env3)))"

fun run_step :: "expr slot \<Rightarrow> env \<Rightarrow> env option" where
  "run_step Uninit env = None"
| "run_step Null env = Some env"
| "run_step (Ref e) env = map_option snd (eval_expr env e)"

text \<open>The argument of a call of \<open>print_int\<close>.\<close>

fun print_arg :: "expr \<Rightarrow> expr option" where
  "print_arg (FunctionCall _ (VariableReference _ n) [a]) = (if n = ''print_int'' then Some a else None)"
| "print_arg _ = None"

text \<open>
  The elements of a row that is emitted. The code of an element is generated twice, so it is
  evaluated twice, and an assignment in it happens twice; the second value is the one emitted.
\<close>

fun row_elements :: "expr \<Rightarrow> expr list option" where
  "row_elements (RowLiteral _ es) = Some es"
| "row_elements _ = None"

fun eval_row :: "env \<Rightarrow> expr list \<Rightarrow> (64 word list \<times> env) option" where
  "eval_row env [] = Some ([], env)"
| "eval_row env (e # es) =
     (case eval_expr env e of
        None \<Rightarrow> None
      | Some (_, env1) \<Rightarrow>
          (case eval_expr env1 e of
             None \<Rightarrow> None
           | Some (w, env2) \<Rightarrow> map_option (\<lambda>(ws, env3). (w # ws, env3)) (eval_row env2 es)))"

fun run_stmt :: "nat \<Rightarrow> stmt \<Rightarrow> env \<Rightarrow> env option"
and run_block :: "nat \<Rightarrow> stmt list \<Rightarrow> env \<Rightarrow> env option" where
  "run_stmt k (Block ss) env = run_block k ss env"
| "run_stmt k (Let n _ e) env = map_option (\<lambda>(w, env1). assign n w env1) (eval_expr env e)"
| "run_stmt k (ExprStatement e) env =
     (case print_arg e of
        Some a \<Rightarrow> map_option (\<lambda>(w, env1). put_out (Printed w) env1) (eval_expr env a)
      | None \<Rightarrow> map_option snd (eval_expr env e))"
| "run_stmt k (Emit e) env =
     (case row_elements e of
        Some es \<Rightarrow> map_option (\<lambda>(ws, env1). put_out (Emitted ws) env1) (eval_row env es)
      | None \<Rightarrow> None)"
| "run_stmt k (If c t f) env =
     (case eval_cond env c of
        None \<Rightarrow> None
      | Some (True, env1) \<Rightarrow> run_block k t env1
      | Some (False, env1) \<Rightarrow> (case f of None \<Rightarrow> Some env1 | Some f' \<Rightarrow> run_block k f' env1))"
| "run_stmt k (For init c every body) env =
     (case (case init of Uninit \<Rightarrow> None | Null \<Rightarrow> Some env | Ref i \<Rightarrow> run_stmt k i env) of
        None \<Rightarrow> None
      | Some env1 \<Rightarrow>
          (case c of
             Ref e \<Rightarrow> run_loop k (\<lambda>v. eval_cond v e) (\<lambda>v. run_block k body v) (run_step every) env1
           | _ \<Rightarrow> None))"
| "run_stmt k _ env = None"
| "run_block k [] env = Some env"
| "run_block k (s # ss) env = (case run_stmt k s env of None \<Rightarrow> None | Some env1 \<Rightarrow> run_block k ss env1)"

text \<open>The programs it runs, over variables with slots \<open>V\<close>.\<close>

fun int_expr :: "(string \<rightharpoonup> llval) \<Rightarrow> expr \<Rightarrow> bool" where
  "int_expr V (PrimaryExpression _ v) \<longleftrightarrow> int_value v \<noteq> None"
| "int_expr V (VariableReference _ n) \<longleftrightarrow> V n \<noteq> None"
| "int_expr V (BinaryExpression _ op l r) \<longleftrightarrow> op \<in> arithmetic \<and> int_expr V l \<and> int_expr V r"
| "int_expr V (Assign _ (VariableReference _ n) e) \<longleftrightarrow> V n \<noteq> None \<and> int_expr V e"
| "int_expr V _ \<longleftrightarrow> False"

text \<open>
  A condition has a truth value for its value; a short-circuit operator and \<open>if\<close> take integers too,
  which they compare with zero.
\<close>

fun cond_expr :: "(string \<rightharpoonup> llval) \<Rightarrow> expr \<Rightarrow> bool" where
  "cond_expr V (BinaryExpression _ op l r) \<longleftrightarrow>
     op \<in> conditional \<and> (cond_expr V l \<or> int_expr V l) \<and> (cond_expr V r \<or> int_expr V r) \<or>
     op \<in> comparison \<and> int_expr V l \<and> int_expr V r"
| "cond_expr V _ \<longleftrightarrow> False"

text \<open>The size of an emitted row is passed as a 64-bit integer.\<close>

definition row_expr :: "(string \<rightharpoonup> llval) \<Rightarrow> expr \<Rightarrow> bool" where
  "row_expr V e \<longleftrightarrow> (case row_elements e of Some es \<Rightarrow> list_all (int_expr V) es \<and> length es < 2 ^ 61 | None \<Rightarrow> False)"

fun core_stmt :: "(string \<rightharpoonup> llval) \<Rightarrow> stmt \<Rightarrow> bool" where
  "core_stmt V (Block ss) \<longleftrightarrow> list_all (core_stmt V) ss"
| "core_stmt V (Let n _ e) \<longleftrightarrow> V n \<noteq> None \<and> int_expr V e"
| "core_stmt V (ExprStatement e) \<longleftrightarrow> (case print_arg e of Some a \<Rightarrow> int_expr V a | None \<Rightarrow> int_expr V e)"
| "core_stmt V (Emit e) \<longleftrightarrow> row_expr V e"
| "core_stmt V (If c t f) \<longleftrightarrow> (cond_expr V c \<or> int_expr V c) \<and> list_all (core_stmt V) t \<and>
     (case f of None \<Rightarrow> True | Some f' \<Rightarrow> list_all (core_stmt V) f')"
| "core_stmt V (For init c every body) \<longleftrightarrow>
     (case init of Uninit \<Rightarrow> False | Null \<Rightarrow> True | Ref i \<Rightarrow> core_stmt V i) \<and>
     (case c of Ref e \<Rightarrow> cond_expr V e | _ \<Rightarrow> False) \<and>
     (case every of Uninit \<Rightarrow> False | Null \<Rightarrow> True | Ref e \<Rightarrow> int_expr V e) \<and> list_all (core_stmt V) body"
| "core_stmt V _ \<longleftrightarrow> False"

section \<open>The machine\<close>

text \<open>
  The effect of an instruction that is not a terminator, the effect of entering a block (its
  instructions are given) from the block with a number, the value of an integer register or constant,
  the content of the 64-bit cell a stack slot points to, the value of a register that holds a struct
  of integers, the content of the stack slot of such a struct, and the output so far.
\<close>

record 's machine =
  m_exec :: "ins \<Rightarrow> 's \<Rightarrow> 's"
  m_enter :: "ins list \<Rightarrow> nat \<Rightarrow> 's \<Rightarrow> 's"
  m_val :: "'s \<Rightarrow> llval \<Rightarrow> 64 word"
  m_cell :: "'s \<Rightarrow> llval \<Rightarrow> 64 word"
  m_agg :: "'s \<Rightarrow> llval \<Rightarrow> 64 word list"
  m_row :: "'s \<Rightarrow> llval \<Rightarrow> 64 word list"
  m_out :: "'s \<Rightarrow> event list"

definition is_slot :: "llval \<Rightarrow> bool" where
  "is_slot p \<longleftrightarrow> (\<exists>n nm. p = LRes n (OpAlloca LI64 nm) [])"

definition is_row :: "nat \<Rightarrow> llval \<Rightarrow> bool" where
  "is_row k p \<longleftrightarrow> (\<exists>n i sg nm. p = LRes n (OpAlloca (LStruct i sg (replicate k LI64)) nm) [])"

text \<open>The instructions that compute a value and touch no memory, and the load.\<close>

fun value_op :: "lop \<Rightarrow> bool" where
  "value_op (OpInsertValue _) = True"
| "value_op (OpBitCast _) = True"
| "value_op op \<longleftrightarrow> op \<in> insert OpLoad (arithmetic_ops \<union> icmp_ops)"

fun lop_result :: "lop \<Rightarrow> 64 word \<Rightarrow> 64 word \<Rightarrow> 64 word option" where
  "lop_result OpAdd a b = Some (a + b)"
| "lop_result OpSub a b = Some (a - b)"
| "lop_result OpMul a b = Some (a * b)"
| "lop_result OpSDiv a b =
     (if b = 0 \<or> a = 0x8000000000000000 \<and> b = - 1 then None else Some (word_of_int (sint a sdiv sint b)))"
| "lop_result OpSRem a b =
     (if b = 0 \<or> a = 0x8000000000000000 \<and> b = - 1 then None else Some (word_of_int (sint a smod sint b)))"
| "lop_result OpICmpEQ a b = Some (if a = b then 1 else 0)"
| "lop_result OpICmpNE a b = Some (if a \<noteq> b then 1 else 0)"
| "lop_result OpICmpSLT a b = Some (if sint a < sint b then 1 else 0)"
| "lop_result OpICmpSLE a b = Some (if sint a \<le> sint b then 1 else 0)"
| "lop_result OpICmpSGT a b = Some (if sint b < sint a then 1 else 0)"
| "lop_result OpICmpSGE a b = Some (if sint b \<le> sint a then 1 else 0)"
| "lop_result _ a b = None"

text \<open>
  Rows. An \<open>insertvalue\<close> replaces one member of a struct, storing a struct of integers puts them side
  by side, and the host function \<open>__emit_func\<close> emits the bytes it is given.
\<close>

definition exec_rows :: "'s machine \<Rightarrow> bool" where
  "exec_rows M \<longleftrightarrow>
     (\<forall>s i sg ts. length (m_agg M s (LUndef (LStruct i sg ts))) = length ts) \<and>
     (\<forall>s n i a x. let v = LRes n (OpInsertValue i) [a, x] in
        m_agg M (m_exec M (IVal v) s) v = (m_agg M s a)[i := m_val M s x]) \<and>
     (\<forall>s x p k. is_row k p \<longrightarrow> m_row M (m_exec M (IStore x p) s) p = m_agg M s x \<and>
        (\<forall>q. is_slot q \<longrightarrow> m_cell M (m_exec M (IStore x p) s) q = m_cell M s q)) \<and>
     (\<forall>s n t v p k. is_row k p \<longrightarrow> m_row M (m_exec M (IVal (LRes n (OpBitCast t) [v])) s) p = m_row M s p) \<and>
     (\<forall>s n m f c t p k w. let call = IVal (LRes n (OpCall f) [c, LRes m (OpBitCast t) [p], LConst LI64 w]) in
        fn_name f = ''__emit_func'' \<longrightarrow> is_row k p \<longrightarrow> unat w \<le> 8 * k \<longrightarrow>
        m_out M (m_exec M call s) = m_out M s @ [Emitted (take (unat w div 8) (m_row M s p))] \<and>
        (\<forall>q. is_slot q \<longrightarrow> m_cell M (m_exec M call s) q = m_cell M s q))"

text \<open>
  A PHI at the head of a block takes, on entry, the value its list has for the block control comes
  from; reached as an instruction it keeps that value. The calls to \<open>addIncoming\<close> that build the list
  follow it in the log. Only calls put something out; the host function \<open>print_int\<close> prints its
  argument.
\<close>

definition llvm_exec :: "'s machine \<Rightarrow> bool" where
  "llvm_exec M \<longleftrightarrow>
     (\<forall>s t w. m_val M s (LConst t w) = w) \<and>
     (\<forall>s n op args x. x \<noteq> LRes n op args \<longrightarrow> m_val M (m_exec M (IVal (LRes n op args)) s) x = m_val M s x) \<and>
     (\<forall>s n op a b w. lop_result op (m_val M s a) (m_val M s b) = Some w \<longrightarrow>
        m_val M (m_exec M (IVal (LRes n op [a, b])) s) (LRes n op [a, b]) = w) \<and>
     (\<forall>s n p. is_slot p \<longrightarrow> m_val M (m_exec M (IVal (LRes n OpLoad [p])) s) (LRes n OpLoad [p]) = m_cell M s p) \<and>
     (\<forall>s n op args p. value_op op \<longrightarrow> is_slot p \<longrightarrow>
        m_cell M (m_exec M (IVal (LRes n op args)) s) p = m_cell M s p) \<and>
     (\<forall>s n t. let phi = LRes n (OpPHI t) [] in m_val M (m_exec M (IVal phi) s) phi = m_val M s phi) \<and>
     (\<forall>s n t p. is_slot p \<longrightarrow> m_cell M (m_exec M (IVal (LRes n (OpPHI t) [])) s) p = m_cell M s p) \<and>
     (\<forall>s phi v b. (\<forall>y. m_val M (m_exec M (IIncoming phi v b) s) y = m_val M s y) \<and>
        (\<forall>p. is_slot p \<longrightarrow> m_cell M (m_exec M (IIncoming phi v b) s) p = m_cell M s p)) \<and>
     (\<forall>s is b p. is_slot p \<longrightarrow> m_cell M (m_enter M is b s) p = m_cell M s p) \<and>
     (\<forall>s n t x a y b is. let phi = LRes n (OpPHI t) [];
          F = IVal phi # IIncoming phi x a # IIncoming phi y b # is
        in a \<noteq> b \<longrightarrow> m_val M (m_enter M F a s) phi = m_val M s x \<and> m_val M (m_enter M F b s) phi = m_val M s y) \<and>
     (\<forall>s x p y. is_slot p \<longrightarrow> m_val M (m_exec M (IStore x p) s) y = m_val M s y) \<and>
     (\<forall>s x p q. is_slot p \<longrightarrow> is_slot q \<longrightarrow>
        m_cell M (m_exec M (IStore x p) s) q = (if q = p then m_val M s x else m_cell M s q)) \<and>
     (\<forall>s n op args. (\<forall>f. op \<noteq> OpCall f) \<longrightarrow> m_out M (m_exec M (IVal (LRes n op args)) s) = m_out M s) \<and>
     (\<forall>s x p. m_out M (m_exec M (IStore x p) s) = m_out M s) \<and>
     (\<forall>s phi v b. m_out M (m_exec M (IIncoming phi v b) s) = m_out M s) \<and>
     (\<forall>s is b. m_out M (m_enter M is b s) = m_out M s) \<and>
     (\<forall>s n f x. fn_name f = ''print_int'' \<longrightarrow>
        m_out M (m_exec M (IVal (LRes n (OpCall f) [x])) s) = m_out M s @ [Printed (m_val M s x)] \<and>
        (\<forall>p. is_slot p \<longrightarrow> m_cell M (m_exec M (IVal (LRes n (OpCall f) [x])) s) p = m_cell M s p)) \<and>
     (\<forall>s n op args x. x \<noteq> LRes n op args \<longrightarrow> m_agg M (m_exec M (IVal (LRes n op args)) s) x = m_agg M s x) \<and>
     (\<forall>s x p y. is_slot p \<longrightarrow> m_agg M (m_exec M (IStore x p) s) y = m_agg M s y) \<and>
     exec_rows M"

text \<open>Control goes through the blocks \<open>F\<close>: a position is a block and the number of instructions done.\<close>

inductive runs :: "'s machine \<Rightarrow> (nat \<Rightarrow> ins list) \<Rightarrow> (nat \<times> nat) \<times> 's \<Rightarrow> (nat \<times> nat) \<times> 's \<Rightarrow> bool" for M F where
  here: "runs M F x x"
| plain: "i < length (F b) \<Longrightarrow> \<not> is_terminator (F b ! i) \<Longrightarrow> runs M F ((b, Suc i), m_exec M (F b ! i) s) y \<Longrightarrow>
    runs M F ((b, i), s) y"
| branch: "i < length (F b) \<Longrightarrow> F b ! i = IBr x \<Longrightarrow> runs M F ((x, 0), m_enter M (F x) b s) y \<Longrightarrow> runs M F ((b, i), s) y"
| choice: "i < length (F b) \<Longrightarrow> F b ! i = ICondBr v t f \<Longrightarrow> x = (if m_val M s v \<noteq> 0 then t else f) \<Longrightarrow>
    runs M F ((x, 0), m_enter M (F x) b s) y \<Longrightarrow> runs M F ((b, i), s) y"

text \<open>A machine with register files, stack slots and a list of outputs.\<close>

record sample_state =
  sm_val :: "llval \<Rightarrow> 64 word"
  sm_cell :: "llval \<Rightarrow> 64 word"
  sm_agg :: "llval \<Rightarrow> 64 word list"
  sm_row :: "llval \<Rightarrow> 64 word list"
  sm_out :: "event list"

definition sample_start :: sample_state where
  "sample_start = \<lparr>sm_val = (\<lambda>_. 0), sm_cell = (\<lambda>_. 0), sm_agg = (\<lambda>_. []), sm_row = (\<lambda>_. []), sm_out = []\<rparr>"

definition sample_val :: "sample_state \<Rightarrow> llval \<Rightarrow> 64 word" where
  "sample_val s x = (case x of LConst _ w \<Rightarrow> w | _ \<Rightarrow> sm_val s x)"

definition sample_agg :: "sample_state \<Rightarrow> llval \<Rightarrow> 64 word list" where
  "sample_agg s x = (case x of LUndef (LStruct _ _ ts) \<Rightarrow> replicate (length ts) 0 | _ \<Rightarrow> sm_agg s x)"

fun sample_call :: "llfun \<Rightarrow> llval list \<Rightarrow> sample_state \<Rightarrow> event list" where
  "sample_call f [x] s = (if fn_name f = ''print_int'' then [Printed (sample_val s x)] else [])"
| "sample_call f [c, LRes _ _ [p], LConst _ w] s =
     (if fn_name f = ''__emit_func'' then [Emitted (take (unat w div 8) (sm_row s p))] else [])"
| "sample_call f _ s = []"

definition sample_result :: "llval \<Rightarrow> lop \<Rightarrow> llval list \<Rightarrow> sample_state \<Rightarrow> 64 word" where
  "sample_result v op args s =
     (case args of
        [a, b] \<Rightarrow> (case lop_result op (sample_val s a) (sample_val s b) of Some w \<Rightarrow> w | None \<Rightarrow> 0)
      | [p] \<Rightarrow> sm_cell s p
      | _ \<Rightarrow> sm_val s v)"

definition sample_value :: "llval \<Rightarrow> lop \<Rightarrow> llval list \<Rightarrow> sample_state \<Rightarrow> sample_state" where
  "sample_value v op args s =
     (case op of
        OpCall f \<Rightarrow> s\<lparr>sm_out := sm_out s @ sample_call f args s\<rparr>
      | OpInsertValue i \<Rightarrow>
          (case args of [a, x] \<Rightarrow> s\<lparr>sm_agg := (sm_agg s)(v := (sample_agg s a)[i := sample_val s x])\<rparr> | _ \<Rightarrow> s)
      | _ \<Rightarrow> s\<lparr>sm_val := (sm_val s)(v := sample_result v op args s)\<rparr>)"

fun sample_exec :: "ins \<Rightarrow> sample_state \<Rightarrow> sample_state" where
  "sample_exec (IVal (LRes n op args)) s = sample_value (LRes n op args) op args s"
| "sample_exec (IStore x p) s = s\<lparr>sm_cell := (sm_cell s)(p := sample_val s x), sm_row := (sm_row s)(p := sample_agg s x)\<rparr>"
| "sample_exec _ s = s"

fun sample_enter :: "ins list \<Rightarrow> nat \<Rightarrow> sample_state \<Rightarrow> sample_state" where
  "sample_enter (IVal phi # IIncoming p x a # IIncoming q y b # is) from s =
     s\<lparr>sm_val := (sm_val s)(phi := sample_val s (if from = a then x else y))\<rparr>"
| "sample_enter _ _ s = s"

definition sample_machine :: "sample_state machine" where
  "sample_machine = \<lparr>m_exec = sample_exec, m_enter = sample_enter, m_val = sample_val, m_cell = sm_cell,
     m_agg = sample_agg, m_row = sm_row, m_out = sm_out\<rparr>"

lemma sample_updates [simp]:
  "sample_val (s\<lparr>sm_cell := f\<rparr>) x = sample_val s x" "sample_val (s\<lparr>sm_row := g\<rparr>) x = sample_val s x"
  "sample_val (s\<lparr>sm_agg := g\<rparr>) x = sample_val s x" "sample_val (s\<lparr>sm_out := out\<rparr>) x = sample_val s x"
  "sample_agg (s\<lparr>sm_cell := f\<rparr>) x = sample_agg s x" "sample_agg (s\<lparr>sm_row := g\<rparr>) x = sample_agg s x"
  "sample_agg (s\<lparr>sm_val := f\<rparr>) x = sample_agg s x" "sample_agg (s\<lparr>sm_out := out\<rparr>) x = sample_agg s x"
  by (simp_all add: sample_val_def sample_agg_def split: llval.split llty.split)

lemma sample_assigns [simp]:
  "sample_val (s\<lparr>sm_val := (sm_val s)(LRes n op args := w)\<rparr>) x = (if x = LRes n op args then w else sample_val s x)"
  "sample_agg (s\<lparr>sm_agg := (sm_agg s)(LRes n op args := ws)\<rparr>) x = (if x = LRes n op args then ws else sample_agg s x)"
  by (auto simp: sample_val_def sample_agg_def split: llval.split llty.split)

lemma sample_constants [simp]:
  "sample_val s (LConst t w) = w" "length (sample_agg s (LUndef (LStruct i sg ts))) = length ts"
  by (simp_all add: sample_val_def sample_agg_def)

lemma sample_keeps:
  "x \<noteq> LRes n op args \<Longrightarrow> sample_val (sample_value (LRes n op args) op args s) x = sample_val s x"
  "x \<noteq> LRes n op args \<Longrightarrow> sample_agg (sample_value (LRes n op args) op args s) x = sample_agg s x"
  "sm_cell (sample_value v op args s) = sm_cell s" "sm_row (sample_value v op args s) = sm_row s"
  "\<forall>f. op \<noteq> OpCall f \<Longrightarrow> sm_out (sample_value v op args s) = sm_out s"
  by (cases op; auto simp: sample_value_def split: list.split)+

lemma sample_values:
  "sample_value v OpLoad [p] s = s\<lparr>sm_val := (sm_val s)(v := sm_cell s p)\<rparr>" "sample_value v (OpPHI t) [] s = s"
  "sample_value v (OpInsertValue i) [a, x] s = s\<lparr>sm_agg := (sm_agg s)(v := (sample_agg s a)[i := sample_val s x])\<rparr>"
  "sample_value v (OpCall f) args s = s\<lparr>sm_out := sm_out s @ sample_call f args s\<rparr>"
  "lop_result op (sample_val s a) (sample_val s b) = Some w \<Longrightarrow> sample_value v op [a, b] s = s\<lparr>sm_val := (sm_val s)(v := w)\<rparr>"
  by (cases op; simp add: sample_value_def sample_result_def)+

lemma sample_enter_keeps: "sm_cell (sample_enter is b s) = sm_cell s" "sm_out (sample_enter is b s) = sm_out s"
  by (cases "(is, b, s)" rule: sample_enter.cases; simp)+

lemma is_row_slot: "is_row k p \<Longrightarrow> is_slot q \<Longrightarrow> q \<noteq> p"
  by (auto simp: is_row_def is_slot_def)

lemma sample_llvm_exec: "llvm_exec sample_machine"
  unfolding llvm_exec_def exec_rows_def sample_machine_def
  by (intro conjI allI) (auto simp: sample_keeps sample_enter_keeps sample_values Let_def dest: is_row_slot)

end
