(* ===== verification/Reir_Simulation.thy ===== *)
theory Reir_Simulation
  imports Reir_Semantics
begin

text \<open>
  The code generated for a program means what the program means: for every statement of the
  core language, running its code takes the stack cells from one environment to the one the
  reference interpreter computes.
\<close>

section \<open>Expressions\<close>

definition setting :: "llvm \<Rightarrow> 's machine \<Rightarrow> (string \<rightharpoonup> llval) \<Rightarrow> bool" where
  "setting L M V \<longleftrightarrow> llvm_types L \<and> llvm_exec M \<and> (\<forall>n v. V n = Some v \<longrightarrow> is_slot v) \<and>
     (\<forall>m n v. V m = Some v \<longrightarrow> V n = Some v \<longrightarrow> m = n)"

text \<open>The variables have their slots, the slots hold their values, and the same has been printed.\<close>

definition has_slots :: "(string \<rightharpoonup> llval) \<Rightarrow> 'db cg \<Rightarrow> bool" where
  "has_slots V c \<longleftrightarrow> (\<forall>n v. V n = Some v \<longrightarrow> cg_vars c n = Some (Some v))"

definition holds :: "'s machine \<Rightarrow> (string \<rightharpoonup> llval) \<Rightarrow> 's \<Rightarrow> env \<Rightarrow> bool" where
  "holds M V s env \<longleftrightarrow> (\<forall>n v. V n = Some v \<longrightarrow> m_cell M s v = env_vars env n) \<and> m_out M s = env_out env"

fun older :: "nat \<Rightarrow> llval \<Rightarrow> bool" where
  "older n (LRes k _ _) \<longleftrightarrow> k < n"
| "older n _ \<longleftrightarrow> True"

lemma older_mono: "older m x \<Longrightarrow> m \<le> n \<Longrightarrow> older n x"
  by (cases x) auto

abbreviation emitted :: "'db cg \<Rightarrow> nat \<Rightarrow> nat \<Rightarrow> ins list \<Rightarrow> 'db cg" where
  "emitted c b n is \<equiv> c\<lparr>cg_count := n, cg_code := cg_code c @ map (Pair b) is\<rparr>"

lemma value_op_ops:
  "op \<in> arithmetic_ops \<union> icmp_ops \<Longrightarrow> value_op op" "value_op op \<Longrightarrow> \<forall>f. op \<noteq> OpCall f"
  by (cases op; simp add: arithmetic_ops_def icmp_ops_def)+

text \<open>The machine along a list of instructions: what the instructions compute and what they leave alone.\<close>

definition computes :: "llvm \<Rightarrow> 's machine \<Rightarrow> (string \<rightharpoonup> llval) \<Rightarrow> nat \<Rightarrow> nat \<Rightarrow> ins list \<Rightarrow> llval \<Rightarrow> llty \<Rightarrow>
    (env \<Rightarrow> (64 word \<times> env) option) \<Rightarrow> bool" where
  "computes L M V m n is x t ev \<longleftrightarrow>
     m \<le> n \<and> older n x \<and> getType L x = t \<and> list_all (\<lambda>i. \<not> is_terminator i) is \<and>
     (\<forall>s y. older m y \<longrightarrow> m_val M (fold (m_exec M) is s) y = m_val M s y \<and> m_agg M (fold (m_exec M) is s) y = m_agg M s y) \<and>
     (\<forall>s env w env'. holds M V s env \<longrightarrow> ev env = Some (w, env') \<longrightarrow>
        m_val M (fold (m_exec M) is s) x = w \<and> holds M V (fold (m_exec M) is s) env')"

lemma exec_value:
  assumes "setting L M V" "value_op op" "holds M V s env"
  shows "holds M V (m_exec M (IVal (LRes n op args)) s) env"
  using assms value_op_ops(2) [OF assms(2)] by (auto simp: setting_def llvm_exec_def holds_def)

lemma computes_binary:
  assumes S: "setting L M V"
    and l: "computes L M V m n i1 a LI64 ev1" and r: "computes L M V n k i2 b LI64 ev2"
    and op: "op \<in> arithmetic_ops \<union> icmp_ops" "t = (if op \<in> icmp_ops then LI1 else LI64)"
    and ev: "\<And>env w env'. ev env = Some (w, env') \<Longrightarrow> \<exists>u env1 v. ev1 env = Some (u, env1) \<and> ev2 env1 = Some (v, env') \<and>
      lop_result op u v = Some w"
  shows "computes L M V m (Suc k) (i1 @ i2 @ [IVal (LRes k op [a, b])]) (LRes k op [a, b]) t ev"
  unfolding computes_def
proof (intro conjI allI impI)
  show "getType L (LRes k op [a, b]) = t"
    using S l op by (auto simp: setting_def llvm_types_def computes_def arithmetic_ops_def icmp_ops_def)
next
  fix s y
  assume "older m y"
  moreover from this l r have "older n y" "y \<noteq> LRes k op [a, b]" by (auto simp: computes_def intro: older_mono)
  ultimately show "m_val M (fold (m_exec M) (i1 @ i2 @ [IVal (LRes k op [a, b])]) s) y = m_val M s y"
    "m_agg M (fold (m_exec M) (i1 @ i2 @ [IVal (LRes k op [a, b])]) s) y = m_agg M s y"
    using S l r by (simp_all add: computes_def setting_def llvm_exec_def)
next
  fix s env w env'
  assume h: "holds M V s env" and e: "ev env = Some (w, env')"
  from ev [OF e] obtain u env1 v where e1: "ev1 env = Some (u, env1)" and e2: "ev2 env1 = Some (v, env')"
    and lop: "lop_result op u v = Some w" by blast
  let ?s1 = "fold (m_exec M) i1 s" and ?s2 = "fold (m_exec M) i2 (fold (m_exec M) i1 s)"
  from l h e1 have 1: "m_val M ?s1 a = u" "holds M V ?s1 env1" by (auto simp: computes_def)
  with r e2 have 2: "m_val M ?s2 b = v" "holds M V ?s2 env'" by (auto simp: computes_def)
  have "m_val M ?s2 a = u" using l r 1 by (simp add: computes_def)
  with 2 lop S show "m_val M (fold (m_exec M) (i1 @ i2 @ [IVal (LRes k op [a, b])]) s) (LRes k op [a, b]) = w"
    by (simp add: setting_def llvm_exec_def)
  show "holds M V (fold (m_exec M) (i1 @ i2 @ [IVal (LRes k op [a, b])]) s) env'"
    using exec_value [OF S value_op_ops(1) [OF op(1)] 2(2), of k "[a, b]"] by simp
qed (use l r in \<open>auto simp: computes_def\<close>)

lemma operator_computes:
  assumes "op \<in> arithmetic"
  obtains lop where "operator_lop op = Some lop" "lop \<in> arithmetic_ops" "lop \<notin> icmp_ops"
    "\<And>a b. lop_result lop a b = int_op op a b"
  using assms by (auto simp: arithmetic_def arithmetic_ops_def icmp_ops_def)

lemma comparison_computes:
  assumes "op \<in> comparison"
  obtains lop where "operator_lop op = Some lop" "lop \<in> icmp_ops"
    "\<And>a b. lop_result lop a b = map_option (\<lambda>t. if t then 1 else 0) (cmp_op op a b)"
  using assms by (auto simp: comparison_def arithmetic_ops_def icmp_ops_def)


lemma run_emit: "cg_point c = Some b \<Longrightarrow>
    emit_val op args c = Inr (LRes (cg_count c) op args, emitted c b (Suc (cg_count c)) [IVal (LRes (cg_count c) op args)])"
  by (simp add: emit_val_def bindM_def returnM_def freshM_def log_ins_def modM_def)

lemma run_log: "cg_point c = Some b \<Longrightarrow> log_ins i c = Inr ((), emitted c b (cg_count c) [i])"
  by (simp add: log_ins_def modM_def)

lemma setting_parts:
  assumes "setting L M V"
  shows "llvm_types L" "llvm_exec M" "V n = Some v \<Longrightarrow> is_slot v"
    "V n = Some v \<Longrightarrow> V m = Some v \<Longrightarrow> m = n"
  using assms by (auto simp: setting_def)

lemma slot_type: "setting L M V \<Longrightarrow> V n = Some v \<Longrightarrow> getType L v = LPtr LI64"
  using setting_parts(3) [of L M V n v] setting_parts(1) [of L M V]
  by (auto simp: is_slot_def llvm_types_def)

lemma computes_load:
  assumes S: "setting L M V" and v: "V n = Some v"
  shows "computes L M V m (Suc m) [IVal (LRes m OpLoad [v])] (LRes m OpLoad [v]) LI64 (\<lambda>env. Some (env_vars env n, env))"
  unfolding computes_def
proof (intro conjI allI impI)
  show "getType L (LRes m OpLoad [v]) = LI64"
    using slot_type [OF S v] setting_parts(1) [OF S] by (simp add: llvm_types_def)
next
  fix s y
  assume "older m y"
  then have "y \<noteq> LRes m OpLoad [v]" by auto
  then show "m_val M (fold (m_exec M) [IVal (LRes m OpLoad [v])] s) y = m_val M s y"
    "m_agg M (fold (m_exec M) [IVal (LRes m OpLoad [v])] s) y = m_agg M s y"
    using setting_parts(2) [OF S] by (simp_all add: llvm_exec_def)
next
  fix s env w env'
  assume h: "holds M V s env" and "Some (env_vars env n, env) = Some (w, env')"
  then show "m_val M (fold (m_exec M) [IVal (LRes m OpLoad [v])] s) (LRes m OpLoad [v]) = w"
    "holds M V (fold (m_exec M) [IVal (LRes m OpLoad [v])] s) env'"
    using S v exec_value [OF S _ h, of OpLoad m "[v]"] by (auto simp: setting_def llvm_exec_def holds_def)
qed simp_all

lemma holds_store:
  assumes S: "setting L M V" and "V n = Some v" "holds M V s env" "m_val M s x = w"
  shows "holds M V (m_exec M (IStore x v) s) (assign n w env)"
  using assms setting_parts(3,4) [OF S] setting_parts(2) [OF S] by (auto simp: holds_def llvm_exec_def assign_def)

lemma computes_assign:
  assumes S: "setting L M V" and v: "V n = Some v" and e: "computes L M V m k is x LI64 ev"
  shows "computes L M V m (Suc k) (is @ [IStore x v, IVal (LRes k OpLoad [v])]) (LRes k OpLoad [v]) LI64
    (\<lambda>env. map_option (\<lambda>(w, env1). (w, assign n w env1)) (ev env))"
  unfolding computes_def
proof (intro conjI allI impI)
  show "getType L (LRes k OpLoad [v]) = LI64" using computes_load [OF S v, of k] by (simp add: computes_def)
next
  fix s y
  assume "older m y"
  moreover from this e have "y \<noteq> LRes k OpLoad [v]" by (auto simp: computes_def)
  ultimately show "m_val M (fold (m_exec M) (is @ [IStore x v, IVal (LRes k OpLoad [v])]) s) y = m_val M s y"
    "m_agg M (fold (m_exec M) (is @ [IStore x v, IVal (LRes k OpLoad [v])]) s) y = m_agg M s y"
    using e setting_parts(2,3) [OF S] v by (simp_all add: computes_def llvm_exec_def)
next
  fix s env w env'
  assume h: "holds M V s env" and ev: "map_option (\<lambda>(w, env1). (w, assign n w env1)) (ev env) = Some (w, env')"
  from ev obtain env1 where e1: "ev env = Some (w, env1)" and env': "env' = assign n w env1" by auto
  let ?s = "fold (m_exec M) is s"
  from e h e1 have x: "m_val M ?s x = w" "holds M V ?s env1" by (auto simp: computes_def)
  with holds_store [OF S v] have h2: "holds M V (m_exec M (IStore x v) ?s) env'" by (simp add: env')
  show "holds M V (fold (m_exec M) (is @ [IStore x v, IVal (LRes k OpLoad [v])]) s) env'"
    using exec_value [OF S _ h2, of OpLoad k "[v]"] by simp
  show "m_val M (fold (m_exec M) (is @ [IStore x v, IVal (LRes k OpLoad [v])]) s) (LRes k OpLoad [v]) = w"
    using x(1) v setting_parts(2,3) [OF S] by (simp add: llvm_exec_def)
qed (use e in \<open>auto simp: computes_def\<close>)

lemma emitted_more [simp]:
  "emitted (emitted c b m is) b n js = emitted c b n (is @ js)"
  by simp

lemma expr_code:
  assumes S: "setting L M V" and "int_expr V e" "has_slots V c" "cg_point c = Some b"
  shows "\<exists>x n is. get_value L p e c = Inr (Some x, emitted c b n is) \<and>
    computes L M V (cg_count c) n is x LI64 (\<lambda>env. eval_expr env e)"
  using assms(2-4) S
proof (induction V e arbitrary: p c rule: int_expr.induct)
  case (1 V t v)
  then obtain w where w: "int_value v = Some w" by auto
  then have "get_value L p (PrimaryExpression t v) c = Inr (Some (getInt64 w), c)"
    by (auto simp: int_value_def value_emitter_def monad_defs split: if_splits sum.splits)
  moreover have "computes L M V (cg_count c) (cg_count c) [] (getInt64 w) LI64 (\<lambda>env. eval_expr env (PrimaryExpression t v))"
    using 1 w S by (auto simp: computes_def setting_def llvm_types_def llvm_exec_def)
  ultimately show ?case by (intro exI [of _ "getInt64 w"] exI [of _ "cg_count c"] exI [of _ "[]"]) simp
next
  case (2 V t n)
  then obtain v where v: "V n = Some v" by auto
  with 2(2) have "cg_vars c n = Some (Some v)" by (simp add: has_slots_def)
  with 2(3) have "get_value L p (VariableReference t n) c =
      Inr (Some (LRes (cg_count c) OpLoad [v]), emitted c b (Suc (cg_count c)) [IVal (LRes (cg_count c) OpLoad [v])])"
    by (simp add: VariableReference_get_ref_def load_ref_def monad_defs run_emit)
  with computes_load [OF 2(4) v, of "cg_count c"] show ?case unfolding eval_expr.simps by blast
next
  case (3 V t op l r)
  from "3.prems" obtain lop where op: "operator_lop op = Some lop" "lop \<in> arithmetic_ops" "lop \<notin> icmp_ops"
    "\<And>a b. lop_result lop a b = int_op op a b"
    using operator_computes [of op] by auto
  from "3.prems" have no: "op \<noteq> OP_CONDITIONAL_AND" "op \<noteq> OP_CONDITIONAL_OR" by (auto simp: arithmetic_def)
  from "3.IH"(1) "3.prems" obtain a n i1 where
    l: "get_value L (p @ [0]) l c = Inr (Some a, emitted c b n i1)"
      "computes L M V (cg_count c) n i1 a LI64 (\<lambda>env. eval_expr env l)" by fastforce
  from "3.IH"(2) [of "emitted c b n i1" "p @ [1]"] "3.prems" obtain d k i2 where
    r: "get_value L (p @ [1]) r (emitted c b n i1) = Inr (Some d, emitted c b k (i1 @ i2))"
      "computes L M V n k i2 d LI64 (\<lambda>env. eval_expr env r)" by (fastforce simp: has_slots_def)
  let ?x = "LRes k lop [a, d]"
  have "get_value L p (BinaryExpression t op l r) c = Inr (Some ?x, emitted c b (Suc k) (i1 @ i2 @ [IVal ?x]))"
    using l(1) r(1) op(1) no "3.prems"(3) by (simp add: monad_defs run_emit)
  moreover have "computes L M V (cg_count c) (Suc k) (i1 @ i2 @ [IVal ?x]) ?x LI64
      (\<lambda>env. eval_expr env (BinaryExpression t op l r))"
    by (rule computes_binary [OF "3.prems"(4) l(2) r(2)])
       (use op in \<open>auto simp: split: option.splits\<close>)
  ultimately show ?case by blast
next
  case (4 V t u n e)
  then obtain v where v: "V n = Some v" by auto
  with 4(3) have cv: "cg_vars c n = Some (Some v)" by (simp add: has_slots_def)
  from "4.IH" [of c "p @ [1]"] "4.prems" obtain x k i1 where
    e: "get_value L (p @ [1]) e c = Inr (Some x, emitted c b k i1)"
      "computes L M V (cg_count c) k i1 x LI64 (\<lambda>env. eval_expr env e)" by auto
  have "get_value L p (Assign t (VariableReference u n) e) c =
      Inr (Some (LRes k OpLoad [v]), emitted c b (Suc k) (i1 @ [IStore x v, IVal (LRes k OpLoad [v])]))"
    using cv e(1) "4.prems"(3) by (simp add: VariableReference_get_ref_def monad_defs run_emit run_log)
  with computes_assign [OF "4.prems"(4) v e(2)] show ?case unfolding eval_expr.simps by blast
qed simp_all


lemma comparison_code:
  assumes S: "setting L M V" and e: "op \<in> comparison" "int_expr V l" "int_expr V r" and "has_slots V c" "cg_point c = Some b"
  shows "\<exists>x n is. get_value L p (BinaryExpression t op l r) c = Inr (Some x, emitted c b n is) \<and>
    computes L M V (cg_count c) n is x LI1 (\<lambda>env. map_option (\<lambda>(t, env1). (if t then 1 else 0, env1)) (eval_cond env (BinaryExpression t op l r)))"
proof -
  from comparison_computes [OF e(1)] obtain lop where op: "operator_lop op = Some lop" "lop \<in> icmp_ops"
    "\<And>a b. lop_result lop a b = map_option (\<lambda>t. if t then 1 else 0) (cmp_op op a b)" by blast
  from e(1) have no: "op \<noteq> OP_CONDITIONAL_AND" "op \<noteq> OP_CONDITIONAL_OR" "op \<notin> conditional" by (auto simp: comparison_def conditional_def)
  from expr_code [OF S e(2) assms(5,6)] obtain a n i1 where
    l: "get_value L (p @ [0]) l c = Inr (Some a, emitted c b n i1)"
      "computes L M V (cg_count c) n i1 a LI64 (\<lambda>env. eval_expr env l)" by blast
  from expr_code [OF S e(3), of "emitted c b n i1" b "p @ [1]"] assms(5,6) obtain d k i2 where
    r: "get_value L (p @ [1]) r (emitted c b n i1) = Inr (Some d, emitted c b k (i1 @ i2))"
      "computes L M V n k i2 d LI64 (\<lambda>env. eval_expr env r)" by (fastforce simp: has_slots_def)
  let ?x = "LRes k lop [a, d]"
  have "get_value L p (BinaryExpression t op l r) c = Inr (Some ?x, emitted c b (Suc k) (i1 @ i2 @ [IVal ?x]))"
    using l(1) r(1) op(1) no assms(6) by (simp add: monad_defs run_emit)
  moreover have "computes L M V (cg_count c) (Suc k) (i1 @ i2 @ [IVal ?x]) ?x LI1
      (\<lambda>env. map_option (\<lambda>(t, env1). (if t then 1 else 0, env1)) (eval_cond env (BinaryExpression t op l r)))"
    by (rule computes_binary [OF S l(2) r(2)]) (use op(2,3) e(1) no(3) in \<open>auto split: option.splits\<close>, blast+)
  ultimately show ?thesis by blast
qed

lemma int_get_type:
  assumes "setting L M V" "int_expr V e" "has_slots V c"
  shows "get_type L e c = Inr (Some LI64, c)"
  using assms
proof (induction V e rule: int_expr.induct)
  case (1 V t v)
  then show ?case by (auto simp: int_value_def PrimaryExpression_get_type_def monad_defs split: if_splits)
next
  case (2 V t n)
  then obtain v where "V n = Some v" by auto
  with 2 show ?case
    using slot_type [of L M V n v] by (simp add: has_slots_def VariableReference_get_type_def monad_defs)
next
  case (3 V t op l r)
  then show ?case by (simp add: monad_defs)
qed simp_all

section \<open>Control\<close>

lemma runs_trans: "runs M F x y \<Longrightarrow> runs M F y z \<Longrightarrow> runs M F x z"
  by (induction rule: runs.induct) (auto intro: runs.intros)

lemma runs_list:
  "prefix (pre @ is) (F b) \<Longrightarrow> list_all (\<lambda>i. \<not> is_terminator i) is \<Longrightarrow>
   runs M F ((b, length pre), s) ((b, length (pre @ is)), fold (m_exec M) is s)"
proof (induction "is" arbitrary: pre s)
  case Nil
  show ?case by (simp add: runs.here)
next
  case (Cons i "is")
  from Cons.prems(1) have i: "length pre < length (F b)" "F b ! length pre = i" by (auto simp: prefix_def)
  have "runs M F ((b, length (pre @ [i])), m_exec M i s) ((b, length ((pre @ [i]) @ is)), fold (m_exec M) is (m_exec M i s))"
    using Cons.prems by (intro Cons.IH) auto
  then show ?case using i Cons.prems(2) runs.plain [of "length pre" F b M s] by simp
qed

lemma runs_br: "prefix (pre @ [IBr x]) (F b) \<Longrightarrow> runs M F ((b, length pre), s) ((x, 0), m_enter M (F x) b s)"
  by (rule runs.branch [OF _ _ runs.here]) (auto simp: prefix_def)

lemma runs_choice:
  "prefix (pre @ [ICondBr v t f]) (F b) \<Longrightarrow> x = (if m_val M s v \<noteq> 0 then t else f) \<Longrightarrow>
   runs M F ((b, length pre), s) ((x, 0), m_enter M (F x) b s)"
  by (rule runs.choice [OF _ _ _ runs.here]) (auto simp: prefix_def)

lemma holds_enter: "setting L M V \<Longrightarrow> holds M V (m_enter M is b s) env = holds M V s env"
  by (simp add: holds_def setting_def llvm_exec_def)

definition extends :: "(nat \<Rightarrow> ins list) \<Rightarrow> 'db cg \<Rightarrow> bool" where
  "extends F c \<longleftrightarrow> (\<forall>x. prefix (blk c x) (F x))"

definition print_fn :: llfun where
  "print_fn = \<lparr>fn_name = ''print_int'', fn_ret = LVoid, fn_args = [LI64]\<rparr>"

definition emit_fn :: llfun where
  "emit_fn = \<lparr>fn_name = ''__emit_func'', fn_ret = LVoid, fn_args = [LPtr LI64, LPtr LI8, LI64]\<rparr>"

definition has_hosts :: "'db cg \<Rightarrow> bool" where
  "has_hosts c \<longleftrightarrow> cg_functions c ''print_int'' = Some (Some print_fn) \<and> cg_functions c ''__emit_func'' = Some (Some emit_fn)"

text \<open>
  The rows a program emits, by the node of the \<open>emit\<close>: the name and the type of the struct, which are
  in the tables, and its stack slot.
\<close>

type_synonym rows = "path \<rightharpoonup> string \<times> llty \<times> llval"

definition named_struct :: "string \<Rightarrow> 'db cg \<Rightarrow> llty option" where
  "named_struct sg c = List.find (\<lambda>t. case t of LStruct _ n _ \<Rightarrow> n = sg | _ \<Rightarrow> False) (cg_structs c)"

definition has_rows :: "rows \<Rightarrow> 'db cg \<Rightarrow> bool" where
  "has_rows K c \<longleftrightarrow> (\<forall>p sg t v. K p = Some (sg, t, v) \<longrightarrow>
     cg_stack c p = Some (Some v) \<and> cg_types c sg = Some (Some t) \<and> named_struct sg c = Some t)"

lemmas has_defs = has_slots_def has_hosts_def has_rows_def named_struct_def

text \<open>
  The generator writes to block \<open>b\<close>, the blocks that do not exist yet are empty, and the functions,
  slots and rows are in the tables.
\<close>

definition ready :: "rows \<Rightarrow> (string \<rightharpoonup> llval) \<Rightarrow> 'db cg \<Rightarrow> nat \<Rightarrow> bool" where
  "ready K V c b \<longleftrightarrow> has_slots V c \<and> has_hosts c \<and> has_rows K c \<and> cg_point c = Some b \<and> b < nblocks c \<and>
     (\<forall>x. nblocks c \<le> x \<longrightarrow> blk c x = [])"

text \<open>Of the blocks that existed, only those of \<open>S\<close> have changed.\<close>

definition within :: "nat set \<Rightarrow> 'db cg \<Rightarrow> 'db cg \<Rightarrow> bool" where
  "within S c c' \<longleftrightarrow> nblocks c \<le> nblocks c' \<and> prefix (cg_code c) (cg_code c') \<and>
     (\<forall>x < nblocks c. x \<notin> S \<longrightarrow> blk c' x = blk c x) \<and> cx_loop (cg_ctx c') = cx_loop (cg_ctx c)"

lemma within_trans:
  "within S c c1 \<Longrightarrow> within T c1 c2 \<Longrightarrow> (\<And>x. x \<in> T \<Longrightarrow> x < nblocks c \<Longrightarrow> x \<in> S) \<Longrightarrow> within S c c2"
  unfolding within_def by (auto intro: prefix_order.trans) (metis order_less_le_trans)

lemma within_mono: "within S c c' \<Longrightarrow> S \<subseteq> T \<Longrightarrow> within T c c'"
  by (auto simp: within_def)

lemma within_extends: "within S c c' \<Longrightarrow> extends F c' \<Longrightarrow> extends F c"
proof -
  assume w: "within S c c'" and e: "extends F c'"
  have "prefix (blk c x) (blk c' x)" for x
    using w by (auto simp: within_def blk_def prefix_def)
  with e show ?thesis unfolding extends_def by (meson prefix_order.trans)
qed

definition reaches :: "'s machine \<Rightarrow> (string \<rightharpoonup> llval) \<Rightarrow> 'db cg \<Rightarrow> nat \<Rightarrow> 'db cg \<Rightarrow> nat \<Rightarrow> (env \<Rightarrow> env option) \<Rightarrow> bool" where
  "reaches M V c b c' b' R \<longleftrightarrow>
     (\<forall>F s env env'. extends F c' \<longrightarrow> holds M V s env \<longrightarrow> R env = Some env' \<longrightarrow>
        (\<exists>s'. runs M F ((b, length (blk c b)), s) ((b', length (blk c' b')), s') \<and> holds M V s' env'))"

definition sim :: "'s machine \<Rightarrow> rows \<Rightarrow> (string \<rightharpoonup> llval) \<Rightarrow> ('db cg, unit) st \<Rightarrow> (env \<Rightarrow> env option) \<Rightarrow> bool" where
  "sim M K V m R \<longleftrightarrow>
     (\<forall>c b. ready K V c b \<longrightarrow> (\<exists>c' b'. m c = Inr ((), c') \<and> ready K V c' b' \<and> within {b} c c' \<and>
        (b' = b \<or> nblocks c \<le> b') \<and> reaches M V c b c' b' R))"

lemma reaches_trans:
  assumes "reaches M V c b c1 b1 R1" "reaches M V c1 b1 c2 b2 R2" "within S c1 c2"
    and "\<And>env env'. R env = Some env' \<Longrightarrow> \<exists>env1. R1 env = Some env1 \<and> R2 env1 = Some env'"
  shows "reaches M V c b c2 b2 R"
  unfolding reaches_def
proof (intro allI impI)
  fix F s env env'
  assume e: "extends F c2" and h: "holds M V s env" and r: "R env = Some env'"
  from assms(4) [OF r] obtain env1 where R: "R1 env = Some env1" "R2 env1 = Some env'" by blast
  with assms(1) within_extends [OF assms(3) e] h obtain s1 where
    "runs M F ((b, length (blk c b)), s) ((b1, length (blk c1 b1)), s1)" "holds M V s1 env1"
    unfolding reaches_def by blast
  with assms(2) e R(2) obtain s2 where "runs M F ((b1, length (blk c1 b1)), s1) ((b2, length (blk c2 b2)), s2)" "holds M V s2 env'"
    unfolding reaches_def by blast
  with \<open>runs M F ((b, length (blk c b)), s) _\<close> show "\<exists>s'. runs M F ((b, length (blk c b)), s) ((b2, length (blk c2 b2)), s') \<and> holds M V s' env'"
    by (blast intro: runs_trans)
qed

lemma sim_bind:
  fixes m1 m2 :: "('db cg, unit) st"
  assumes "sim M K V m1 R1" "sim M K V m2 R2"
    and R: "\<And>env env'. R env = Some env' \<Longrightarrow> \<exists>env1. R1 env = Some env1 \<and> R2 env1 = Some env'"
  shows "sim M K V (bindM m1 (\<lambda>_. m2)) R"
  unfolding sim_def
proof (intro allI impI)
  fix c :: "'db cg" and b
  assume "ready K V c b"
  with assms(1) obtain c1 b1 where 1: "m1 c = Inr ((), c1)" "ready K V c1 b1" "within {b} c c1" "b1 = b \<or> nblocks c \<le> b1"
    "reaches M V c b c1 b1 R1" unfolding sim_def by blast
  with assms(2) obtain c2 b2 where 2: "m2 c1 = Inr ((), c2)" "ready K V c2 b2" "within {b1} c1 c2" "b2 = b1 \<or> nblocks c1 \<le> b2"
    "reaches M V c1 b1 c2 b2 R2" unfolding sim_def by blast
  have "within {b} c c2" using 1(4) by (intro within_trans [OF 1(3) 2(3)]) auto
  moreover have "b2 = b \<or> nblocks c \<le> b2" using 1(3,4) 2(4) by (auto simp: within_def)
  moreover have "bindM m1 (\<lambda>_. m2) c = Inr ((), c2)" using 1(1) 2(1) by (simp add: bindM_def)
  moreover have "reaches M V c b c2 b2 R" by (rule reaches_trans [OF 1(5) 2(5,3) R])
  ultimately show "\<exists>c' b'. bindM m1 (\<lambda>_. m2) c = Inr ((), c') \<and> ready K V c' b' \<and> within {b} c c' \<and>
      (b' = b \<or> nblocks c \<le> b') \<and> reaches M V c b c' b' R"
    using 2(2) by blast
qed

lemma sim_return:
  assumes "\<And>env env'. R env = Some env' \<Longrightarrow> env' = env"
  shows "sim M K V (returnM ()) R"
proof -
  have "reaches M V c b c b R" for c b unfolding reaches_def using assms by (blast intro: runs.here)
  then show ?thesis by (auto simp: sim_def returnM_def within_def)
qed


text \<open>Straight code, and leaving a block for another.\<close>

lemma ready_emitted:
  assumes "ready K V c b"
  shows "ready K V (emitted c b n is) b" "within {b} c (emitted c b n is)" "blk (emitted c b n is) b = blk c b @ is"
  using assms by (auto simp: ready_def within_def has_defs nblocks_def blk_def comp_def)

lemma reaches_computes:
  assumes "computes L M V m n is x t ev" "ready K V c b"
  shows "reaches M V c b (emitted c b n is) b (\<lambda>env. map_option snd (ev env))"
  unfolding reaches_def
proof (intro allI impI)
  fix F s env env'
  assume "extends F (emitted c b n is)" and h: "holds M V s env" and e: "map_option snd (ev env) = Some env'"
  then have "prefix (blk c b @ is) (F b)" by (metis extends_def ready_emitted(3) [OF assms(2)])
  from runs_list [of "blk c b" "is" F b M s, OF this] assms(1) h e
  show "\<exists>s'. runs M F ((b, length (blk c b)), s) ((b, length (blk (emitted c b n is) b)), s') \<and> holds M V s' env'"
    by (auto simp: computes_def ready_emitted(3) [OF assms(2)])
qed

definition leave :: "'db cg \<Rightarrow> nat \<Rightarrow> ins \<Rightarrow> nat \<Rightarrow> 'db cg" where
  "leave c b i x = c\<lparr>cg_code := cg_code c @ [(b, i)], cg_point := Some x\<rparr>"

lemmas step_run = bindM_def needM_def returnM_def log_ins_def modM_def SetInsertPoint_def

lemma leave_blk: "blk (leave c b i x) y = (if y = b then blk c y @ [i] else blk c y)" "nblocks (leave c b i x) = nblocks c"
  by (simp_all add: leave_def blk_def nblocks_def)

lemma leave_ready:
  assumes "ready K V c b" "x < nblocks c"
  shows "ready K V (leave c b i x) x" "within {b} c (leave c b i x)"
  using assms leave_blk [of c b i x]
  by (auto simp: ready_def within_def) (auto simp: leave_def has_defs)

lemma leave_extends: "extends F (leave c b i x) \<Longrightarrow> prefix (blk c b @ [i]) (F b)"
  by (metis extends_def leave_blk(1))

lemma within_blk: "within S c c' \<Longrightarrow> x < nblocks c \<Longrightarrow> x \<notin> S \<Longrightarrow> blk c' x = blk c x"
  by (simp add: within_def)

text \<open>New blocks.\<close>

definition new_blocks :: "string list \<Rightarrow> 'db cg \<Rightarrow> 'db cg" where
  "new_blocks names c = c\<lparr>cg_blocks := cg_blocks c @ names\<rparr>"

lemma create_run: "BasicBlock_Create nm c = Inr (nblocks c, new_blocks [nm] c)"
  by (simp add: BasicBlock_Create_def nblocks_def new_blocks_def)

lemma new_blocks_simps [simp]:
  "new_blocks ms (new_blocks ns c) = new_blocks (ns @ ms) c" "nblocks (new_blocks ns c) = nblocks c + length ns"
  "blk (new_blocks ns c) = blk c" "cg_point (new_blocks ns c) = cg_point c" "cg_count (new_blocks ns c) = cg_count c"
  "has_slots V (new_blocks ns c) = has_slots V c" "has_hosts (new_blocks ns c) = has_hosts c"
  "has_rows K (new_blocks ns c) = has_rows K c" "cg_ctx (new_blocks ns c) = cg_ctx c" "cg_code (new_blocks ns c) = cg_code c"
  by (simp_all add: new_blocks_def nblocks_def blk_def [abs_def] has_defs)

lemma new_blocks_ready: "ready K V c b \<Longrightarrow> ready K V (new_blocks ns c) b" "within S c (new_blocks ns c)"
  by (auto simp: ready_def within_def)

section \<open>Conditions\<close>

text \<open>Code that ends with a truth value in a register.\<close>

definition tests :: "'s machine \<Rightarrow> (string \<rightharpoonup> llval) \<Rightarrow> 'db cg \<Rightarrow> nat \<Rightarrow> 'db cg \<Rightarrow> nat \<Rightarrow> llval \<Rightarrow>
    (env \<Rightarrow> (bool \<times> env) option) \<Rightarrow> bool" where
  "tests M V c b c' b' x ev \<longleftrightarrow>
     (\<forall>F s env tr env'. extends F c' \<longrightarrow> holds M V s env \<longrightarrow> ev env = Some (tr, env') \<longrightarrow>
        (\<exists>s'. runs M F ((b, length (blk c b)), s) ((b', length (blk c' b')), s') \<and> holds M V s' env' \<and>
           (m_val M s' x \<noteq> 0 \<longleftrightarrow> tr)))"

definition decides :: "llvm \<Rightarrow> 's machine \<Rightarrow> rows \<Rightarrow> (string \<rightharpoonup> llval) \<Rightarrow> ('db cg, llval) st \<Rightarrow> (env \<Rightarrow> (bool \<times> env) option) \<Rightarrow> bool" where
  "decides L M K V m ev \<longleftrightarrow>
     (\<forall>c b. ready K V c b \<longrightarrow> (\<exists>x c' b'. m c = Inr (x, c') \<and> getType L x = LI1 \<and> ready K V c' b' \<and> within {b} c c' \<and>
        (b' = b \<or> nblocks c \<le> b') \<and> tests M V c b c' b' x ev))"

lemma decides_emitted:
  fixes m :: "('db cg, llval) st"
  assumes "\<And>c b. ready K V (c :: 'db cg) b \<Longrightarrow> \<exists>x n is. m c = Inr (x, emitted c b n is) \<and>
      computes L M V (cg_count c) n is x LI1 (\<lambda>env. map_option (\<lambda>(t, env1). (if t then 1 else 0, env1)) (ev env))"
  shows "decides L M K V m ev"
  unfolding decides_def
proof (intro allI impI)
  fix c :: "'db cg" and b
  assume r: "ready K V c b"
  from assms [OF r] obtain x n "is" where m: "m c = Inr (x, emitted c b n is)"
    and comp: "computes L M V (cg_count c) n is x LI1 (\<lambda>env. map_option (\<lambda>(t, env1). (if t then 1 else 0, env1)) (ev env))"
    by blast
  have "tests M V c b (emitted c b n is) b x ev"
    unfolding tests_def
  proof (intro allI impI)
    fix F s env tr env'
    assume "extends F (emitted c b n is)" "holds M V s env" "ev env = Some (tr, env')"
    moreover from this have "prefix (blk c b @ is) (F b)" by (metis extends_def ready_emitted(3) [OF r])
    ultimately show "\<exists>s'. runs M F ((b, length (blk c b)), s) ((b, length (blk (emitted c b n is) b)), s') \<and> holds M V s' env' \<and>
        (m_val M s' x \<noteq> 0 \<longleftrightarrow> tr)"
      using runs_list [of "blk c b" "is" F b M s] comp
      by (intro exI [of _ "fold (m_exec M) is s"]) (auto simp: computes_def ready_emitted(3) [OF r])
  qed
  with m comp ready_emitted [OF r] show "\<exists>x c' b'. m c = Inr (x, c') \<and> getType L x = LI1 \<and> ready K V c' b' \<and> within {b} c c' \<and>
      (b' = b \<or> nblocks c \<le> b') \<and> tests M V c b c' b' x ev"
    by (auto simp: computes_def)
qed

text \<open>A condition with its branch, and a part that ends with a branch.\<close>

lemma choose_run:
  assumes S: "setting L M V" and "tests M V c b c' b' x ev" and ext: "extends F (leave c' b' (ICondBr x t f) y)"
    and w: "within S' c' (leave c' b' (ICondBr x t f) y)" and h: "holds M V s env" "ev env = Some (tr, env1)"
  shows "\<exists>s1. runs M F ((b, length (blk c b)), s) ((if tr then t else f, 0), s1) \<and> holds M V s1 env1"
proof -
  from assms(2) within_extends [OF w ext] h obtain s' where
    s': "runs M F ((b, length (blk c b)), s) ((b', length (blk c' b')), s')" "holds M V s' env1" "m_val M s' x \<noteq> 0 \<longleftrightarrow> tr"
    unfolding tests_def by blast
  have "runs M F ((b', length (blk c' b')), s') ((if tr then t else f, 0), m_enter M (F (if tr then t else f)) b' s')"
    by (rule runs_choice [of "blk c' b'" x t f F b', OF leave_extends [OF ext]]) (simp add: s'(3))
  from runs_trans [OF s'(1) this] holds_enter [OF S] s'(2) show ?thesis by blast
qed

lemma part_run:
  assumes S: "setting L M V" and "reaches M V c b c' b' R" "extends F (leave c' b' (IBr x) y)" "within S' c' (leave c' b' (IBr x) y)"
    "holds M V s env" "R env = Some env'"
  shows "\<exists>s'. runs M F ((b, length (blk c b)), s) ((x, 0), s') \<and> holds M V s' env'"
proof -
  from assms(2,5,6) within_extends [OF assms(4,3)] obtain s' where
    "runs M F ((b, length (blk c b)), s) ((b', length (blk c' b')), s')" and h: "holds M V s' env'"
    unfolding reaches_def by blast
  note runs_trans [OF this(1) runs_br [of "blk c' b'" x F b', OF leave_extends [OF assms(3)]]]
  with h holds_enter [OF S] show ?thesis by blast
qed

lemma decides_to_i1:
  assumes "decides L M K V (bindP m returnM) ev"
  shows "decides L M K V (bindP m (to_i1 L)) ev"
proof -
  have "bindP m (to_i1 L) c = Inr (x, c')" if "bindP m returnM c = Inr (x, c')" "getType L x = LI1" for c x c'
    using that by (auto simp: bindP_Inr to_i1_def returnM_def)
  with assms show ?thesis unfolding decides_def by meson
qed

lemma eval_cond_int: "int_expr V e \<Longrightarrow> eval_cond env e = truth (eval_expr env e)"
  by (cases e) (auto simp: arithmetic_def comparison_def conditional_def)

lemma decides_int:
  assumes S: "setting L M V" and e: "int_expr V e"
  shows "decides L M K V (bindP (get_value L p e) (to_i1 L) :: ('db cg, llval) st) (\<lambda>env. eval_cond env e)"
proof (rule decides_emitted)
  fix c :: "'db cg" and b
  assume "ready K V c b"
  then have r: "has_slots V c" "cg_point c = Some b" by (auto simp: ready_def)
  from expr_code [OF S e r, of p] obtain x n "is" where
    x: "get_value L p e c = Inr (Some x, emitted c b n is)" "computes L M V (cg_count c) n is x LI64 (\<lambda>env. eval_expr env e)"
    by blast
  let ?y = "LRes n OpICmpNE [x, getInt64 0]"
  have z: "computes L M V n n [] (getInt64 0) LI64 (\<lambda>env. Some (0, env))"
    using S by (auto simp: computes_def setting_def llvm_types_def llvm_exec_def)
  have "getType L x = LI64" using x(2) by (simp add: computes_def)
  then have "bindP (get_value L p e) (to_i1 L) c = Inr (?y, emitted c b (Suc n) (is @ [] @ [IVal ?y]))"
    using x(1) r(2) by (simp add: bindP_def to_i1_def monad_defs run_emit)
  moreover have "computes L M V (cg_count c) (Suc n) (is @ [] @ [IVal ?y]) ?y LI1
      (\<lambda>env. map_option (\<lambda>(t, env1). (if t then 1 else 0, env1)) (eval_cond env e))"
  proof (rule computes_binary [OF S x(2) z])
    fix env w env'
    assume "map_option (\<lambda>(t, env1). (if t then 1 else 0, env1)) (eval_cond env e) = Some (w :: 64 word, env')"
    then obtain u where "eval_expr env e = Some (u, env')" "w = (if u \<noteq> 0 then 1 else 0)"
      unfolding eval_cond_int [OF e] truth_def by (auto simp: case_prod_beta)
    then show "\<exists>u env1 v. eval_expr env e = Some (u, env1) \<and> Some (0, env1) = Some (v, env') \<and> lop_result OpICmpNE u v = Some w"
      by simp
  qed (simp_all add: icmp_ops_def)
  ultimately show "\<exists>x n is. bindP (get_value L p e) (to_i1 L) c = Inr (x, emitted c b n is) \<and> computes L M V (cg_count c) n is x LI1
      (\<lambda>env. map_option (\<lambda>(t, env1). (if t then 1 else 0, env1)) (eval_cond env e))"
    by blast
qed

text \<open>Entering the block of a PHI, and going on behind it.\<close>

lemma phi_run:
  assumes S: "setting L M V" and phi: "phi = LRes n (OpPHI t) []" and "a \<noteq> b"
    and pre: "prefix [IVal phi, IIncoming phi x a, IIncoming phi y b] (F fin)"
    and side: "i = a \<and> z = x \<or> i = b \<and> z = y" and h: "holds M V s env"
  shows "\<exists>s'. runs M F ((fin, 0), m_enter M (F fin) i s) ((fin, 3), s') \<and> holds M V s' env \<and> m_val M s' phi = m_val M s z"
proof -
  let ?is = "[IVal phi, IIncoming phi x a, IIncoming phi y b]" and ?s = "m_enter M (F fin) i s"
  from pre obtain rest where F: "F fin = IVal phi # IIncoming phi x a # IIncoming phi y b # rest" by (auto simp: prefix_def)
  note M = setting_parts(2) [OF S]
  have enter: "m_val M ?s phi = m_val M s z" "holds M V ?s env"
    using M assms(3) side h holds_enter [OF S] by (auto simp: llvm_exec_def F phi Let_def)
  have "m_val M (fold (m_exec M) ?is ?s) phi = m_val M ?s phi"
    using M by (simp add: llvm_exec_def phi Let_def)
  moreover have "holds M V (fold (m_exec M) ?is ?s) env"
    using enter(2) M setting_parts(3) [OF S] by (simp add: llvm_exec_def holds_def phi)
  moreover have "runs M F ((fin, 0), ?s) ((fin, 3), fold (m_exec M) ?is ?s)"
    using runs_list [of "[]" ?is F fin M ?s] pre by (simp add: numeral_3_eq_3)
  ultimately show ?thesis using enter(1) by metis
qed

lemma bindP_returnM: "bindP m k = bindM (bindP m returnM) k"
proof -
  have "(\<lambda>x. bindM (returnM x) k) = k" by (simp add: bindM_def returnM_def fun_eq_iff)
  then show ?thesis using bind_assoc [of m returnM k] by simp
qed

text \<open>The states a short-circuit operator passes through.\<close>

lemma conditional_parts:
  fixes lhs rhs :: "('db cg, llval option) st" and c :: "'db cg"
  assumes l: "decides L M K V (bindP lhs (to_i1 L)) evl" and r: "decides L M K V (bindP rhs (to_i1 L)) evr" and c: "ready K V c b"
    and blocks: "nx = nblocks c" "fin = Suc nx"
  obtains x y phi n c1 c2 b2 c3 c4 b4 c5 c6 where
    "c3 = leave c2 b2 (ICondBr x (if forAND then nx else fin) (if forAND then fin else nx)) nx"
    "c5 = leave c4 b4 (IBr fin) fin" "phi = LRes n (OpPHI LI1) []"
    "blk c6 fin = [IVal phi, IIncoming phi x b2, IIncoming phi y b4]" "b2 \<noteq> b4"
    "blk c1 b = blk c b" "blk c3 nx = []" "tests M V c1 b c2 b2 x evl" "tests M V c3 nx c4 b4 y evr"
    "within {b2} c2 c3" "within {nx} c3 c4" "within {b4} c4 c5" "within {fin} c5 c6" "within {b} c c6" "ready K V c6 fin"
    "get_conditional_value L lhs rhs forAND c = Inr (phi, c6)"
proof -
  let ?c1 = "new_blocks [''bin_next'', ''bin_fin''] c"
  have b: "b < nblocks c" using c by (simp add: ready_def)
  have r1: "ready K V ?c1 b" by (rule new_blocks_ready(1) [OF c])
  from l r1 obtain x c2 b2 where 2: "bindP lhs (to_i1 L) ?c1 = Inr (x, c2)" "ready K V c2 b2" "within {b} ?c1 c2"
    "b2 = b \<or> nblocks ?c1 \<le> b2" "tests M V ?c1 b c2 b2 x evl" unfolding decides_def by blast
  let ?c3 = "leave c2 b2 (ICondBr x (if forAND then nx else fin) (if forAND then fin else nx)) nx"
  have n2: "nblocks c + 2 \<le> nblocks c2" "b2 < nblocks c2" using 2(2,3) by (simp_all add: within_def ready_def)
  have r3: "ready K V ?c3 nx" "within {b2} c2 ?c3" using leave_ready [OF 2(2)] n2 blocks by auto
  from r r3(1) obtain y c4 b4 where 4: "bindP rhs (to_i1 L) ?c3 = Inr (y, c4)" "ready K V c4 b4" "within {nx} ?c3 c4"
    "b4 = nx \<or> nblocks ?c3 \<le> b4" "tests M V ?c3 nx c4 b4 y evr" unfolding decides_def by blast
  let ?c5 = "leave c4 b4 (IBr fin) fin"
  have n4: "nblocks c2 \<le> nblocks c4" using 4(3) by (simp add: within_def leave_blk)
  have r5: "ready K V ?c5 fin" "within {b4} c4 ?c5" using leave_ready [OF 4(2)] n2 n4 blocks by auto
  let ?n = "cg_count ?c5" let ?phi = "LRes ?n (OpPHI LI1) []"
  let ?c6 = "emitted ?c5 fin (Suc ?n) [IVal ?phi, IIncoming ?phi x b2, IIncoming ?phi y b4]"
  note r6 = ready_emitted [OF r5(1), of "[IVal ?phi, IIncoming ?phi x b2, IIncoming ?phi y b4]" "Suc ?n"]
  have far: "b2 = b \<or> nblocks c + 2 \<le> b2" "b4 = nx \<or> nblocks c2 \<le> b4" "b2 \<noteq> b4"
    using 2(4) 4(4) n2 b blocks by (auto simp: leave_blk)
  have e2: "blk c2 z = []" if "nblocks c \<le> z" "z < nblocks c + 2" for z
    using within_blk [OF 2(3), of z] c b that by (auto simp: ready_def)
  have e3: "blk ?c3 nx = []" "blk ?c3 fin = []" using e2 far(1) b blocks by (auto simp: leave_blk)
  have e5: "blk ?c5 fin = []" using within_blk [OF 4(3), of fin] e3 far(2) n2 blocks by (auto simp: leave_blk)
  have "within {b} c ?c3"
    using far(1) by (intro within_trans [OF within_trans [OF new_blocks_ready(2) 2(3)] r3(2)]) auto
  then have "within {b} c ?c5"
    using far n2 blocks by (intro within_trans [OF within_trans [OF _ 4(3)] r5(2)]) auto
  then have w: "within {b} c ?c6" using blocks by (intro within_trans [OF _ r6(2)]) auto
  have "cg_point c2 = Some b2" "cg_point c4 = Some b4" using 2(2) 4(2) by (simp_all add: ready_def)
  with 2(1) 4(1) have run: "get_conditional_value L lhs rhs forAND c = Inr (?phi, ?c6)"
    unfolding get_conditional_value_def bind_assoc [symmetric]
    by (cases forAND)
      (simp_all add: create_run bindP_def [of "getM cg_point"] getM_def step_run leave_def run_emit blocks cong: lazy_binds)
  show thesis
    by (rule that [OF refl refl refl _ far(3) _ e3(1) 2(5) 4(5) r3(2) 4(3) r5(2) r6(2) w r6(1) run])
      (use r6(3) in \<open>unfold e5 append_Nil\<close>, simp_all)
qed

lemma decides_conditional:
  fixes lhs rhs :: "('db cg, llval option) st"
  assumes S: "setting L M V" and l: "decides L M K V (bindP lhs (to_i1 L)) evl" and r: "decides L M K V (bindP rhs (to_i1 L)) evr"
    and ev: "\<And>env. ev env = (case evl env of None \<Rightarrow> None | Some (a, env1) \<Rightarrow> if a = forAND then evr env1 else Some (a, env1))"
  shows "decides L M K V (get_conditional_value L lhs rhs forAND) ev"
  unfolding decides_def
proof (intro allI impI)
  fix c :: "'db cg" and b
  assume c: "ready K V c b"
  let ?nx = "nblocks c" let ?fin = "Suc ?nx"
  from conditional_parts [OF l r c refl refl, of forAND] obtain x y phi n c1 c2 b2 c3 c4 b4 c5 c6 where
    def: "c3 = leave c2 b2 (ICondBr x (if forAND then ?nx else ?fin) (if forAND then ?fin else ?nx)) ?nx"
      "c5 = leave c4 b4 (IBr ?fin) ?fin" and phi: "phi = LRes n (OpPHI LI1) []"
      "blk c6 ?fin = [IVal phi, IIncoming phi x b2, IIncoming phi y b4]" "b2 \<noteq> b4"
    and blks: "blk c1 b = blk c b" "blk c3 ?nx = []" and tests: "tests M V c1 b c2 b2 x evl" "tests M V c3 ?nx c4 b4 y evr"
    and w: "within {b2} c2 c3" "within {?nx} c3 c4" "within {b4} c4 c5" "within {?fin} c5 c6" "within {b} c c6"
    and res: "ready K V c6 ?fin" "get_conditional_value L lhs rhs forAND c = Inr (phi, c6)" .
  have "tests M V c b c6 ?fin phi ev"
    unfolding tests_def
  proof (intro allI impI)
    fix F s env tr env'
    assume F: "extends F c6" and h: "holds M V s env" and e: "ev env = Some (tr, env')"
    have ext: "extends F c5" "extends F c4" "extends F c3" "extends F c2"
      using within_extends [OF w(4) F] within_extends [OF w(3)] within_extends [OF w(2)] within_extends [OF w(1)] by blast+
    have pre: "prefix [IVal phi, IIncoming phi x b2, IIncoming phi y b4] (F ?fin)" using F phi(2) by (metis extends_def)
    note enter = phi_run [where F = F and fin = ?fin, OF S phi(1,3) pre]
    from e obtain a env1 where a: "evl env = Some (a, env1)" "(if a = forAND then evr env1 else Some (a, env1)) = Some (tr, env')"
      by (auto simp: ev split: option.splits)
    with tests(1) ext(4) h obtain s1 where s1: "runs M F ((b, length (blk c b)), s) ((b2, length (blk c2 b2)), s1)"
      "holds M V s1 env1" "m_val M s1 x \<noteq> 0 \<longleftrightarrow> a" unfolding tests_def blks(1) by blast
    let ?z = "if a = forAND then ?nx else ?fin"
    have "runs M F ((b2, length (blk c2 b2)), s1) ((?z, 0), m_enter M (F ?z) b2 s1)"
      by (rule runs_choice [of "blk c2 b2" x _ _ F b2, OF leave_extends [OF ext(3) [unfolded def]]]) (auto simp: s1(3))
    note go = runs_trans [OF s1(1) this]
    have "\<exists>s'. runs M F ((b, length (blk c b)), s) ((?fin, 3), s') \<and> holds M V s' env' \<and> (m_val M s' phi \<noteq> 0 \<longleftrightarrow> tr)"
    proof (cases "a = forAND")
      case False
      with a(2) have t: "tr = a" "env' = env1" by auto
      from enter [of b2 x s1 env1] s1(2) obtain s' where s': "runs M F ((?fin, 0), m_enter M (F ?fin) b2 s1) ((?fin, 3), s')"
        "holds M V s' env1" "m_val M s' phi = m_val M s1 x" by blast
      have "runs M F ((b, length (blk c b)), s) ((?fin, 0), m_enter M (F ?fin) b2 s1)" using go False by simp
      note runs_trans [OF this s'(1)]
      moreover have "m_val M s' phi \<noteq> 0 \<longleftrightarrow> tr" using s'(3) s1(3) t(1) by simp
      ultimately show ?thesis using s'(2) unfolding t(2) by blast
    next
      case True
      let ?s2 = "m_enter M (F ?nx) b2 s1"
      have "evr env1 = Some (tr, env')" "holds M V ?s2 env1" using a(2) True s1(2) holds_enter [OF S] by auto
      with tests(2) ext(2) obtain s3 where s3: "runs M F ((?nx, 0), ?s2) ((b4, length (blk c4 b4)), s3)"
        "holds M V s3 env'" "m_val M s3 y \<noteq> 0 \<longleftrightarrow> tr" unfolding tests_def blks(2) list.size by blast
      note br = runs_br [of "blk c4 b4" ?fin F b4 M s3, OF leave_extends [OF ext(1) [unfolded def]]]
      have s4: "runs M F ((b, length (blk c b)), s) ((?fin, 0), m_enter M (F ?fin) b4 s3)"
        using runs_trans [OF runs_trans [OF _ s3(1)] br] go True by simp
      from enter [of b4 y s3 env'] s3(2) obtain s' where s': "runs M F ((?fin, 0), m_enter M (F ?fin) b4 s3) ((?fin, 3), s')"
        "holds M V s' env'" "m_val M s' phi = m_val M s3 y" by blast
      note runs_trans [OF s4 s'(1)]
      moreover have "m_val M s' phi \<noteq> 0 \<longleftrightarrow> tr" using s'(3) s3(3) by simp
      ultimately show ?thesis using s'(2) by blast
    qed
    then show "\<exists>s'. runs M F ((b, length (blk c b)), s) ((?fin, length (blk c6 ?fin)), s') \<and> holds M V s' env' \<and> (m_val M s' phi \<noteq> 0 \<longleftrightarrow> tr)"
      by (simp add: phi(2) numeral_3_eq_3)
  qed
  moreover have "getType L phi = LI1" using setting_parts(1) [OF S] by (simp add: llvm_types_def phi(1))
  ultimately show "\<exists>x c' b'. get_conditional_value L lhs rhs forAND c = Inr (x, c') \<and> getType L x = LI1 \<and> ready K V c' b' \<and>
      within {b} c c' \<and> (b' = b \<or> nblocks c \<le> b') \<and> tests M V c b c' b' x ev"
    using res w(5) by (intro exI [of _ phi] exI [of _ c6] exI [of _ ?fin]) simp
qed

lemma bindP_Some: "bindP (bindM m (\<lambda>x. returnM (Some x))) returnM = m"
  by (auto simp: bindP_def bindM_def needM_def returnM_def bindE_def fun_eq_iff split: sum.splits)

lemma decides_comparison:
  assumes S: "setting L M V" and e: "op \<in> comparison" "int_expr V l" "int_expr V r"
  shows "decides L M K V (bindP (get_value L p (BinaryExpression t op l r)) returnM :: ('db cg, llval) st)
    (\<lambda>env. eval_cond env (BinaryExpression t op l r))"
proof (rule decides_emitted)
  fix c :: "'db cg" and b
  assume "ready K V c b"
  then have "has_slots V c" "cg_point c = Some b" by (auto simp: ready_def)
  from comparison_code [OF S e this, of p t] obtain x n "is" where
    x: "get_value L p (BinaryExpression t op l r) c = Inr (Some x, emitted c b n is)"
      "computes L M V (cg_count c) n is x LI1
        (\<lambda>env. map_option (\<lambda>(t, env1). (if t then 1 else 0, env1)) (eval_cond env (BinaryExpression t op l r)))" by blast
  from x(1) have "bindP (get_value L p (BinaryExpression t op l r)) returnM c = Inr (x, emitted c b n is)"
    by (simp add: bindP_def step_run del: get_value.simps)
  with x(2) show "\<exists>x n is. bindP (get_value L p (BinaryExpression t op l r)) returnM c = Inr (x, emitted c b n is) \<and>
      computes L M V (cg_count c) n is x LI1
        (\<lambda>env. map_option (\<lambda>(t, env1). (if t then 1 else 0, env1)) (eval_cond env (BinaryExpression t op l r)))"
    by blast
qed

lemma cond_decides:
  "setting L M V \<Longrightarrow> cond_expr V e \<Longrightarrow>
   decides L M K V (bindP (get_value L p e) returnM :: ('db cg, llval) st) (\<lambda>env. eval_cond env e)"
proof (induction V e arbitrary: p rule: cond_expr.induct)
  case (1 V t op l r)
  show ?case
  proof (cases "op \<in> conditional")
    case True
    then have op: "op = OP_CONDITIONAL_AND \<or> op = OP_CONDITIONAL_OR" "op \<notin> comparison"
      by (auto simp: conditional_def comparison_def)
    have "decides L M K V (bindP (get_value L (p @ [0]) l) (to_i1 L) :: ('db cg, llval) st) (\<lambda>env. eval_cond env l)"
      "decides L M K V (bindP (get_value L (p @ [1]) r) (to_i1 L) :: ('db cg, llval) st) (\<lambda>env. eval_cond env r)"
      using 1 True op(2) by (auto intro: decides_int decides_to_i1)
    from decides_conditional [OF "1.prems"(1) \<open>decides L M K V (bindP (get_value L (p @ [0]) l) (to_i1 L)) _\<close>
        \<open>decides L M K V (bindP (get_value L (p @ [1]) r) (to_i1 L)) _\<close>, of "\<lambda>env. eval_cond env (BinaryExpression t op l r)" "op = OP_CONDITIONAL_AND"]
    show ?thesis using True op(1) by (simp add: bindP_Some)
  next
    case False
    with "1.prems"(2) have "op \<in> comparison" "int_expr V l" "int_expr V r" by auto
    then show ?thesis by (rule decides_comparison [OF "1.prems"(1)])
  qed
qed simp_all

lemma truth_decides:
  "setting L M V \<Longrightarrow> cond_expr V e \<or> int_expr V e \<Longrightarrow>
   decides L M K V (bindP (get_value L p e) (to_i1 L) :: ('db cg, llval) st) (\<lambda>env. eval_cond env e)"
  using cond_decides decides_int decides_to_i1 by blast

section \<open>Statements\<close>

lemma If_run:
  assumes "bindP cond (to_i1 L) (new_blocks [''true_blk'', ''false_blk'', ''fin''] c) = Inr (x, c2)"
    "t (leave c2 b2 (ICondBr x (nblocks c) (Suc (nblocks c))) (nblocks c)) = Inr ((), c4)"
    "f (leave c4 b4 (IBr (Suc (Suc (nblocks c)))) (Suc (nblocks c))) = Inr ((), c6)"
    "ready K V c2 b2" "ready K V c4 b4" "ready K V c6 b6"
  shows "If_codegen L cond t f c = Inr ((), leave c6 b6 (IBr (Suc (Suc (nblocks c)))) (Suc (Suc (nblocks c))))"
proof -
  have "cg_point c2 = Some b2" "cg_point c4 = Some b4" "cg_point c6 = Some b6"
    using assms(4-6) by (simp_all add: ready_def)
  with assms(1-3) show ?thesis
    unfolding If_codegen_def to_i1_def [symmetric] bind_assoc [symmetric]
    by (simp add: create_run step_run leave_def cong: lazy_binds)
qed

text \<open>The states an \<open>if\<close> passes through.\<close>

lemma If_parts:
  fixes t f :: "('db cg, unit) st" and c :: "'db cg"
  assumes e: "decides L M K V (bindP cond (to_i1 L)) ev" and t: "sim M K V t RT" and f: "sim M K V f RF" and r: "ready K V c b"
  obtains x c1 c2 b2 c3 c4 b4 c5 c6 b6 c7 where
    "c3 = leave c2 b2 (ICondBr x (nblocks c) (Suc (nblocks c))) (nblocks c)"
    "c5 = leave c4 b4 (IBr (Suc (Suc (nblocks c)))) (Suc (nblocks c))"
    "c7 = leave c6 b6 (IBr (Suc (Suc (nblocks c)))) (Suc (Suc (nblocks c)))"
    "blk c1 b = blk c b" "tests M V c1 b c2 b2 x ev"
    "within {b2} c2 c3" "within {nblocks c} c3 c4" "within {b4} c4 c5" "within {Suc (nblocks c)} c5 c6" "within {b6} c6 c7"
    "reaches M V c3 (nblocks c) c4 b4 RT" "reaches M V c5 (Suc (nblocks c)) c6 b6 RF"
    "blk c3 (nblocks c) = []" "blk c5 (Suc (nblocks c)) = []" "blk c7 (Suc (Suc (nblocks c))) = []"
    "ready K V c7 (Suc (Suc (nblocks c)))" "within {b} c c7" "If_codegen L cond t f c = Inr ((), c7)"
proof -
  let ?tb = "nblocks c" let ?fb = "Suc ?tb" let ?fin = "Suc ?fb"
  let ?c1 = "new_blocks [''true_blk'', ''false_blk'', ''fin''] c"
  have b: "b < nblocks c" using r by (simp add: ready_def)
  have r1: "ready K V ?c1 b" by (rule new_blocks_ready(1) [OF r])
  from e r1 obtain x c2 b2 where 2: "bindP cond (to_i1 L) ?c1 = Inr (x, c2)" "ready K V c2 b2" "within {b} ?c1 c2"
    "b2 = b \<or> nblocks ?c1 \<le> b2" "tests M V ?c1 b c2 b2 x ev" unfolding decides_def by blast
  let ?c3 = "leave c2 b2 (ICondBr x ?tb ?fb) ?tb"
  have nb: "nblocks c + 3 \<le> nblocks c2" using 2(3) by (simp add: within_def)
  have r3: "ready K V ?c3 ?tb" "within {b2} c2 ?c3" using leave_ready [OF 2(2)] nb by auto
  from t r3(1) obtain c4 b4 where 4: "t ?c3 = Inr ((), c4)" "ready K V c4 b4" "within {?tb} ?c3 c4"
    "b4 = ?tb \<or> nblocks ?c3 \<le> b4" "reaches M V ?c3 ?tb c4 b4 RT" unfolding sim_def by blast
  let ?c5 = "leave c4 b4 (IBr ?fin) ?fb"
  have n4: "nblocks c + 3 \<le> nblocks c4" using 4(3) nb by (simp add: within_def leave_blk)
  have r5: "ready K V ?c5 ?fb" "within {b4} c4 ?c5" using leave_ready [OF 4(2)] n4 by auto
  from f r5(1) obtain c6 b6 where 6: "f ?c5 = Inr ((), c6)" "ready K V c6 b6" "within {?fb} ?c5 c6"
    "b6 = ?fb \<or> nblocks ?c5 \<le> b6" "reaches M V ?c5 ?fb c6 b6 RF" unfolding sim_def by blast
  let ?c7 = "leave c6 b6 (IBr ?fin) ?fin"
  have n6: "nblocks c + 3 \<le> nblocks c6" using 6(3) n4 by (simp add: within_def leave_blk)
  have r7: "ready K V ?c7 ?fin" "within {b6} c6 ?c7" using leave_ready [OF 6(2)] n6 by auto
  have far: "b2 = b \<or> nblocks c + 3 \<le> b2" "b4 = ?tb \<or> nblocks c + 3 \<le> b4" "b6 = ?fb \<or> nblocks c + 3 \<le> b6"
    using 2(4) 4(4) 6(4) nb n4 by (auto simp: leave_blk)
  have "blk c2 y = []" if "nblocks c \<le> y" "y < nblocks c + 3" for y
    using r that b within_blk [OF 2(3), of y] by (auto simp: ready_def)
  then have e3: "blk ?c3 ?tb = []" "blk ?c3 ?fb = []" "blk ?c3 ?fin = []" using b far(1) by (auto simp: leave_blk)
  have e5: "blk ?c5 ?fb = []" "blk ?c5 ?fin = []"
    using within_blk [OF 4(3), of ?fb] within_blk [OF 4(3), of ?fin] far(2) e3 nb by (auto simp: leave_blk)
  have e7: "blk ?c7 ?fin = []"
    using within_blk [OF 6(3), of ?fin] far(3) e5 n4 by (auto simp: leave_blk)
  have "within {b} c ?c3"
    using far(1) by (intro within_trans [OF within_trans [OF new_blocks_ready(2) 2(3)] r3(2)]) auto
  then have "within {b} c c6"
    using far by (intro within_trans [OF within_trans [OF within_trans [OF _ 4(3)] r5(2)] 6(3)]) auto
  then have w: "within {b} c ?c7" using far by (intro within_trans [OF _ r7(2)]) auto
  note run = If_run [where cond = cond and t = t and f = f and c = c and x = x, OF 2(1) 4(1) 6(1) 2(2) 4(2) 6(2)]
  show thesis
    by (rule that [OF refl refl refl _ 2(5) r3(2) 4(3) r5(2) 6(3) r7(2) 4(5) 6(5) e3(1) e5(1) e7 r7(1) w run]) simp
qed

lemma sim_If:
  fixes t f :: "('db cg, unit) st"
  assumes S: "setting L M V" and e: "decides L M K V (bindP cond (to_i1 L)) ev" and t: "sim M K V t RT" and f: "sim M K V f RF"
    and R: "\<And>env env'. R env = Some env' \<Longrightarrow> \<exists>tr env1. ev env = Some (tr, env1) \<and>
      (if tr then RT env1 else RF env1) = Some env'"
  shows "sim M K V (If_codegen L cond t f) R"
  unfolding sim_def
proof (intro allI impI)
  fix c :: "'db cg" and b
  assume "ready K V c b"
  from If_parts [OF e t f this] obtain x c1 c2 b2 c3 c4 b4 c5 c6 b6 c7 where
    def: "c3 = leave c2 b2 (ICondBr x (nblocks c) (Suc (nblocks c))) (nblocks c)"
      "c5 = leave c4 b4 (IBr (Suc (Suc (nblocks c)))) (Suc (nblocks c))"
      "c7 = leave c6 b6 (IBr (Suc (Suc (nblocks c)))) (Suc (Suc (nblocks c)))"
    and comp: "blk c1 b = blk c b" "tests M V c1 b c2 b2 x ev"
    and w: "within {b2} c2 c3" "within {nblocks c} c3 c4" "within {b4} c4 c5" "within {Suc (nblocks c)} c5 c6" "within {b6} c6 c7"
    and parts: "reaches M V c3 (nblocks c) c4 b4 RT" "reaches M V c5 (Suc (nblocks c)) c6 b6 RF"
    and empty: "blk c3 (nblocks c) = []" "blk c5 (Suc (nblocks c)) = []" "blk c7 (Suc (Suc (nblocks c))) = []"
    and res: "ready K V c7 (Suc (Suc (nblocks c)))" "within {b} c c7" "If_codegen L cond t f c = Inr ((), c7)" .
  have "reaches M V c b c7 (Suc (Suc (nblocks c))) R"
    unfolding reaches_def
  proof (intro allI impI)
    fix F s env env'
    assume F: "extends F c7" and h: "holds M V s env" and "R env = Some env'"
    then obtain tr env1 where e: "ev env = Some (tr, env1)" "(if tr then RT env1 else RF env1) = Some env'"
      using R by blast
    have ext: "extends F c5" "extends F c3"
      using within_extends [OF w(5) F] within_extends [OF w(4)] within_extends [OF w(3)] within_extends [OF w(2)] by blast+
    from choose_run [OF S comp(2) ext(2) [unfolded def] w(1) [unfolded def] h e(1)] obtain s1 where
      s1: "runs M F ((b, length (blk c b)), s) ((if tr then nblocks c else Suc (nblocks c), 0), s1)" "holds M V s1 env1"
      by (auto simp: comp(1))
    have "\<exists>s'. runs M F ((if tr then nblocks c else Suc (nblocks c), 0), s1) ((Suc (Suc (nblocks c)), 0), s') \<and> holds M V s' env'"
      using part_run [OF S parts(1) ext(1) [unfolded def] w(3) [unfolded def] s1(2)]
        part_run [OF S parts(2) F [unfolded def] w(5) [unfolded def] s1(2)] e(2) empty(1,2) by (cases tr) auto
    with runs_trans [OF s1(1)]
    show "\<exists>s'. runs M F ((b, length (blk c b)), s) ((Suc (Suc (nblocks c)), length (blk c7 (Suc (Suc (nblocks c))))), s') \<and> holds M V s' env'"
      unfolding empty(3) list.size by blast
  qed
  with res show "\<exists>c' b'. If_codegen L cond t f c = Inr ((), c') \<and> ready K V c' b' \<and> within {b} c c' \<and>
      (b' = b \<or> nblocks c \<le> b') \<and> reaches M V c b c' b' R"
    by (intro exI [of _ c7] exI [of _ "Suc (Suc (nblocks c))"]) simp
qed

text \<open>The loop context is not part of the picture.\<close>

lemma ctx_simps [simp]:
  "blk (c\<lparr>cg_ctx := y\<rparr>) = blk c" "nblocks (c\<lparr>cg_ctx := y\<rparr>) = nblocks c" "nblocks (c\<lparr>cg_count := n\<rparr>) = nblocks c" "ready K V (c\<lparr>cg_ctx := y\<rparr>) b = ready K V c b"
  "extends F (c\<lparr>cg_ctx := y\<rparr>) = extends F c"
  by (simp_all add: blk_def [abs_def] nblocks_def ready_def has_defs extends_def)

lemma within_ctx:
  "within S (c\<lparr>cg_ctx := x\<rparr>) c' \<Longrightarrow> cx_loop y = cx_loop (cg_ctx c) \<Longrightarrow> within S c (c'\<lparr>cg_ctx := y\<rparr>)"
  by (simp add: within_def)

lemma loop_run:
  assumes cond: "\<And>s env tr env1. holds M V s env \<Longrightarrow> ev env = Some (tr, env1) \<Longrightarrow>
      \<exists>s1. runs M F ((bg, 0), s) ((if tr then bd else fi, 0), s1) \<and> holds M V s1 env1"
    and body: "\<And>s env env'. holds M V s env \<Longrightarrow> RB env = Some env' \<Longrightarrow>
      \<exists>s1. runs M F ((bd, 0), s) ((st, 0), s1) \<and> holds M V s1 env'"
    and step: "\<And>s env env'. holds M V s env \<Longrightarrow> RS env = Some env' \<Longrightarrow>
      \<exists>s1. runs M F ((st, 0), s) ((bg, 0), s1) \<and> holds M V s1 env'"
    and "holds M V s env" "run_loop k ev RB RS env = Some env'"
  shows "\<exists>s1. runs M F ((bg, 0), s) ((fi, 0), s1) \<and> holds M V s1 env'"
  using assms(4,5)
proof (induction k arbitrary: s env)
  case (Suc k)
  then obtain tr env1 where e1: "ev env = Some (tr, env1)" by (auto split: option.splits)
  from cond [OF Suc.prems(1) e1] obtain s1 where
    s1: "runs M F ((bg, 0), s) ((if tr then bd else fi, 0), s1)" "holds M V s1 env1" by blast
  show ?case
  proof (cases tr)
    case False
    with s1 e1 Suc.prems(2) show ?thesis by auto
  next
    case True
    with e1 Suc.prems(2) obtain env2 env3 where e2: "RB env1 = Some env2" "RS env2 = Some env3"
      "run_loop k ev RB RS env3 = Some env'"
      by (auto split: option.splits)
    from body [OF s1(2) e2(1)] obtain s2 where s2: "runs M F ((bd, 0), s1) ((st, 0), s2)" "holds M V s2 env2" by blast
    from step [OF s2(2) e2(2)] obtain s3 where s3: "runs M F ((st, 0), s2) ((bg, 0), s3)" "holds M V s3 env3" by blast
    from Suc.IH [OF s3(2) e2(3)] obtain s4 where s4: "runs M F ((bg, 0), s3) ((fi, 0), s4)" "holds M V s4 env'" by blast
    have "runs M F ((bg, 0), s) ((bd, 0), s1)" using s1(1) True by simp
    from runs_trans [OF runs_trans [OF runs_trans [OF this s2(1)] s3(1)] s4(1)] s4(2) show ?thesis by blast
  qed
qed simp

definition step_code :: "('db cg, llval option) st slot \<Rightarrow> ('db cg, unit) st" where
  "step_code step = (case step of Uninit \<Rightarrow> throwM Undefined | Null \<Rightarrow> returnM () | Ref v \<Rightarrow> bindM v (\<lambda>_. returnM ()))"

lemma For_run:
  fixes body :: "('db cg, unit) st" and c :: "'db cg"
  assumes "bindP cond returnM (leave (new_blocks [''for_begin'', ''for_body'', ''for_every'', ''for_finish''] c
        \<lparr>cg_ctx := enter_loop bg bd st fi (cg_ctx c)\<rparr>) b (IBr bg) bg) = Inr (x, c2)"
    "body (leave c2 b2 (ICondBr x bd fi) bd) = Inr ((), c4)" "step_code every (leave c4 b4 (IBr st) st) = Inr ((), c6)"
    "ready K V c b" "ready K V c2 b2" "ready K V c4 b4" "ready K V c6 b6"
    "cx_loop (cg_ctx c6) = \<lparr>lc_begin = bg, lc_body = bd, lc_every = st, lc_finish = fi\<rparr> # l"
    "bg = nblocks c" "bd = Suc bg" "st = Suc bd" "fi = Suc st"
  shows "For_codegen (returnM ()) (Ref cond) every body c =
    Inr ((), leave c6 b6 (IBr bg) fi\<lparr>cg_ctx := (cg_ctx c6)\<lparr>cx_loop := l\<rparr>\<rparr>)"
proof -
  have "cg_point c = Some b" "cg_point c2 = Some b2" "cg_point c4 = Some b4" "cg_point c6 = Some b6"
    using assms(4-7) by (simp_all add: ready_def)
  with assms(1-3,8-) show ?thesis
    by (simp add: For_codegen_def bindP_returnM [of cond "\<lambda>ret. log_ins (ICondBr ret x y)" for x y] create_run step_run leave_def step_code_def enter_loopM_def exit_loopM_def
        exit_loop_ctx_def cong: lazy_binds)
qed

text \<open>The states a \<open>for\<close> passes through.\<close>

lemma For_parts:
  fixes body :: "('db cg, unit) st" and c :: "'db cg"
  assumes e: "decides L M K V (bindP cond returnM) ev" and body: "sim M K V body RB" and step: "sim M K V (step_code every) RS"
    and r: "ready K V c b" and blocks: "bg = nblocks c" "bd = Suc bg" "st = Suc bd" "fi = Suc st"
  obtains x c1 c2 c2' b2 c3 c4 b4 c5 c6 b6 c7 ctx where
    "c2 = leave c1 b (IBr bg) bg" "c3 = leave c2' b2 (ICondBr x bd fi) bd"
    "c5 = leave c4 b4 (IBr st) st" "c7 = leave c6 b6 (IBr bg) fi" "blk c1 b = blk c b" "tests M V c2 bg c2' b2 x ev"
    "within {bg} c2 c2'" "within {b2} c2' c3" "within {bd} c3 c4" "within {b4} c4 c5" "within {st} c5 c6" "within {b6} c6 c7"
    "reaches M V c3 bd c4 b4 RB" "reaches M V c5 st c6 b6 RS"
    "blk c2 bg = []" "blk c3 bd = []" "blk c5 st = []" "blk c7 fi = []"
    "ready K V c7 fi" "within {b} c (c7\<lparr>cg_ctx := ctx\<rparr>)"
    "For_codegen (returnM ()) (Ref cond) every body c = Inr ((), c7\<lparr>cg_ctx := ctx\<rparr>)"
proof -
  let ?c1 = "new_blocks [''for_begin'', ''for_body'', ''for_every'', ''for_finish''] c\<lparr>cg_ctx := enter_loop bg bd st fi (cg_ctx c)\<rparr>"
  let ?c2 = "leave ?c1 b (IBr bg) bg"
  have b: "b < nblocks c" using r by (simp add: ready_def)
  have r1: "ready K V ?c1 b" using new_blocks_ready(1) [OF r] by simp
  have n1: "nblocks ?c1 = nblocks c + 4" by simp
  have r2: "ready K V ?c2 bg" "within {b} ?c1 ?c2" using leave_ready [OF r1] n1 blocks by auto
  from e r2(1) obtain x c2' b2 where 2: "bindP cond returnM ?c2 = Inr (x, c2')" "ready K V c2' b2" "within {bg} ?c2 c2'"
    "b2 = bg \<or> nblocks ?c2 \<le> b2" "tests M V ?c2 bg c2' b2 x ev" unfolding decides_def by blast
  let ?c3 = "leave c2' b2 (ICondBr x bd fi) bd"
  have n3: "nblocks c + 4 \<le> nblocks c2'" using 2(3) by (simp add: within_def leave_blk)
  have r3: "ready K V ?c3 bd" "within {b2} c2' ?c3" using leave_ready [OF 2(2)] n3 blocks by auto
  from body r3(1) obtain c4 b4 where 4: "body ?c3 = Inr ((), c4)" "ready K V c4 b4" "within {bd} ?c3 c4"
    "b4 = bd \<or> nblocks ?c3 \<le> b4" "reaches M V ?c3 bd c4 b4 RB" unfolding sim_def by blast
  let ?c5 = "leave c4 b4 (IBr st) st"
  have n4: "nblocks c + 4 \<le> nblocks c4" using 4(3) n3 by (simp add: within_def leave_blk)
  have r5: "ready K V ?c5 st" "within {b4} c4 ?c5" using leave_ready [OF 4(2)] n4 blocks by auto
  from step r5(1) obtain c6 b6 where 6: "step_code every ?c5 = Inr ((), c6)" "ready K V c6 b6" "within {st} ?c5 c6"
    "b6 = st \<or> nblocks ?c5 \<le> b6" "reaches M V ?c5 st c6 b6 RS" unfolding sim_def by blast
  let ?c7 = "leave c6 b6 (IBr bg) fi"
  have n6: "nblocks c + 4 \<le> nblocks c6" using 6(3) n4 by (simp add: within_def leave_blk)
  have r7: "ready K V ?c7 fi" "within {b6} c6 ?c7" using leave_ready [OF 6(2)] n6 blocks by auto
  have far: "b2 = bg \<or> nblocks c + 4 \<le> b2" "b4 = bd \<or> nblocks c + 4 \<le> b4" "b6 = st \<or> nblocks c + 4 \<le> b6"
    using 2(4) 4(4) 6(4) n3 n4 by (auto simp: leave_blk)
  have e2: "blk ?c2 y = []" if "nblocks c \<le> y" for y
    using r that b by (auto simp: leave_blk ready_def)
  have e3: "blk ?c3 y = []" if "bd \<le> y" "y < nblocks c + 4" for y
    using that e2 within_blk [OF 2(3), of y] far(1) blocks by (auto simp: leave_blk)
  have e5: "blk ?c5 st = []" "blk ?c5 fi = []"
    using within_blk [OF 4(3), of st] within_blk [OF 4(3), of fi] far(2) e3 n3 blocks by (auto simp: leave_blk)
  have e7: "blk ?c7 fi = []"
    using within_blk [OF 6(3), of fi] far(3) e5 n4 blocks by (auto simp: leave_blk)
  have "within (insert b {nblocks c..}) ?c1 ?c3"
    using far blocks by (intro within_trans [OF within_trans [OF within_mono [OF r2(2)] 2(3)] r3(2)]) auto
  then have w: "within (insert b {nblocks c..}) ?c1 c6"
    using far blocks by (intro within_trans [OF within_trans [OF within_trans [OF _ 4(3)] r5(2)] 6(3)]) auto
  then have w7: "within (insert b {nblocks c..}) ?c1 ?c7"
    using far blocks by (intro within_trans [OF _ r7(2)]) auto
  let ?ctx = "(cg_ctx c6)\<lparr>cx_loop := cx_loop (cg_ctx c)\<rparr>"
  have w8: "within {b} c (?c7\<lparr>cg_ctx := ?ctx\<rparr>)" using w7 by (simp add: within_def)
  have "cx_loop (cg_ctx c6) = \<lparr>lc_begin = bg, lc_body = bd, lc_every = st, lc_finish = fi\<rparr> # cx_loop (cg_ctx c)"
    using w by (simp add: within_def enter_loop_def)
  note run = For_run [where cond = cond and body = body and every = every and c = c and x = x, OF 2(1) 4(1) 6(1) r 2(2) 4(2) 6(2) this blocks]
  show thesis
    by (rule that [OF refl refl refl refl _ 2(5,3) r3(2) 4(3) r5(2) 6(3) r7(2) 4(5) 6(5) _ _ e5(1) e7 r7(1) w8 run])
      (use e2 e3 blocks in simp_all)
qed

lemma sim_For:
  fixes body :: "('db cg, unit) st"
  assumes S: "setting L M V" and e: "decides L M K V (bindP cond returnM) ev"
    and body: "sim M K V body RB" and step: "sim M K V (step_code every) RS"
    and R: "\<And>env env'. R env = Some env' \<Longrightarrow> \<exists>k. run_loop k ev RB RS env = Some env'"
  shows "sim M K V (For_codegen (returnM ()) (Ref cond) every body) R"
  unfolding sim_def
proof (intro allI impI)
  fix c :: "'db cg" and b
  assume "ready K V c b"
  let ?bg = "nblocks c" let ?bd = "Suc ?bg" let ?ev = "Suc ?bd" let ?fi = "Suc ?ev"
  from For_parts [OF e body step \<open>ready K V c b\<close> refl refl refl refl] obtain x c1 c2 c2' b2 c3 c4 b4 c5 c6 b6 c7 ctx where
    def: "c2 = leave c1 b (IBr ?bg) ?bg" "c3 = leave c2' b2 (ICondBr x ?bd ?fi) ?bd"
      "c5 = leave c4 b4 (IBr ?ev) ?ev" "c7 = leave c6 b6 (IBr ?bg) ?fi" "blk c1 b = blk c b"
    and tests: "tests M V c2 ?bg c2' b2 x ev"
    and w: "within {?bg} c2 c2'" "within {b2} c2' c3" "within {?bd} c3 c4" "within {b4} c4 c5" "within {?ev} c5 c6" "within {b6} c6 c7"
    and parts: "reaches M V c3 ?bd c4 b4 RB" "reaches M V c5 ?ev c6 b6 RS"
    and empty: "blk c2 ?bg = []" "blk c3 ?bd = []" "blk c5 ?ev = []" "blk c7 ?fi = []"
    and res: "ready K V c7 ?fi" "within {b} c (c7\<lparr>cg_ctx := ctx\<rparr>)"
      "For_codegen (returnM ()) (Ref cond) every body c = Inr ((), c7\<lparr>cg_ctx := ctx\<rparr>)" .
  have "reaches M V c b (c7\<lparr>cg_ctx := ctx\<rparr>) ?fi R"
    unfolding reaches_def
  proof (intro allI impI)
    fix F s env env'
    assume "extends F (c7\<lparr>cg_ctx := ctx\<rparr>)" and h: "holds M V s env" and "R env = Some env'"
    then obtain k where F: "extends F c7" and k: "run_loop k ev RB RS env = Some env'"
      using R by auto
    have ext: "extends F c5" "extends F c3" "extends F c2"
      using within_extends [OF w(6) F] within_extends [OF w(5)] within_extends [OF w(4)] within_extends [OF w(3)]
        within_extends [OF w(2)] within_extends [OF w(1)] by blast+
    let ?s = "m_enter M (F ?bg) b s"
    have "\<exists>s1. runs M F ((?bg, 0), ?s) ((?fi, 0), s1) \<and> holds M V s1 env'"
    proof (rule loop_run [OF _ _ _ _ k])
      show "\<exists>s1. runs M F ((?bg, 0), s) ((if tr then ?bd else ?fi, 0), s1) \<and> holds M V s1 env1"
        if "holds M V s env" "ev env = Some (tr, env1)" for s env tr env1
        using choose_run [OF S tests ext(2) [unfolded def(2)] w(2) [unfolded def(2)] that] by (simp add: empty)
      show "\<exists>s1. runs M F ((?bd, 0), s) ((?ev, 0), s1) \<and> holds M V s1 env'"
        if "holds M V s env" "RB env = Some env'" for s env env'
        using part_run [OF S parts(1) ext(1) [unfolded def(3)] w(4) [unfolded def(3)] that] by (simp add: empty)
      show "\<exists>s1. runs M F ((?ev, 0), s) ((?bg, 0), s1) \<and> holds M V s1 env'"
        if "holds M V s env" "RS env = Some env'" for s env env'
        using part_run [OF S parts(2) F [unfolded def(4)] w(6) [unfolded def(4)] that] by (simp add: empty)
      show "holds M V ?s env" using h holds_enter [OF S] by blast
    qed
    moreover have "runs M F ((b, length (blk c b)), s) ((?bg, 0), ?s)"
      using runs_br [of "blk c1 b" ?bg F b, OF leave_extends [OF ext(3) [unfolded def(1)]]] by (simp add: def(5))
    ultimately show "\<exists>s'. runs M F ((b, length (blk c b)), s) ((?fi, length (blk (c7\<lparr>cg_ctx := ctx\<rparr>) ?fi)), s') \<and> holds M V s' env'"
      unfolding ctx_simps empty(4) by (auto dest: runs_trans)
  qed
  with res show "\<exists>c' b'. For_codegen (returnM ()) (Ref cond) every body c = Inr ((), c') \<and> ready K V c' b' \<and>
      within {b} c c' \<and> (b' = b \<or> nblocks c \<le> b') \<and> reaches M V c b c' b' R"
    by (intro exI [of _ "c7\<lparr>cg_ctx := ctx\<rparr>"] exI [of _ ?fi]) simp
qed

lemma For_init: "For_codegen init cond step body = bindM init (\<lambda>_. For_codegen (returnM ()) cond step body)"
  by (simp add: For_codegen_def bindM_def returnM_def fun_eq_iff)

lemma sim_emitted:
  fixes m :: "('db cg, unit) st"
  assumes "\<And>c b. ready K V (c :: 'db cg) b \<Longrightarrow> \<exists>x n is. m c = Inr ((), emitted c b n is) \<and> computes L M V (cg_count c) n is x t ev"
  shows "sim M K V m (\<lambda>env. map_option snd (ev env))"
  unfolding sim_def
proof (intro allI impI)
  fix c :: "'db cg" and b
  assume r: "ready K V c b"
  from assms [OF r] obtain x n "is" where m: "m c = Inr ((), emitted c b n is)" "computes L M V (cg_count c) n is x t ev"
    by blast
  with ready_emitted [OF r] reaches_computes [OF m(2) r]
  show "\<exists>c' b'. m c = Inr ((), c') \<and> ready K V c' b' \<and> within {b} c c' \<and> (b' = b \<or> nblocks c \<le> b') \<and>
      reaches M V c b c' b' (\<lambda>env. map_option snd (ev env))"
    by blast
qed

lemma sim_expr:
  assumes "setting L M V" "int_expr V e"
  shows "sim M K V (bindM (get_value L p e) (\<lambda>_. returnM ()) :: ('db cg, unit) st) (\<lambda>env. map_option snd (eval_expr env e))"
proof (rule sim_emitted)
  fix c :: "'db cg" and b
  assume "ready K V c b"
  with expr_code [OF assms, of c b p] show "\<exists>x n is. bindM (get_value L p e) (\<lambda>_. returnM ()) c = Inr ((), emitted c b n is) \<and>
      computes L M V (cg_count c) n is x LI64 (\<lambda>env. eval_expr env e)"
    by (fastforce simp: ready_def bindM_def returnM_def)
qed

lemma computes_store:
  assumes S: "setting L M V" and v: "V n = Some v" and e: "computes L M V m k is x LI64 ev"
  shows "computes L M V m k (is @ [IStore x v]) x LI64 (\<lambda>env. map_option (\<lambda>(w, env1). (w, assign n w env1)) (ev env))"
  using e setting_parts(2,3) [OF S] v
  by (auto simp: computes_def llvm_exec_def intro: holds_store [OF S v])

lemma sim_Let:
  assumes S: "setting L M V" and e: "int_expr V e" and "V n \<noteq> None"
  shows "sim M K V (Let_codegen L p n e :: ('db cg, unit) st) (\<lambda>env. map_option (\<lambda>(w, env1). assign n w env1) (eval_expr env e))"
proof -
  from assms(3) obtain v where v: "V n = Some v" by auto
  have "sim M K V (Let_codegen L p n e :: ('db cg, unit) st) (\<lambda>env. map_option snd (map_option (\<lambda>(w, env1). (w, assign n w env1)) (eval_expr env e)))"
  proof (rule sim_emitted)
    fix c :: "'db cg" and b
    assume "ready K V c b"
    then have r: "has_slots V c" "cg_point c = Some b" by (auto simp: ready_def)
    with v have "cg_vars c n = Some (Some v)" by (simp add: has_slots_def)
    moreover from expr_code [OF S e r, of "p @ [0]"] obtain x k "is" where
      x: "get_value L (p @ [0]) e c = Inr (Some x, emitted c b k is)" "computes L M V (cg_count c) k is x LI64 (\<lambda>env. eval_expr env e)"
      by blast
    ultimately have "Let_codegen L p n e c = Inr ((), emitted c b k (is @ [IStore x v]))"
      using int_get_type [OF S e r(1)] r(2)
      by (simp add: Let_codegen_def bindP_def step_run vars_index_def pmap_index_def cong: lazy_binds)
    with computes_store [OF S v x(2)] show "\<exists>x k is. Let_codegen L p n e c = Inr ((), emitted c b k is) \<and>
        computes L M V (cg_count c) k is x LI64 (\<lambda>env. map_option (\<lambda>(w, env1). (w, assign n w env1)) (eval_expr env e))"
      by blast
  qed
  then show ?thesis by (simp add: option.map_comp comp_def case_prod_unfold)
qed

lemma print_arg_Some: "print_arg e = Some a \<Longrightarrow> \<exists>t u. e = FunctionCall t (VariableReference u ''print_int'') [a]"
  by (cases e rule: print_arg.cases) (auto split: if_splits)

lemma print_run:
  assumes S: "setting L M V" and x: "get_value L (p @ [1]) a c = Inr (Some x, emitted c b k is)" "getType L x = LI64"
    and r: "has_hosts c" "cg_point c = Some b"
  shows "get_value L p (FunctionCall t (VariableReference u ''print_int'') [a]) c =
    Inr (Some (LRes k (OpCall print_fn) [x]), emitted c b (Suc k) (is @ [IVal (LRes k (OpCall print_fn) [x])]))"
  using x r by (simp add: find_function_def has_hosts_def pass_argument_def isIntegerTy_def Let_def bindP_def step_run getM_def run_emit cong: lazy_binds)

lemma sim_print:
  assumes S: "setting L M V" and a: "int_expr V a"
  shows "sim M K V (bindM (get_value L p (FunctionCall t (VariableReference u ''print_int'') [a])) (\<lambda>_. returnM ()) :: ('db cg, unit) st)
    (\<lambda>env. map_option (\<lambda>(w, env1). put_out (Printed w) env1) (eval_expr env a))"
  unfolding sim_def
proof (intro allI impI)
  fix c :: "'db cg" and b
  assume r: "ready K V c b"
  then have c: "has_slots V c" "has_hosts c" "cg_point c = Some b" by (auto simp: ready_def)
  from expr_code [OF S a c(1,3), of "p @ [1]"] obtain x k "is" where x: "get_value L (p @ [1]) a c = Inr (Some x, emitted c b k is)"
    and comp: "computes L M V (cg_count c) k is x LI64 (\<lambda>env. eval_expr env a)" by blast
  let ?call = "IVal (LRes k (OpCall print_fn) [x])"
  let ?c' = "emitted c b (Suc k) (is @ [?call])"
  have "getType L x = LI64" using comp by (simp add: computes_def)
  note run = print_run [OF S x this c(2,3), of t u]
  have "reaches M V c b ?c' b (\<lambda>env. map_option (\<lambda>(w, env1). put_out (Printed w) env1) (eval_expr env a))"
    unfolding reaches_def
  proof (intro allI impI)
    fix F s env env'
    assume "extends F ?c'" and h: "holds M V s env" and e: "map_option (\<lambda>(w, env1). put_out (Printed w) env1) (eval_expr env a) = Some env'"
    then have pre: "prefix (blk c b @ is @ [?call]) (F b)" by (metis extends_def ready_emitted(3) [OF r])
    from e obtain w env1 where e1: "eval_expr env a = Some (w, env1)" "env' = put_out (Printed w) env1" by auto
    let ?s = "fold (m_exec M) is s"
    have x': "m_val M ?s x = w" "holds M V ?s env1" using comp h e1 by (auto simp: computes_def)
    have "holds M V (m_exec M ?call ?s) env'"
      using x' setting_parts(2,3) [OF S] by (auto simp: holds_def llvm_exec_def e1(2) put_out_def print_fn_def)
    moreover have "runs M F ((b, length (blk c b)), s) ((b, length (blk ?c' b)), m_exec M ?call ?s)"
      unfolding ready_emitted(3) [OF r] using runs_list [of "blk c b" "is @ [?call]" F b M s, OF pre] comp by (simp add: computes_def)
    ultimately show "\<exists>s'. runs M F ((b, length (blk c b)), s) ((b, length (blk ?c' b)), s') \<and> holds M V s' env'" by blast
  qed
  moreover have "bindM (get_value L p (FunctionCall t (VariableReference u ''print_int'') [a])) (\<lambda>_. returnM ()) c = Inr ((), ?c')"
    using run by (simp add: step_run del: get_value.simps)
  ultimately show "\<exists>c' b'. bindM (get_value L p (FunctionCall t (VariableReference u ''print_int'') [a])) (\<lambda>_. returnM ()) c = Inr ((), c') \<and>
      ready K V c' b' \<and> within {b} c c' \<and> (b' = b \<or> nblocks c \<le> b') \<and>
      reaches M V c b c' b' (\<lambda>env. map_option (\<lambda>(w, env1). put_out (Printed w) env1) (eval_expr env a))"
    using ready_emitted(1,2) [OF r] by blast
qed

section \<open>Rows\<close>

definition row_sign :: "llvm \<Rightarrow> nat \<Rightarrow> string" where
  "row_sign L n = ''{'' @ concat (replicate n (print_type L LI64 @ '','')) @ ''}''"

text \<open>The row an \<open>emit\<close> needs, if the statement at a node is one.\<close>

fun row_known :: "llvm \<Rightarrow> rows \<Rightarrow> path \<times> stmt \<Rightarrow> bool" where
  "row_known L K (q, Emit e) \<longleftrightarrow>
     (case row_elements e of
        Some es \<Rightarrow> (\<exists>i k. let n = length es; t = LStruct i (row_sign L n) (replicate n LI64)
                     in K q = Some (row_sign L n, t, LRes k (OpAlloca t ''emit_stack'') []))
      | None \<Rightarrow> False)"
| "row_known L K _ \<longleftrightarrow> True"

lemma row_elements_Some: "row_elements e = Some es \<Longrightarrow> \<exists>t. e = RowLiteral t es"
  by (cases e) auto

lemma row_signature:
  assumes "setting L M V" "has_slots V c"
  shows "list_all (int_expr V) es \<Longrightarrow>
    get_type_signature L es c = Inr (concat (replicate (length es) (print_type L LI64 @ '','')), c)"
  by (induction es) (simp_all add: int_get_type [OF assms(1) _ assms(2)] bindP_def monad_defs)

lemma row_get_type:
  assumes "setting L M V" "has_slots V c" "list_all (int_expr V) es" "cg_types c (row_sign L (length es)) = Some (Some t)"
  shows "get_type L (RowLiteral u es) c = Inr (Some t, c)"
  using row_signature [OF assms(1-3)] assms(4) by (simp add: monad_defs Let_def row_sign_def)

text \<open>The members from \<open>i\<close> on replaced.\<close>

fun replaced :: "nat \<Rightarrow> 'a list \<Rightarrow> 'a list \<Rightarrow> 'a list" where
  "replaced i [] ys = ys"
| "replaced i (x # xs) ys = replaced (Suc i) xs (ys[i := x])"

lemma replaced_take: "i + length xs = length ys \<Longrightarrow> replaced i xs ys = take i ys @ xs"
  by (induction i xs ys rule: replaced.induct) (auto simp: take_Suc_conv_app_nth)

definition builds :: "llvm \<Rightarrow> 's machine \<Rightarrow> (string \<rightharpoonup> llval) \<Rightarrow> nat \<Rightarrow> nat \<Rightarrow> ins list \<Rightarrow> nat \<Rightarrow> llval \<Rightarrow> llval \<Rightarrow>
    (env \<Rightarrow> (64 word list \<times> env) option) \<Rightarrow> bool" where
  "builds L M V m n is i a x ev \<longleftrightarrow>
     m \<le> n \<and> older n x \<and> list_all (\<lambda>i. \<not> is_terminator i) is \<and>
     (\<forall>s env ws env'. holds M V s env \<longrightarrow> ev env = Some (ws, env') \<longrightarrow>
        m_agg M (fold (m_exec M) is s) x = replaced i ws (m_agg M s a) \<and> holds M V (fold (m_exec M) is s) env')"

lemma element_builds:
  assumes S: "setting L M V" and 1: "computes L M V m k i1 x LI64 ev" and 2: "computes L M V k n i2 y LI64 ev" and a: "older m a"
  shows "builds L M V m (Suc n) (i1 @ i2 @ [IVal (LRes n (OpInsertValue i) [a, y])]) i a (LRes n (OpInsertValue i) [a, y])
    (\<lambda>env. case ev env of None \<Rightarrow> None | Some (_, env1) \<Rightarrow> map_option (\<lambda>(w, env2). ([w], env2)) (ev env1))"
  unfolding builds_def
proof (intro conjI allI impI)
  fix s env ws env'
  assume h: "holds M V s env"
    and ev: "(case ev env of None \<Rightarrow> None | Some (_, env1) \<Rightarrow> map_option (\<lambda>(w, env2). ([w], env2)) (ev env1)) = Some (ws, env')"
  then obtain v env1 w where e: "ev env = Some (v, env1)" "ev env1 = Some (w, env')" "ws = [w]"
    by (auto split: option.splits)
  let ?s1 = "fold (m_exec M) i1 s" let ?s2 = "fold (m_exec M) i2 ?s1"
  have "holds M V ?s1 env1" "m_agg M ?s1 a = m_agg M s a" using 1 h e(1) a by (auto simp: computes_def)
  moreover from this have "holds M V ?s2 env'" "m_val M ?s2 y = w" "m_agg M ?s2 a = m_agg M s a"
    using 1 2 e(2) older_mono [OF a, of k] by (auto simp: computes_def)
  ultimately show "m_agg M (fold (m_exec M) (i1 @ i2 @ [IVal (LRes n (OpInsertValue i) [a, y])]) s) (LRes n (OpInsertValue i) [a, y]) =
      replaced i ws (m_agg M s a)"
    "holds M V (fold (m_exec M) (i1 @ i2 @ [IVal (LRes n (OpInsertValue i) [a, y])]) s) env'"
    using setting_parts(2) [OF S] exec_value [OF S, of "OpInsertValue i" ?s2 env' n "[a, y]"]
    by (simp_all add: e(3) llvm_exec_def exec_rows_def Let_def)
qed (use 1 2 in \<open>auto simp: computes_def\<close>)

lemma row_code:
  assumes S: "setting L M V"
  shows "list_all (int_expr V) es \<Longrightarrow> has_slots V c \<Longrightarrow> cg_point c = Some b \<Longrightarrow> older (cg_count c) a \<Longrightarrow>
    \<exists>x n is. row_value L p i es a c = Inr (x, emitted c b n is) \<and> builds L M V (cg_count c) n is i a x (\<lambda>env. eval_row env es)"
proof (induction es arbitrary: i a c)
  case Nil
  then show ?case by (intro exI [of _ a] exI [of _ "cg_count c"] exI [of _ "[]"]) (simp add: builds_def returnM_def)
next
  case (Cons e es)
  from expr_code [OF S _ Cons.prems(2,3), of e "p @ [i]"] Cons.prems(1) obtain x k i1 where
    1: "get_value L (p @ [i]) e c = Inr (Some x, emitted c b k i1)" "computes L M V (cg_count c) k i1 x LI64 (\<lambda>env. eval_expr env e)"
    by auto
  from expr_code [OF S, of e "emitted c b k i1" b "p @ [i]"] Cons.prems obtain y n i2 where
    2: "get_value L (p @ [i]) e (emitted c b k i1) = Inr (Some y, emitted c b n (i1 @ i2))"
      "computes L M V k n i2 y LI64 (\<lambda>env. eval_expr env e)" by (auto simp: has_slots_def)
  let ?v = "LRes n (OpInsertValue i) [a, y]"
  let ?c = "emitted c b (Suc n) (i1 @ i2 @ [IVal ?v])"
  note el = element_builds [OF S 1(2) 2(2) Cons.prems(4), of i]
  have "\<not> isPointerTy (getType L x)" using 1(2) by (simp add: computes_def)
  with 1(1) 2(1) Cons.prems(3) have run: "insert_element L (get_value L (p @ [i]) e) i a c = Inr (?v, ?c)"
    by (simp add: insert_element_def bindP_def monad_defs run_emit)
  from Cons.IH [of ?c ?v "Suc i"] Cons.prems obtain z m i3 where
    3: "row_value L p (Suc i) es ?v ?c = Inr (z, emitted c b m ((i1 @ i2 @ [IVal ?v]) @ i3))"
      "builds L M V (Suc n) m i3 (Suc i) ?v z (\<lambda>env. eval_row env es)" by (auto simp: has_slots_def)
  have "builds L M V (cg_count c) m ((i1 @ i2 @ [IVal ?v]) @ i3) i a z (\<lambda>env. eval_row env (e # es))"
    unfolding builds_def
  proof (intro conjI allI impI)
    fix s env ws env'
    assume h: "holds M V s env" and ev: "eval_row env (e # es) = Some (ws, env')"
    then obtain v env1 w env2 us where e: "eval_expr env e = Some (v, env1)" "eval_expr env1 e = Some (w, env2)"
      "eval_row env2 es = Some (us, env')" "ws = w # us" by (auto split: option.splits)
    let ?s = "fold (m_exec M) (i1 @ i2 @ [IVal ?v]) s"
    have s: "m_agg M ?s ?v = (m_agg M s a)[i := w]" "holds M V ?s env2"
      using el h e(1,2) unfolding builds_def by fastforce+
    with 3(2) e(3) have "m_agg M (fold (m_exec M) i3 ?s) z = replaced (Suc i) us ((m_agg M s a)[i := w]) \<and>
        holds M V (fold (m_exec M) i3 ?s) env'" unfolding builds_def by metis
    then show "m_agg M (fold (m_exec M) ((i1 @ i2 @ [IVal ?v]) @ i3) s) z = replaced i ws (m_agg M s a)"
      "holds M V (fold (m_exec M) ((i1 @ i2 @ [IVal ?v]) @ i3) s) env'" by (simp_all add: e(4))
  qed (use el 3(2) in \<open>auto simp: builds_def\<close>)
  moreover have "row_value L p i (e # es) a c = Inr (z, emitted c b m ((i1 @ i2 @ [IVal ?v]) @ i3))"
    using run 3(1) by (simp add: bindM_def)
  ultimately show ?case by blast
qed

lemma emit_size_ints: "llvm_types L \<Longrightarrow> emit_size L (replicate n LI64) = 8 * n"
  by (simp add: emit_size_def llvm_types_def map_replicate_const sum_list_replicate)

lemma Emit_run:
  assumes S: "setting L M V" and es: "list_all (int_expr V) es" and c: "ready K V c b"
    and t: "t = LStruct i (row_sign L (length es)) (replicate (length es) LI64)" "K p = Some (row_sign L (length es), t, v)"
    and x: "row_value L (p @ [0]) 0 es (LUndef t) c = Inr (x, emitted c b n is)"
  shows "Emit_codegen L p (RowLiteral u es) c = Inr ((), emitted c b (Suc (Suc n)) (is @ [IStore x v,
    IVal (LRes n (OpBitCast (LPtr LI8)) [v]),
    IVal (LRes (Suc n) (OpCall emit_fn) [LHostPtr ''ctx'', LRes n (OpBitCast (LPtr LI8)) [v], getInt64 (of_nat (8 * length es))])]))"
proof -
  from c have slots: "has_slots V c" "cg_point c = Some b" and hosts: "cg_functions c ''__emit_func'' = Some (Some emit_fn)"
    and rows: "cg_stack c p = Some (Some v)" "cg_types c (row_sign L (length es)) = Some (Some t)"
      "named_struct (row_sign L (length es)) c = Some t"
    using t(2) by (auto simp: ready_def has_hosts_def has_rows_def)
  let ?c = "emitted c b n is"
  have "get_type L (RowLiteral u es) c = Inr (Some t, c)" by (rule row_get_type [OF S slots(1) es rows(2)])
  moreover have "get_value L (p @ [0]) (RowLiteral u es) c = Inr (Some x, ?c)"
    using row_signature [OF S slots(1) es] rows(3) x
    by (simp add: monad_defs getTypeByName_def named_struct_def row_sign_def)
  moreover have "get_type L (RowLiteral u es) (emitted c b n (is @ [IStore x v])) = Inr (Some t, emitted c b n (is @ [IStore x v]))"
    by (rule row_get_type [OF S _ es]) (use slots(1) rows(2) in \<open>simp_all add: has_slots_def\<close>)
  moreover have "isStructTy t" by (simp add: t(1))
  ultimately show ?thesis
    using rows(1) hosts slots(2) setting_parts(1) [OF S]
    by (simp add: Emit_codegen_def bindP_def step_run stack_index_def functions_index_def pmap_index_def run_emit t(1)
        get_ptr_def emit_size_ints del: get_type.simps get_value.simps cong: lazy_binds)
qed

lemma eval_row_length: "eval_row env es = Some (ws, env') \<Longrightarrow> length ws = length es"
  by (induction es arbitrary: env ws) (auto split: option.splits)

lemma exec_row:
  assumes "llvm_exec M" "is_row k p"
  shows "m_row M (m_exec M (IStore x p) s) p = m_agg M s x"
    "is_slot q \<Longrightarrow> m_cell M (m_exec M (IStore x p) s) q = m_cell M s q" "m_out M (m_exec M (IStore x p) s) = m_out M s"
    "m_row M (m_exec M (IVal (LRes n (OpBitCast t) [v])) s) p = m_row M s p"
proof -
  have "exec_rows M" and out: "m_out M (m_exec M (IStore x p) s) = m_out M s" using assms(1) unfolding llvm_exec_def by simp_all
  with assms(2) show "m_row M (m_exec M (IStore x p) s) p = m_agg M s x"
    "is_slot q \<Longrightarrow> m_cell M (m_exec M (IStore x p) s) q = m_cell M s q" "m_out M (m_exec M (IStore x p) s) = m_out M s"
    "m_row M (m_exec M (IVal (LRes n (OpBitCast t) [v])) s) p = m_row M s p"
    unfolding exec_rows_def by blast+
qed

lemma exec_emit:
  assumes "llvm_exec M" "is_row k p" "fn_name f = ''__emit_func''" "unat w \<le> 8 * k"
    "call = IVal (LRes n (OpCall f) [c, LRes m (OpBitCast t) [p], getInt64 w])"
  shows "m_out M (m_exec M call s) = m_out M s @ [Emitted (take (unat w div 8) (m_row M s p))]"
    "is_slot q \<Longrightarrow> m_cell M (m_exec M call s) q = m_cell M s q"
proof -
  have "exec_rows M" using assms(1) unfolding llvm_exec_def by simp
  with assms(2-5) show "m_out M (m_exec M call s) = m_out M s @ [Emitted (take (unat w div 8) (m_row M s p))]"
    "is_slot q \<Longrightarrow> m_cell M (m_exec M call s) q = m_cell M s q" by (auto simp: exec_rows_def Let_def)
qed

lemma emit_effect:
  assumes S: "setting L M V" and "is_row k v" "holds M V s env" "m_agg M s x = ws" "length ws = k" "unat w = 8 * k"
  shows "holds M V (m_exec M (IVal (LRes m (OpCall emit_fn) [c, LRes n (OpBitCast t) [v], getInt64 w]))
    (m_exec M (IVal (LRes n (OpBitCast t) [v])) (m_exec M (IStore x v) s))) (put_out (Emitted ws) env)"
proof -
  note M = setting_parts(2) [OF S]
  let ?s1 = "m_exec M (IStore x v) s" let ?s2 = "m_exec M (IVal (LRes n (OpBitCast t) [v])) ?s1"
  have "holds M V ?s1 env" using assms(3) exec_row(2,3) [OF M assms(2)] setting_parts(3) [OF S] by (auto simp: holds_def)
  then have "holds M V ?s2 env" using exec_value [OF S, of "OpBitCast t"] by simp
  moreover have "m_row M ?s2 v = ws" using exec_row(1,4) [OF M assms(2)] assms(4) by simp
  moreover have "fn_name emit_fn = ''__emit_func''" by (simp add: emit_fn_def)
  ultimately show ?thesis
    using exec_emit [OF M assms(2) _ _ refl, of emit_fn w] assms(5,6) setting_parts(3) [OF S] by (auto simp: holds_def put_out_def)
qed

lemma sim_Emit:
  assumes S: "setting L M V" and e: "row_expr V e" and K: "row_known L K (p, Emit e)"
  shows "sim M K V (Emit_codegen L p e :: ('db cg, unit) st)
    (\<lambda>env. case row_elements e of Some es \<Rightarrow> map_option (\<lambda>(ws, env1). put_out (Emitted ws) env1) (eval_row env es) | None \<Rightarrow> None)"
proof -
  from e obtain es u where es: "e = RowLiteral u es" "list_all (int_expr V) es" "length es < 2 ^ 61"
    using row_elements_Some by (auto simp: row_expr_def split: option.splits)
  let ?n = "length es" let ?R = "\<lambda>env. map_option (\<lambda>(ws, env1). put_out (Emitted ws) env1) (eval_row env es)"
  from K es(1) obtain i k t v where t: "t = LStruct i (row_sign L ?n) (replicate ?n LI64)" "K p = Some (row_sign L ?n, t, v)"
    and v: "v = LRes k (OpAlloca t ''emit_stack'') []" by (auto simp: Let_def)
  have row: "is_row ?n v" by (auto simp: is_row_def v t(1))
  have size: "unat (of_nat (8 * ?n) :: 64 word) = 8 * ?n" using es(3) by (subst unat_of_nat) (simp add: take_bit_nat_eq_self)
  show ?thesis
    unfolding sim_def
  proof (intro allI impI)
    fix c :: "'db cg" and b
    assume r: "ready K V c b"
    then have c: "has_slots V c" "cg_point c = Some b" by (auto simp: ready_def)
    from row_code [OF S es(2) c, of "LUndef t" "p @ [0]" 0] obtain x n "is" where
      x: "row_value L (p @ [0]) 0 es (LUndef t) c = Inr (x, emitted c b n is)"
        "builds L M V (cg_count c) n is 0 (LUndef t) x (\<lambda>env. eval_row env es)" by auto
    let ?cast = "LRes n (OpBitCast (LPtr LI8)) [v]"
    let ?call = "LRes (Suc n) (OpCall emit_fn) [LHostPtr ''ctx'', ?cast, getInt64 (of_nat (8 * ?n))]"
    let ?is = "is @ [IStore x v, IVal ?cast, IVal ?call]"
    let ?c = "emitted c b (Suc (Suc n)) ?is"
    have "reaches M V c b ?c b ?R"
      unfolding reaches_def
    proof (intro allI impI)
      fix F s env env'
      assume "extends F ?c" and h: "holds M V s env" and ev: "?R env = Some env'"
      then have pre: "prefix (blk c b @ ?is) (F b)" by (metis extends_def ready_emitted(3) [OF r])
      from ev obtain ws env1 where e1: "eval_row env es = Some (ws, env1)" "env' = put_out (Emitted ws) env1" by auto
      let ?s = "fold (m_exec M) is s"
      have "m_agg M ?s x = replaced 0 ws (m_agg M s (LUndef t))" "holds M V ?s env1" using x(2) h e1(1) by (auto simp: builds_def)
      moreover have "length ws = ?n" using e1(1) by (rule eval_row_length)
      moreover have "length (m_agg M s (LUndef t)) = ?n" using setting_parts(2) [OF S] by (simp add: t(1) llvm_exec_def exec_rows_def)
      ultimately have s: "m_agg M ?s x = ws" "holds M V ?s env1" by (simp_all add: replaced_take)
      have "holds M V (fold (m_exec M) ?is s) env'"
        using emit_effect [OF S row s(2,1) \<open>length ws = ?n\<close> size, of "Suc n" "LHostPtr ''ctx''" n "LPtr LI8"] by (simp add: e1(2))
      moreover have "runs M F ((b, length (blk c b)), s) ((b, length (blk ?c b)), fold (m_exec M) ?is s)"
        unfolding ready_emitted(3) [OF r] using runs_list [of "blk c b" ?is F b M s, OF pre] x(2) by (simp add: builds_def)
      ultimately show "\<exists>s'. runs M F ((b, length (blk c b)), s) ((b, length (blk ?c b)), s') \<and> holds M V s' env'" by blast
    qed
    with Emit_run [OF S es(2) r t x(1), of u] ready_emitted(1,2) [OF r]
    show "\<exists>c' b'. Emit_codegen L p e c = Inr ((), c') \<and> ready K V c' b' \<and> within {b} c c' \<and> (b' = b \<or> nblocks c \<le> b') \<and>
        reaches M V c b c' b' (\<lambda>env. case row_elements e of
          Some es \<Rightarrow> map_option (\<lambda>(ws, env1). put_out (Emitted ws) env1) (eval_row env es) | None \<Rightarrow> None)"
      unfolding es(1) row_elements.simps option.case by blast
  qed
qed

lemma run_step_Ref: "run_step (Ref e) = (\<lambda>env. map_option snd (eval_expr env e))"
  by (simp add: fun_eq_iff)

lemma run_If:
  assumes "run_stmt k (stmt.If c t f) env = Some env'"
  shows "\<exists>tr env1. eval_cond env c = Some (tr, env1) \<and>
    (if tr then run_block k t env1 else case f of None \<Rightarrow> Some env1 | Some f' \<Rightarrow> run_block k f' env1) = Some env'"
proof (cases "eval_cond env c")
  case (Some r)
  obtain tr env1 where "r = (tr, env1)" by (cases r)
  with Some assms show ?thesis by (intro exI [of _ tr] exI [of _ env1]) (cases tr; simp)
qed (use assms in simp)

lemma leaf_visited: "leaf s \<Longrightarrow> each_statement_at p s = Inr [] \<and> leaf_inits s"
  by (cases s) auto

lemma core_sim:
  "setting L M V \<Longrightarrow> core_stmt V s \<Longrightarrow> leaf_inits s \<Longrightarrow> each_statement_at p s = Inr xs \<Longrightarrow> list_all (row_known L K) ((p, s) # xs) \<Longrightarrow>
   sim M K V (codegen L p s :: ('db cg, unit) st) (run_stmt k s)"
  "setting L M V \<Longrightarrow> list_all (core_stmt V) ss \<Longrightarrow> list_all leaf_inits ss \<Longrightarrow> block_statement_at p i ss = Inr xs \<Longrightarrow>
   list_all (row_known L K) xs \<Longrightarrow> sim M K V (block_codegen L p i ss :: ('db cg, unit) st) (run_block k ss)"
proof (induction L p s and L p i ss arbitrary: xs and xs rule: codegen_block_codegen.induct)
  case (1 L p ss)
  moreover have "run_stmt k (Block ss) = run_block k ss" by (simp add: fun_eq_iff)
  ultimately show ?case by simp
next
  case (4 L p init cond every body)
  from "4.prems"(2) obtain e where e: "cond = Ref e" "cond_expr V e" by (cases cond) auto
  from "4.prems"(4) obtain ys zs where
    y: "(case init of Uninit \<Rightarrow> Inl Undefined | Null \<Rightarrow> Inr [] | Ref i \<Rightarrow> Inr [(p @ [0], i)]) = Inr ys"
    and z: "block_statement_at (p @ [3]) 0 body = Inr zs" and xs: "xs = ys @ zs"
    by (auto simp: bindE_eq_Inr_iff)
  have step: "sim M K V (step_code (map_slot (get_value L (p @ [2])) every) :: ('db cg, unit) st) (run_step every)"
    using "4.prems" sim_expr [of L M V _ K "p @ [2]"]
    by (cases every) (auto simp: step_code_def map_slot_def run_step_Ref intro: sim_return)
  let ?init = "case init of Uninit \<Rightarrow> throwM Undefined | Null \<Rightarrow> returnM () | Ref i \<Rightarrow> codegen L (p @ [0]) i"
  have init: "sim M K V (?init :: ('db cg, unit) st) (\<lambda>env. case init of Uninit \<Rightarrow> None | Null \<Rightarrow> Some env | Ref i \<Rightarrow> run_stmt k i env)"
  proof (cases init)
    case (Ref i)
    with "4.prems" y have i: "leaf i" "core_stmt V i" "row_known L K (p @ [0], i)" by (auto simp: xs)
    from "4.IH"(1) [OF Ref "4.prems"(1) i(2), of "[]"] leaf_visited [OF i(1), of "p @ [0]"] i(3) Ref show ?thesis by simp
  qed (use "4.prems" in \<open>auto intro: sim_return\<close>)
  have body: "sim M K V (block_codegen L (p @ [3]) 0 body :: ('db cg, unit) st) (run_block k body)"
    using "4.IH"(2) [OF "4.prems"(1) _ _ z] "4.prems" by (simp add: xs)
  note loop = sim_For [OF "4.prems"(1) cond_decides [OF "4.prems"(1) e(2), of K "p @ [1]"] body step,
      of "run_loop k (\<lambda>v. eval_cond v e) (run_block k body) (run_step every)"]
  show ?case
    unfolding codegen.simps e(1) map_slot_def slot.case For_init [of ?init]
    by (rule sim_bind [OF init loop [unfolded map_slot_def]]) (auto simp: e(1) split: option.splits)
next
  case (6 L p e)
  moreover have "run_stmt k (Emit e) = (\<lambda>env. case row_elements e of Some es \<Rightarrow>
      map_option (\<lambda>(ws, env1). put_out (Emitted ws) env1) (eval_row env es) | None \<Rightarrow> None)" by (simp add: fun_eq_iff)
  ultimately show ?case using sim_Emit [of L M V e K p] by (simp del: row_known.simps)
next
  case (9 L p n ty e)
  then show ?case using sim_Let [of L M V e n K p] by simp
next
  case (11 L p c t f)
  from "11.prems"(4) obtain ys zs where y: "block_statement_at (p @ [1]) 0 t = Inr ys"
    and z: "(case f of None \<Rightarrow> Inr [] | Some f' \<Rightarrow> block_statement_at (p @ [2]) 0 f') = Inr zs" and xs: "xs = ys @ zs"
    by (auto simp: bindE_eq_Inr_iff)
  have f: "sim M K V ((case f of None \<Rightarrow> returnM () | Some f' \<Rightarrow> block_codegen L (p @ [2]) 0 f') :: ('db cg, unit) st)
      (\<lambda>env. case f of None \<Rightarrow> Some env | Some f' \<Rightarrow> run_block k f' env)"
    using "11.prems" "11.IH"(2) [OF _ "11.prems"(1)] z by (cases f) (auto simp: xs intro: sim_return)
  have t: "sim M K V (block_codegen L (p @ [1]) 0 t :: ('db cg, unit) st) (run_block k t)"
    using "11.IH"(1) [OF "11.prems"(1) _ _ y] "11.prems" by (simp add: xs)
  from "11.prems" have "cond_expr V c \<or> int_expr V c" by simp
  from sim_If [OF "11.prems"(1) truth_decides [OF "11.prems"(1) this] t f run_If] show ?case
    unfolding codegen.simps .
next
  case (12 L p e)
  show ?case
  proof (cases "print_arg e")
    case None
    with 12 show ?thesis using sim_expr [of L M V e K "p @ [0]"] by simp
  next
    case (Some a)
    with 12 print_arg_Some [OF Some] show ?thesis using sim_print [of L M V a K "p @ [0]"] by (auto simp del: get_value.simps)
  qed
next
  case (14 L p i s ss)
  from "14.prems"(4) obtain ys zs where y: "each_statement_at (p @ [i]) s = Inr ys"
    and z: "block_statement_at p (Suc i) ss = Inr zs" and xs: "xs = (p @ [i], s) # ys @ zs"
    by (auto simp: bindE_eq_Inr_iff)
  have "sim M K V (codegen L (p @ [i]) s :: ('db cg, unit) st) (run_stmt k s)"
    using "14.IH"(1) [OF "14.prems"(1) _ _ y] "14.prems" by (simp add: xs)
  moreover have "sim M K V (block_codegen L p (Suc i) ss :: ('db cg, unit) st) (run_block k ss)"
    using "14.IH"(2) [OF "14.prems"(1) _ _ z] "14.prems" by (simp add: xs)
  ultimately show ?case by (simp, intro sim_bind) (auto split: option.splits)
qed (auto intro: sim_return)

end
