(* ===== verification/Reir_Slots.thy ===== *)
theory Reir_Slots
  imports Reir_Simulation
begin

text \<open>
  Core programs before their code: analysis does not change what they mean, and the slot phase gives
  every variable and every emitted row a stack slot of its own.
\<close>

section \<open>Programs\<close>

text \<open>The variables a program declares; a core program uses no other.\<close>

fun let_names :: "stmt \<Rightarrow> string list" where
  "let_names (Block ss) = concat (map let_names ss)"
| "let_names (Transaction _ ss) = concat (map let_names ss)"
| "let_names (For init _ _ ss) = (case init of Ref i \<Rightarrow> let_names i | _ \<Rightarrow> []) @ concat (map let_names ss)"
| "let_names (Scan _ _ ss) = concat (map let_names ss)"
| "let_names (Let n _ _) = [n]"
| "let_names (If _ t f) = concat (map let_names t) @ (case f of None \<Rightarrow> [] | Some f' \<Rightarrow> concat (map let_names f'))"
| "let_names _ = []"

definition named :: "string list \<Rightarrow> string \<rightharpoonup> llval" where
  "named ns n = (if n \<in> set ns then Some (LConst LI64 0) else None)"

definition core_program :: "stmt \<Rightarrow> bool" where
  "core_program s \<longleftrightarrow> core_stmt (named (let_names s)) s \<and> leaf_inits s"

text \<open>The slots of the variables \<open>ns\<close> hold the values of an environment, and its output was made.\<close>

definition cells_hold :: "'s machine \<Rightarrow> 'db cg \<Rightarrow> string list \<Rightarrow> 's \<Rightarrow> env \<Rightarrow> bool" where
  "cells_hold M c ns st env \<longleftrightarrow> (\<forall>n \<in> set ns. \<exists>v. cg_vars c n = Some (Some v) \<and> m_cell M st v = env_vars env n) \<and>
     m_out M st = env_out env"

lemma core_dom:
  assumes "\<And>n. V n \<noteq> None \<Longrightarrow> W n \<noteq> None"
  shows "int_expr V e \<Longrightarrow> int_expr W e" "cond_expr V e \<Longrightarrow> cond_expr W e" "core_stmt V s \<Longrightarrow> core_stmt W s"
    "row_expr V e \<Longrightarrow> row_expr W e"
proof -
  show i: "int_expr V e \<Longrightarrow> int_expr W e" for e
    using assms by (induction V e rule: int_expr.induct) auto
  show c: "cond_expr V e \<Longrightarrow> cond_expr W e" for e
    by (induction e) (auto intro: i)
  show w: "row_expr V e \<Longrightarrow> row_expr W e" for e
    by (auto simp: row_expr_def list_all_iff intro: i split: option.splits)
  show "core_stmt V s \<Longrightarrow> core_stmt W s"
  proof (induction s rule: erase_stmt.induct)
    case (4 init cond every blk)
    then show ?case by (cases init; cases cond; cases every) (auto simp: list_all_iff intro: i c)
  next
    case (9 n t e)
    then show ?case using assms [of n] by (auto intro: i)
  next
    case (11 cond t f)
    then show ?case by (cases f) (auto simp: list_all_iff intro: i c)
  qed (auto simp: list_all_iff intro: i w split: option.splits)
qed

lemma erase_core_expr:
  "int_expr V (erase_expr e) = int_expr V e" "cond_expr V (erase_expr e) = cond_expr V e"
proof -
  show i: "int_expr V (erase_expr e) = int_expr V e" for e
  proof (induction e rule: erase_expr.induct)
    case (11 t a v)
    then show ?case by (cases a) auto
  qed auto
  then show "cond_expr V (erase_expr e) = cond_expr V e" by (induction e) auto
qed

lemma erase_print: "print_arg (erase_expr e) = map_option erase_expr (print_arg e)"
proof (cases "print_arg e")
  case None
  then show ?thesis by (cases e rule: print_arg.cases) (auto split: if_splits)
next
  case (Some a)
  from print_arg_Some [OF this] obtain t u where "e = FunctionCall t (VariableReference u ''print_int'') [a]" by blast
  then show ?thesis by simp
qed

lemma erase_row: "row_elements (erase_expr e) = map_option (map erase_expr) (row_elements e)" "row_expr V (erase_expr e) = row_expr V e"
  by (cases e; simp add: row_expr_def list_all_iff erase_core_expr)+

lemma erase_core: "core_stmt V (erase_stmt s) = core_stmt V s"
proof (induction s rule: erase_stmt.induct)
  case (4 init cond every blk)
  then show ?case by (cases init; cases cond; cases every) (auto simp: list_all_iff erase_core_expr)
next
  case (11 c t f)
  then show ?case by (cases f) (auto simp: list_all_iff erase_core_expr)
next
  case (12 e)
  then show ?case by (cases "print_arg e") (auto simp: erase_core_expr erase_print)
qed (auto simp: list_all_iff erase_core_expr erase_row)

lemma erase_leaf: "leaf (erase_stmt s) = leaf s"
  by (cases s) auto

lemma erase_parts: "leaf_inits (erase_stmt s) = leaf_inits s" "let_names (erase_stmt s) = let_names s"
proof -
  show "leaf_inits (erase_stmt s) = leaf_inits s"
  proof (induction s rule: erase_stmt.induct)
    case (4 init cond every blk)
    then show ?case by (cases init) (auto simp: list_all_iff erase_leaf)
  next
    case (11 c t f)
    then show ?case by (cases f) (auto simp: list_all_iff)
  qed (auto simp: list_all_iff)
  show "let_names (erase_stmt s) = let_names s"
  proof (induction s rule: erase_stmt.induct)
    case (4 init cond every blk)
    then show ?case by (cases init) (auto simp: comp_def cong: map_cong)
  next
    case (11 c t f)
    then show ?case by (cases f) (auto simp: comp_def cong: map_cong)
  qed (auto simp: comp_def cong: map_cong)
qed

lemma erase_eval: "eval_expr env (erase_expr e) = eval_expr env e" "eval_cond env (erase_expr e) = eval_cond env e"
proof -
  show v: "eval_expr env (erase_expr e) = eval_expr env e" for env e
  proof (induction e arbitrary: env rule: erase_expr.induct)
    case (3 t op l r)
    then show ?case by (auto split: option.splits)
  next
    case (11 t a v)
    then show ?case by (cases a) auto
  qed auto
  have erased: "eval_expr env (BinaryExpression None op (erase_expr l) (erase_expr r)) = eval_expr env (BinaryExpression t op l r)"
    for env t op l r using v [of env "BinaryExpression t op l r"] by simp
  show "eval_cond env (erase_expr e) = eval_cond env e"
  proof (induction e arbitrary: env)
    case (BinaryExpression t op l r)
    then show ?case by (auto simp: v erased [of env op l r t] simp del: eval_expr.simps split: option.splits)
  next
    case (Assign t a x)
    then show ?case using v [of env "Assign t a x"] by (simp del: eval_expr.simps)
  qed simp_all
qed

lemma erase_eval_row: "eval_row env (map erase_expr es) = eval_row env es"
  by (induction es arbitrary: env) (auto simp: erase_eval split: option.splits)

lemma erase_step: "run_step (erase_slot x) = run_step x"
  by (cases x) (auto simp: erase_eval fun_eq_iff)

lemma erase_block:
  "(\<And>s. s \<in> set ss \<Longrightarrow> run_stmt k (erase_stmt s) = run_stmt k s) \<Longrightarrow> run_block k (map erase_stmt ss) = run_block k ss"
proof (induction ss)
  case (Cons s ss)
  have "run_stmt k (erase_stmt s) = run_stmt k s" "run_block k (map erase_stmt ss) = run_block k ss"
    using Cons by auto
  then show ?case by (intro ext) (simp split: option.splits)
qed simp

lemma erase_run: "run_stmt k (erase_stmt s) = run_stmt k s"
proof (induction s rule: erase_stmt.induct)
  case (1 ss)
  from erase_block [of ss k] 1 show ?case by (simp add: fun_eq_iff)
next
  case (4 init cond every blk)
  from erase_block [of blk k] 4 have "run_block k (map erase_stmt blk) = run_block k blk" by simp
  with 4 show ?case by (intro ext, cases init; cases cond) (simp_all add: erase_eval erase_step split: option.splits)
next
  case (11 c t f)
  have "run_block k (map erase_stmt t) = run_block k t" "\<And>f'. f = Some f' \<Longrightarrow> run_block k (map erase_stmt f') = run_block k f'"
    using erase_block 11 by auto
  then show ?case by (cases f) (auto simp: erase_eval fun_eq_iff case_bool_if split: option.splits)
next
  case (12 e)
  then show ?case by (cases "print_arg e") (auto simp: erase_eval erase_print fun_eq_iff)
next
  case (6 e)
  then show ?case by (cases "row_elements e") (auto simp: erase_row erase_eval_row fun_eq_iff)
qed (auto simp: erase_eval fun_eq_iff)

section \<open>The slot phase\<close>

text \<open>Every variable has a slot of its own, and the slots were allocated in block \<open>b\<close>.\<close>

definition slotted :: "nat \<Rightarrow> 'db cg \<Rightarrow> bool" where
  "slotted b c \<longleftrightarrow> cg_point c = Some b \<and>
     (\<forall>n x. cg_vars c n = Some x \<longrightarrow> (\<exists>k nm. x = Some (LRes k (OpAlloca LI64 nm) []) \<and> k < cg_count c)) \<and>
     (\<forall>m n x. cg_vars c m = Some x \<longrightarrow> cg_vars c n = Some x \<longrightarrow> m = n)"

fun is_alloca :: "ins \<Rightarrow> bool" where
  "is_alloca (IVal (LRes _ (OpAlloca _ _) [])) = True"
| "is_alloca _ = False"

lemma is_alloca_iff: "is_alloca i \<longleftrightarrow> (\<exists>n t nm. i = IVal (LRes n (OpAlloca t nm) []))"
  by (cases i rule: is_alloca.cases) auto

definition grown :: "nat \<Rightarrow> 'db cg \<Rightarrow> 'db cg \<Rightarrow> bool" where
  "grown b c c' \<longleftrightarrow> cg_blocks c' = cg_blocks c \<and> cg_functions c' = cg_functions c \<and> dom (cg_stack c) \<subseteq> dom (cg_stack c') \<and>
     (\<exists>is. cg_code c' = cg_code c @ map (Pair b) is \<and> list_all is_alloca is)"

lemma grown_refl [simp]: "grown b c c"
  by (auto simp: grown_def intro!: exI [of _ "[]"])

lemma grown_trans: "grown b c c1 \<Longrightarrow> grown b c1 c2 \<Longrightarrow> grown b c c2"
  unfolding grown_def by (metis (no_types, lifting) append.assoc list_all_append map_append order.trans)

lemma int_type:
  assumes "slotted b c" "llvm_types L" "int_expr V e" "get_type L e c = Inr (t, c')"
  shows "t = Some LI64 \<and> c' = c"
  using assms(3,4)
proof (induction V e arbitrary: t c' rule: int_expr.induct)
  case (1 V u v)
  then show ?case by (auto simp: int_value_def PrimaryExpression_get_type_def monad_defs split: if_splits)
next
  case (2 V u n)
  then obtain x where x: "cg_vars c n = Some x" by (auto simp: VariableReference_get_type_def monad_defs split: option.splits)
  with assms(1) obtain k nm where "x = Some (LRes k (OpAlloca LI64 nm) [])" by (auto simp: slotted_def) blast
  with 2 x assms(2) show ?case by (auto simp: VariableReference_get_type_def monad_defs llvm_types_def)
next
  case (3 V u op l r)
  then show ?case by (auto simp: bindM_Inr split: if_splits)
qed auto

lemma int_values:
  "int_expr V e \<Longrightarrow> each_value_at p e = Inr xs \<Longrightarrow> list_all (\<lambda>(q, e). int_expr V e) xs"
  by (induction V e arbitrary: p xs rule: int_expr.induct) (auto simp: bindE_eq_Inr_iff)

lemma quiet_values:
  assumes "slotted b c" "llvm_types L"
  shows "list_all (\<lambda>(q, e). int_expr V e) xs \<Longrightarrow> eachM (value_alloca L) xs c = Inr (u, c') \<Longrightarrow> c' = c"
proof (induction xs)
  case (Cons x xs)
  obtain q e where x: "x = (q, e)" by (cases x)
  from Cons.prems(2) obtain v c1 where v: "value_alloca L x c = Inr (v, c1)" and r: "eachM (value_alloca L) xs c1 = Inr (u, c')"
    by (auto simp: bindM_Inr)
  from v obtain t c0 where "get_type L e c = Inr (t, c0)" by (auto simp: value_alloca_def x bindM_Inr)
  with int_type [OF assms, of V e] Cons.prems(1) x v have "c1 = c"
    by (auto simp: value_alloca_def bindM_Inr returnM_def)
  with Cons r show ?case by simp
qed (simp add: returnM_def)

lemma Let_slot:
  assumes "slotted b c" "get_type L e c = Inr (Some LI64, c)" "Let_alloca L n e c = Inr (u, c')"
  shows "slotted b c' \<and> grown b c c' \<and> cg_vars c' = (cg_vars c)(n \<mapsto> Some (LRes (cg_count c) (OpAlloca LI64 n) []))"
proof -
  from assms(1) have "cg_point c = Some b" by (simp add: slotted_def)
  with assms(2,3) have c': "c' = emitted c b (Suc (cg_count c)) [IVal (LRes (cg_count c) (OpAlloca LI64 n) [])]
      \<lparr>cg_vars := (cg_vars c)(n \<mapsto> Some (LRes (cg_count c) (OpAlloca LI64 n) []))\<rparr>"
    by (auto simp: Let_alloca_def bindP_def monad_defs run_emit set_vars_def)
  then have "grown b c c'" by (auto simp: grown_def intro!: exI [of _ "[IVal (LRes (cg_count c) (OpAlloca LI64 n) [])]"])
  moreover have "slotted b c'"
    using assms(1) unfolding c' slotted_def by (auto split: if_splits) (fastforce intro: less_SucI)+
  ultimately show ?thesis by (simp add: c')
qed

lemma print_type: "has_hosts c \<Longrightarrow> get_type L (FunctionCall t (VariableReference u ''print_int'') as) c = Inr (Some LVoid, c)"
  by (simp add: find_function_def has_hosts_def print_fn_def monad_defs)


section \<open>The slots of rows\<close>

text \<open>The struct type of a row is in the tables under its signature, or under no name at all.\<close>

definition row_struct :: "llvm \<Rightarrow> nat \<Rightarrow> llty \<Rightarrow> 'db cg \<Rightarrow> bool" where
  "row_struct L n t c \<longleftrightarrow> (\<exists>i. t = LStruct i (row_sign L n) (replicate n LI64)) \<and>
     cg_types c (row_sign L n) = Some (Some t) \<and> named_struct (row_sign L n) c = Some t"

definition typed_rows :: "llvm \<Rightarrow> 'db cg \<Rightarrow> bool" where
  "typed_rows L c \<longleftrightarrow> (\<forall>n. cg_types c (row_sign L n) = None \<and> named_struct (row_sign L n) c = None \<or> (\<exists>t. row_struct L n t c))"

lemma row_sign_inject [simp]: "row_sign L m = row_sign L n \<longleftrightarrow> m = n"
proof
  assume "row_sign L m = row_sign L n"
  then have "length (row_sign L m) = length (row_sign L n)" by simp
  then have "m * Suc (length (print_type L LI64)) = n * Suc (length (print_type L LI64))"
    by (simp add: row_sign_def length_concat sum_list_replicate)
  then show "m = n" by (simp del: mult_Suc_right)
qed simp

lemma row_typed:
  assumes "slotted b c" "llvm_types L" "list_all (int_expr V) es"
  shows "get_type_signature L es c = Inr (sg, c1) \<Longrightarrow>
      sg = concat (replicate (length es) (print_type L LI64 @ '','')) \<and> c1 = c"
    "element_types L es c = Inr (ts, c2) \<Longrightarrow> ts = replicate (length es) LI64 \<and> c2 = c"
  using assms(3)
proof (induction es arbitrary: sg c1 ts c2)
  case (Cons e es)
  case 1
  with Cons int_type [OF assms(1,2), of V e] show ?case by (fastforce simp: bindP_Inr bindM_Inr returnM_def)
next
  case (Cons e es)
  case 2
  with Cons int_type [OF assms(1,2), of V e] show ?case by (fastforce simp: bindP_Inr bindM_Inr returnM_def)
qed (simp_all add: returnM_def)

lemma find_append: "List.find P (xs @ ys) = (case List.find P xs of None \<Rightarrow> List.find P ys | Some x \<Rightarrow> Some x)"
  by (induction xs) auto

lemma row_struct_made:
  assumes "slotted b c" "llvm_types L" "list_all (int_expr V) es" "typed_rows L c"
    "get_type L (RowLiteral u es) c = Inr (r, c1)"
  shows "\<exists>t. r = Some t \<and> row_struct L (length es) t c1 \<and> typed_rows L c1 \<and>
    (\<forall>m t'. row_struct L m t' c \<longrightarrow> row_struct L m t' c1) \<and> (\<exists>ty st. c1 = c\<lparr>cg_types := ty, cg_structs := st\<rparr>)"
proof (cases "cg_types c (row_sign L (length es))")
  case None
  let ?n = "length es" let ?t = "LStruct (length (cg_structs c)) (row_sign L ?n) (replicate ?n LI64)"
  from assms(5) None obtain ts c2 sg where "element_types L es c = Inr (ts, c2)" "get_type_signature L es c = Inr (sg, c)"
    "r = Some (LStruct (length (cg_structs c2)) (row_sign L ?n) ts)"
    "c1 = c2\<lparr>cg_structs := cg_structs c2 @ [LStruct (length (cg_structs c2)) (row_sign L ?n) ts],
       cg_types := (cg_types c2)(row_sign L ?n \<mapsto> Some (LStruct (length (cg_structs c2)) (row_sign L ?n) ts))\<rparr>"
    using row_typed [OF assms(1-3)]
    by (auto simp: bindM_Inr getM_def Let_def row_sign_def StructType_create_def set_types_def modM_def returnM_def)
  then have c1: "r = Some ?t" "c1 = c\<lparr>cg_structs := cg_structs c @ [?t], cg_types := (cg_types c)(row_sign L ?n \<mapsto> Some ?t)\<rparr>"
    using row_typed(2) [OF assms(1-3)] by auto
  have no: "named_struct (row_sign L ?n) c = None" using assms(4) None unfolding typed_rows_def row_struct_def by fastforce
  have named: "named_struct (row_sign L m) c1 = (if m = ?n then Some ?t else named_struct (row_sign L m) c)" for m
    using no by (auto simp: named_struct_def c1(2) find_append split: option.splits)
  have types: "cg_types c1 (row_sign L m) = (if m = ?n then Some (Some ?t) else cg_types c (row_sign L m))" for m
    by (simp add: c1(2))
  have "row_struct L ?n ?t c1" by (simp add: row_struct_def named types)
  moreover have old: "row_struct L m t' c1" if "row_struct L m t' c" for m t'
    using that None by (auto simp: row_struct_def named types)
  moreover have "typed_rows L c1"
    unfolding typed_rows_def
  proof
    fix m
    from assms(4) [unfolded typed_rows_def, THEN spec [of _ m]] consider "cg_types c (row_sign L m) = None" "named_struct (row_sign L m) c = None" | t' where "row_struct L m t' c"
      by metis
    then show "cg_types c1 (row_sign L m) = None \<and> named_struct (row_sign L m) c1 = None \<or> (\<exists>t. row_struct L m t c1)"
      using \<open>row_struct L ?n ?t c1\<close> old by cases (auto simp: named types)
  qed
  moreover have "c1 = c\<lparr>cg_types := cg_types c1, cg_structs := cg_structs c1\<rparr>" by (simp add: c1(2))
  ultimately show ?thesis using c1(1) by blast
next
  case (Some x)
  with assms(4) obtain t where t: "row_struct L (length es) t c" unfolding typed_rows_def by (metis option.distinct(1))
  then have "x = Some t" using Some by (simp add: row_struct_def)
  with assms(5) Some obtain "r = Some t" "c1 = c"
    using row_typed(1) [OF assms(1-3)] by (auto simp: bindM_Inr getM_def Let_def row_sign_def returnM_def)
  moreover have "\<exists>ty st. c = c\<lparr>cg_types := ty, cg_structs := st\<rparr>"
    by (rule exI [of _ "cg_types c"], rule exI [of _ "cg_structs c"]) simp
  ultimately show ?thesis using t assms(4) by blast
qed

text \<open>
  A slot in the stack table belongs to the \<open>emit\<close> at its node; \<open>Q\<close> is the statement at a node.
\<close>

definition stacked :: "llvm \<Rightarrow> (path \<Rightarrow> stmt option) \<Rightarrow> 'db cg \<Rightarrow> bool" where
  "stacked L Q c \<longleftrightarrow> (\<forall>q e es x. Q q = Some (Emit e) \<longrightarrow> row_elements e = Some es \<longrightarrow> cg_stack c q = Some x \<longrightarrow>
     (\<exists>t k. row_struct L (length es) t c \<and> x = Some (LRes k (OpAlloca t ''emit_stack'') [])))"

definition placed :: "llvm \<Rightarrow> (path \<Rightarrow> stmt option) \<Rightarrow> nat \<Rightarrow> 'db cg \<Rightarrow> bool" where
  "placed L Q b c \<longleftrightarrow> slotted b c \<and> has_hosts c \<and> typed_rows L c \<and> stacked L Q c"

lemma placed_Let:
  assumes "placed L Q b c" "get_type L e c = Inr (Some LI64, c)" "Let_alloca L n e c = Inr (u, c')"
  shows "placed L Q b c' \<and> grown b c c' \<and> cg_vars c' = (cg_vars c)(n \<mapsto> Some (LRes (cg_count c) (OpAlloca LI64 n) []))"
proof -
  from assms(1) have p: "slotted b c" "cg_point c = Some b" by (simp_all add: placed_def slotted_def)
  note 1 = Let_slot [OF p(1) assms(2,3)]
  have "cg_types c' = cg_types c" "cg_structs c' = cg_structs c" "cg_stack c' = cg_stack c" "cg_functions c' = cg_functions c"
    using assms(2,3) p(2) by (auto simp: Let_alloca_def bindP_def monad_defs run_emit set_vars_def)
  with 1 assms(1) show ?thesis
    by (simp add: placed_def typed_rows_def stacked_def row_struct_def named_struct_def has_hosts_def)
qed

lemma slotted_more:
  assumes "slotted b c" "cg_point c' = cg_point c" "cg_vars c' = cg_vars c" "cg_count c \<le> cg_count c'"
  shows "slotted b c'"
  using assms(1) order.strict_trans2 [OF _ assms(4)] unfolding slotted_def assms(2,3) by blast

lemma Emit_slot:
  assumes s: "slotted b c" "typed_rows L c" and L: "llvm_types L" and e: "row_expr V e" and run: "Emit_alloca L q e c = Inr (u, c')"
  shows "\<exists>es t ty st. row_elements e = Some es \<and> row_struct L (length es) t c' \<and> typed_rows L c' \<and>
    (\<forall>m t'. row_struct L m t' c \<longrightarrow> row_struct L m t' c') \<and> slotted b c' \<and>
    c' = emitted c b (Suc (cg_count c)) [IVal (LRes (cg_count c) (OpAlloca t ''emit_stack'') [])]
      \<lparr>cg_types := ty, cg_structs := st, cg_stack := (cg_stack c)(q \<mapsto> Some (LRes (cg_count c) (OpAlloca t ''emit_stack'') []))\<rparr>"
proof -
  from e obtain es w where es: "e = RowLiteral w es" "list_all (int_expr V) es"
    using row_elements_Some by (auto simp: row_expr_def split: option.splits)
  from run obtain r c1 where g: "get_type L (RowLiteral w es) c = Inr (r, c1)"
    by (auto simp: Emit_alloca_def bindP_Inr es(1) simp del: get_type.simps)
  from row_struct_made [OF s(1) L es(2) s(2) g] obtain t ty st where t: "r = Some t" "row_struct L (length es) t c1" "typed_rows L c1"
    "\<forall>m t'. row_struct L m t' c \<longrightarrow> row_struct L m t' c1" "c1 = c\<lparr>cg_types := ty, cg_structs := st\<rparr>" by blast
  let ?v = "LRes (cg_count c) (OpAlloca t ''emit_stack'') []"
  have "cg_point c1 = Some b" "cg_count c1 = cg_count c" using s(1) by (simp_all add: t(5) slotted_def)
  with run g t(1) have c': "c' = emitted c1 b (Suc (cg_count c)) [IVal ?v]\<lparr>cg_stack := (cg_stack c1)(q \<mapsto> Some ?v)\<rparr>"
    by (auto simp: Emit_alloca_def es(1) bindP_def monad_defs run_emit set_stack_def simp del: get_type.simps)
  have same: "row_struct L m t' c' = row_struct L m t' c1" for m t' by (simp add: c' row_struct_def named_struct_def)
  have "typed_rows L c'" using t(3) unfolding typed_rows_def same by (simp add: c' named_struct_def)
  moreover have c: "c' = emitted c b (Suc (cg_count c)) [IVal ?v]\<lparr>cg_types := ty, cg_structs := st, cg_stack := (cg_stack c)(q \<mapsto> Some ?v)\<rparr>"
    by (simp add: c' t(5))
  moreover have "slotted b c'" by (rule slotted_more [OF s(1)]) (simp_all add: c)
  ultimately show ?thesis using t(2,4) es(1) unfolding same by (metis row_elements.simps(1))
qed

lemma placed_Emit:
  assumes p: "placed L Q b c" and L: "llvm_types L" and e: "row_expr V e" "Q q = Some (Emit e)" and run: "Emit_alloca L q e c = Inr (u, c')"
  shows "placed L Q b c' \<and> grown b c c' \<and> q \<in> dom (cg_stack c')"
proof -
  from p have "slotted b c" "typed_rows L c" by (auto simp: placed_def)
  from Emit_slot [OF this L e(1) run] obtain es t ty st where t: "row_elements e = Some es" "row_struct L (length es) t c'"
    "typed_rows L c'" "\<forall>m t'. row_struct L m t' c \<longrightarrow> row_struct L m t' c'" "slotted b c'"
    and c': "c' = emitted c b (Suc (cg_count c)) [IVal (LRes (cg_count c) (OpAlloca t ''emit_stack'') [])]
      \<lparr>cg_types := ty, cg_structs := st, cg_stack := (cg_stack c)(q \<mapsto> Some (LRes (cg_count c) (OpAlloca t ''emit_stack'') []))\<rparr>"
    by blast
  have "stacked L Q c'"
    unfolding stacked_def
  proof (intro allI impI)
    fix q' e' es' x
    assume q': "Q q' = Some (Emit e')" "row_elements e' = Some es'" "cg_stack c' q' = Some x"
    show "\<exists>t k. row_struct L (length es') t c' \<and> x = Some (LRes k (OpAlloca t ''emit_stack'') [])"
    proof (cases "q' = q")
      case True
      with q' e(2) t(1) have "es' = es" "x = Some (LRes (cg_count c) (OpAlloca t ''emit_stack'') [])" by (auto simp: c')
      with t(2) show ?thesis by blast
    next
      case False
      with q'(3) have "cg_stack c q' = Some x" by (simp add: c')
      with p q'(1,2) obtain t' k where "row_struct L (length es') t' c" "x = Some (LRes k (OpAlloca t' ''emit_stack'') [])"
        unfolding placed_def stacked_def by metis
      with t(4) show ?thesis by blast
    qed
  qed
  moreover have "has_hosts c'" using p by (simp add: c' placed_def has_hosts_def)
  moreover have "grown b c c'" unfolding c' grown_def by (auto intro!: exI [of _ "[IVal (LRes (cg_count c) (OpAlloca t ''emit_stack'') [])]"])
  moreover have "q \<in> dom (cg_stack c')" by (simp add: c')
  ultimately show ?thesis using t(3,5) by (simp add: placed_def)
qed

definition inits_at :: "(path \<Rightarrow> stmt option) \<Rightarrow> bool" where
  "inits_at Q \<longleftrightarrow> (\<forall>q i c e ss. Q q = Some (For (Ref i) c e ss) \<longrightarrow> Q (q @ [0]) = Some i)"

lemma slot_step:
  assumes L: "llvm_types L" and Q: "inits_at Q"
  shows "core_stmt V s \<Longrightarrow> placed L Q b c \<Longrightarrow> Q q = Some s \<Longrightarrow> alloca_stack put L q s c = Inr (u, c') \<Longrightarrow>
    placed L Q b c' \<and> grown b c c' \<and> ((\<exists>e. s = Emit e) \<longrightarrow> q \<in> dom (cg_stack c'))"
proof (induction s arbitrary: q rule: erase_stmt.induct)
  case (4 init cond every blk)
  show ?case
  proof (cases init)
    case (Ref i)
    with "4.prems"(3) Q have "Q (q @ [0]) = Some i" by (simp add: inits_at_def)
    with 4 Ref show ?thesis by auto
  qed (use 4 in \<open>auto simp: returnM_def\<close>)
next
  case (6 e)
  then show ?case using placed_Emit [of L Q b c V e q u c'] L by auto
next
  case (9 n ty e)
  from "9.prems"(4) obtain t c1 where "get_type L e c = Inr (t, c1)" by (auto simp: Let_alloca_def bindP_def bindM_Inr)
  with int_type [OF _ L, of b c V e] "9.prems" have "get_type L e c = Inr (Some LI64, c)" by (auto simp: placed_def)
  with placed_Let "9.prems" show ?case by fastforce
next
  case (12 e)
  from "12.prems" have p: "slotted b c" "has_hosts c" by (auto simp: placed_def)
  from "12.prems"(4) obtain t c1 where g: "get_type L e c = Inr (t, c1)" by (auto simp: ExprStatement_alloca_def bindP_def bindM_Inr)
  have t: "(t = Some LI64 \<or> t = Some LVoid) \<and> c1 = c"
  proof (cases "print_arg e")
    case None
    with int_type [OF p(1) L, of V e] "12.prems"(1) g show ?thesis by auto
  next
    case (Some a)
    with print_arg_Some [OF Some] print_type [OF p(2)] g show ?thesis by auto
  qed
  with g "12.prems"(4) obtain xs where xs: "each_value_at (q @ [0]) e = Inr xs" "eachM (value_alloca L) xs c = Inr (u, c')"
    by (auto simp: ExprStatement_alloca_def bindP_Inr bindM_Inr returnM_def)
  have "list_all (\<lambda>(q, e). int_expr V e) xs"
  proof (cases "print_arg e")
    case None
    with int_values [of V e "q @ [0]"] "12.prems"(1) xs(1) show ?thesis by simp
  next
    case (Some a)
    with print_arg_Some [OF Some] int_values [of V a] "12.prems"(1) xs(1) show ?thesis by (auto simp: bindE_eq_Inr_iff)
  qed
  with quiet_values [OF p(1) L] xs(2) have "c' = c" by blast
  with "12.prems"(2) show ?case by simp
qed (auto simp: returnM_def)

lemma core_nodes:
  "each_statement_at p s = Inr xs \<Longrightarrow> core_stmt V s \<Longrightarrow> list_all (\<lambda>(q, s). core_stmt V s) xs"
  "block_statement_at p i ss = Inr xs \<Longrightarrow> list_all (core_stmt V) ss \<Longrightarrow> list_all (\<lambda>(q, s). core_stmt V s) xs"
  by (induction p s and p i ss arbitrary: xs and xs rule: each_statement_at_block_statement_at.induct)
     (auto simp: bindE_eq_Inr_iff split: slot.splits option.splits)

lemma slot_steps:
  assumes "llvm_types L" "inits_at Q"
  shows "list_all (\<lambda>(q, s). core_stmt V s \<and> Q q = Some s) nodes \<Longrightarrow> placed L Q b c \<Longrightarrow>
    eachM (\<lambda>(p, n). alloca_stack put L p n) nodes c = Inr (u, c') \<Longrightarrow>
    placed L Q b c' \<and> grown b c c' \<and> (\<forall>q e. (q, Emit e) \<in> set nodes \<longrightarrow> q \<in> dom (cg_stack c'))"
proof (induction nodes arbitrary: c)
  case (Cons x nodes)
  obtain q s where x: "x = (q, s)" by (cases x)
  from Cons.prems(3) obtain v c1 where a: "alloca_stack put L q s c = Inr (v, c1)"
    and r: "eachM (\<lambda>(p, n). alloca_stack put L p n) nodes c1 = Inr (u, c')"
    by (auto simp: bindM_Inr x)
  from slot_step [OF assms _ Cons.prems(2) _ a] Cons.prems(1) x have
    1: "placed L Q b c1" "grown b c c1" "(\<exists>e. s = Emit e) \<longrightarrow> q \<in> dom (cg_stack c1)" by auto
  from Cons.IH [OF _ 1(1) r] Cons.prems(1) have
    2: "placed L Q b c'" "grown b c1 c'" "\<forall>q e. (q, Emit e) \<in> set nodes \<longrightarrow> q \<in> dom (cg_stack c')" by simp_all
  from 2(2) have "dom (cg_stack c1) \<subseteq> dom (cg_stack c')" by (simp add: grown_def)
  with 1(3) 2(3) have "\<forall>q e. (q, Emit e) \<in> set (x # nodes) \<longrightarrow> q \<in> dom (cg_stack c')" by (auto simp: x)
  with 2(1) grown_trans [OF 1(2) 2(2)] show ?case by blast
qed (simp add: returnM_def)

text \<open>The statement at a node.\<close>

fun stmt_at :: "stmt \<Rightarrow> path \<Rightarrow> stmt option" where
  "stmt_at s [] = Some s"
| "stmt_at (Block ss) (i # p) = (if i < length ss then stmt_at (ss ! i) p else None)"
| "stmt_at (Transaction _ ss) (_ # i # p) = (if i < length ss then stmt_at (ss ! i) p else None)"
| "stmt_at (Scan _ _ ss) (_ # i # p) = (if i < length ss then stmt_at (ss ! i) p else None)"
| "stmt_at (For init _ _ ss) (j # p) =
     (if j = 0 then case init of Ref i \<Rightarrow> stmt_at i p | _ \<Rightarrow> None
      else case p of i # p \<Rightarrow> if i < length ss then stmt_at (ss ! i) p else None | [] \<Rightarrow> None)"
| "stmt_at (If _ t f) (j # i # p) =
     (if j = 1 then if i < length t then stmt_at (t ! i) p else None
      else case f of Some f' \<Rightarrow> if i < length f' then stmt_at (f' ! i) p else None | None \<Rightarrow> None)"
| "stmt_at _ _ = None"

lemma stmt_at_append: "stmt_at s p = Some s' \<Longrightarrow> stmt_at s (p @ q) = stmt_at s' q"
  by (induction s p rule: stmt_at.induct) (auto split: list.splits slot.splits option.splits if_splits)

lemma stmt_at_inits: "inits_at (stmt_at s)"
  by (simp add: inits_at_def stmt_at_append)

lemma visited_at:
  "each_statement_at p s = Inr xs \<Longrightarrow> (q, s') \<in> set xs \<Longrightarrow> \<exists>r. q = p @ r \<and> stmt_at s r = Some s'"
  "block_statement_at p i ss = Inr xs \<Longrightarrow> (q, s') \<in> set xs \<Longrightarrow>
    \<exists>j r. j < length ss \<and> q = p @ (i + j) # r \<and> stmt_at (ss ! j) r = Some s'"
proof (induction p s and p i ss arbitrary: xs and xs rule: each_statement_at_block_statement_at.induct)
  case (1 p ss)
  then show ?case by fastforce
next
  case (2 p iso ss)
  then obtain j r where "j < length ss" "q = (p @ [0]) @ j # r" "stmt_at (ss ! j) r = Some s'" by fastforce
  then show ?case by (intro exI [of _ "0 # j # r"]) simp
next
  case (3 p init c e ss)
  then obtain ys zs where y: "(case init of Uninit \<Rightarrow> Inl Undefined | Null \<Rightarrow> Inr [] | Ref i \<Rightarrow> Inr [(p @ [0], i)]) = Inr ys"
    and z: "block_statement_at (p @ [3]) 0 ss = Inr zs" and xs: "xs = ys @ zs" by (auto simp: bindE_eq_Inr_iff)
  from "3.prems"(2) xs consider "(q, s') \<in> set ys" | "(q, s') \<in> set zs" by auto
  then show ?case
  proof cases
    case 1
    with y have "init = Ref s'" "q = p @ [0]" by (auto split: slot.splits)
    then show ?thesis by (intro exI [of _ "[0]"]) simp
  next
    case 2
    from "3.IH" [OF y z 2] obtain j r where "j < length ss" "q = (p @ [3]) @ j # r" "stmt_at (ss ! j) r = Some s'" by auto
    then show ?thesis by (intro exI [of _ "3 # j # r"]) simp
  qed
next
  case (4 p t n ss)
  then obtain j r where "j < length ss" "q = (p @ [0]) @ j # r" "stmt_at (ss ! j) r = Some s'" by fastforce
  then show ?case by (intro exI [of _ "0 # j # r"]) simp
next
  case (5 p c t f)
  then obtain ys zs where y: "block_statement_at (p @ [1]) 0 t = Inr ys"
    and z: "(case f of None \<Rightarrow> Inr [] | Some f' \<Rightarrow> block_statement_at (p @ [2]) 0 f') = Inr zs" and xs: "xs = ys @ zs"
    by (auto simp: bindE_eq_Inr_iff)
  from "5.prems"(2) xs consider "(q, s') \<in> set ys" | "(q, s') \<in> set zs" by auto
  then show ?case
  proof cases
    case 1
    from "5.IH"(1) [OF y 1] obtain j r where "j < length t" "q = (p @ [1]) @ j # r" "stmt_at (t ! j) r = Some s'" by auto
    then show ?thesis by (intro exI [of _ "1 # j # r"]) simp
  next
    case 2
    with z obtain f' where f: "f = Some f'" "block_statement_at (p @ [2]) 0 f' = Inr zs" by (auto split: option.splits)
    from "5.IH"(2) [OF y f 2] obtain j r where "j < length f'" "q = (p @ [2]) @ j # r" "stmt_at (f' ! j) r = Some s'" by auto
    then show ?thesis by (intro exI [of _ "2 # j # r"]) (simp add: f)
  qed
next
  case (8 p i s ss)
  then obtain ys zs where y: "each_statement_at (p @ [i]) s = Inr ys" and z: "block_statement_at p (Suc i) ss = Inr zs"
    and xs: "xs = (p @ [i], s) # ys @ zs" by (auto simp: bindE_eq_Inr_iff)
  from "8.prems"(2) xs consider "q = p @ [i]" "s' = s" | "(q, s') \<in> set ys" | "(q, s') \<in> set zs" by auto
  then show ?case
  proof cases
    case 1
    then show ?thesis by (intro exI [of _ 0] exI [of _ "[]"]) simp
  next
    case 2
    from "8.IH"(1) [OF y 2] show ?thesis by (intro exI [of _ 0]) auto
  next
    case 3
    from "8.IH"(2) [OF y z 3] obtain j r where "j < length ss" "q = p @ (Suc i + j) # r" "stmt_at (ss ! j) r = Some s'" by blast
    then show ?thesis by (intro exI [of _ "Suc j"] exI [of _ r]) simp
  qed
qed auto

lemma let_names_ok: "ok_stmt True A s \<Longrightarrow> set (let_names s) \<subseteq> A"
proof (induction s rule: erase_stmt.induct)
  case (4 init cond every blk)
  then show ?case by (cases init) (auto simp: list_all_iff)
next
  case (11 c t f)
  then show ?case by (cases f) (auto simp: list_all_iff)
qed (auto simp: list_all_iff)

text \<open>The rows of a program whose slots were allocated.\<close>

definition rows_of :: "llvm \<Rightarrow> (path \<Rightarrow> stmt option) \<Rightarrow> 'db cg \<Rightarrow> rows" where
  "rows_of L Q c q =
     (case Q q of
        Some (Emit e) \<Rightarrow>
          Option.bind (row_elements e) (\<lambda>es.
          Option.bind (cg_stack c q) (\<lambda>x.
          Option.bind x (\<lambda>v.
          Option.bind (cg_types c (row_sign L (length es))) (\<lambda>y.
          map_option (\<lambda>t. (row_sign L (length es), t, v)) y))))
      | _ \<Rightarrow> None)"

lemma rows_of_Some:
  assumes "rows_of L Q c q = Some (sg, t, v)"
  obtains e es where "Q q = Some (Emit e)" "row_elements e = Some es" "cg_stack c q = Some (Some v)"
    "sg = row_sign L (length es)" "cg_types c sg = Some (Some t)"
  using assms by (auto simp: rows_of_def bind_eq_Some_conv split: option.splits stmt.splits)

lemma stacked_rows:
  assumes "stacked L Q c"
  shows "has_rows (rows_of L Q c) c"
    "Q q = Some (Emit e) \<Longrightarrow> row_elements e = Some es \<Longrightarrow> q \<in> dom (cg_stack c) \<Longrightarrow> row_known L (rows_of L Q c) (q, Emit e)"
proof -
  show "has_rows (rows_of L Q c) c"
    unfolding has_rows_def
  proof (intro allI impI)
    fix q sg t v
    assume "rows_of L Q c q = Some (sg, t, v)"
    then obtain e es where 1: "Q q = Some (Emit e)" "row_elements e = Some es" "cg_stack c q = Some (Some v)"
      "sg = row_sign L (length es)" "cg_types c sg = Some (Some t)" by (rule rows_of_Some)
    from assms 1(1-3) obtain t' where "row_struct L (length es) t' c" unfolding stacked_def by metis
    with 1 show "cg_stack c q = Some (Some v) \<and> cg_types c sg = Some (Some t) \<and> named_struct sg c = Some t"
      by (simp add: row_struct_def)
  qed
  show "row_known L (rows_of L Q c) (q, Emit e)" if q: "Q q = Some (Emit e)" "row_elements e = Some es" "q \<in> dom (cg_stack c)"
  proof -
    from q(3) obtain x where x: "cg_stack c q = Some x" by blast
    with assms q(1,2) obtain t k where "row_struct L (length es) t c" "x = Some (LRes k (OpAlloca t ''emit_stack'') [])"
      unfolding stacked_def by metis
    with q(1,2) x show ?thesis by (auto simp: rows_of_def row_struct_def Let_def)
  qed
qed

lemma slot_phase:
  assumes L: "llvm_types L" and core: "core_program (Block ss)"
    and start: "cg_point c = Some b" "cg_vars c = Map.empty" "cg_stack c = Map.empty" "has_hosts c" "typed_rows L c"
    and run: "alloca_all put L (Block ss) c = Inr (u, c')"
  shows "slotted b c'" "grown b c c'" "n \<in> set (let_names (Block ss)) \<Longrightarrow> \<exists>v. cg_vars c' n = Some (Some v)"
    "\<exists>nodes K. each_statement_at [] (Block ss) = Inr nodes \<and> list_all (row_known L K) (([], Block ss) # nodes) \<and> has_rows K c'"
proof -
  from run obtain nodes where n: "each_statement_at [] (Block ss) = Inr nodes"
    and e: "eachM (\<lambda>(p, n). alloca_stack put L p n) nodes c = Inr (u, c')"
    by (auto simp: alloca_all_def bindM_Inr)
  let ?Q = "stmt_at (Block ss)" and ?V = "named (let_names (Block ss))"
  have "placed L ?Q b c" using start by (simp add: placed_def slotted_def stacked_def)
  moreover have nodes: "list_all (\<lambda>(q, s). core_stmt ?V s \<and> ?Q q = Some s) nodes"
    using core_nodes(1) [OF n, of ?V] visited_at(1) [OF n] core unfolding core_program_def list_all_iff by fastforce
  ultimately have p: "placed L ?Q b c'" "grown b c c'" "\<forall>q e. (q, Emit e) \<in> set nodes \<longrightarrow> q \<in> dom (cg_stack c')"
    using slot_steps [OF L stmt_at_inits _ _ e] by blast+
  then show "slotted b c'" "grown b c c'" by (simp_all add: placed_def)
  have "slots_for (lets_of nodes) () c'" using slots_made [OF e, of "{}"] by (simp add: slots_for_def)
  moreover have "ok_stmt True (lets_of nodes) (Block ss)"
    using visited_ok(1) [OF n] core lets_of_simps(2) [of "[([], Block ss)]" nodes] by (simp add: lets_of_one core_program_def)
  ultimately show "n \<in> set (let_names (Block ss)) \<Longrightarrow> \<exists>v. cg_vars c' n = Some (Some v)"
    using let_names_ok [of "lets_of nodes" "Block ss"] unfolding slots_for_def by blast
  from p(1) have st: "stacked L ?Q c'" by (simp add: placed_def)
  have "row_known L (rows_of L ?Q c') (q, s)" if "(q, s) \<in> set nodes" for q s
  proof (cases s)
    case (Emit e)
    with that nodes have "?Q q = Some (Emit e)" "row_expr ?V e" by (auto simp: list_all_iff)
    moreover from this obtain es where "row_elements e = Some es" by (auto simp: row_expr_def split: option.splits)
    ultimately show ?thesis using stacked_rows(2) [OF st] p(3) that Emit by blast
  qed simp_all
  then have "list_all (row_known L (rows_of L ?Q c')) (([], Block ss) # nodes)" by (auto simp: list_all_iff)
  with n stacked_rows(1) [OF st]
  show "\<exists>nodes K. each_statement_at [] (Block ss) = Inr nodes \<and> list_all (row_known L K) (([], Block ss) # nodes) \<and> has_rows K c'"
    by blast
qed

end
