(* ===== verification/Reir_Correct.thy ===== *)
theory Reir_Correct
  imports Reir_Slots
begin

text \<open>
  Compiler correctness for the core language: what the code of a compiled program leaves in the
  variables' slots, prints and emits is what the reference interpreter computes.
\<close>

section \<open>Whole programs\<close>

text \<open>The slots a state has for the variables \<open>ns\<close>.\<close>

definition slots_of :: "'db cg \<Rightarrow> string list \<Rightarrow> string \<rightharpoonup> llval" where
  "slots_of c ns n = (if n \<in> set ns then case cg_vars c n of Some (Some v) \<Rightarrow> Some v | _ \<Rightarrow> None else None)"

lemma slots_of_Some: "slots_of c ns n = Some v \<longleftrightarrow> n \<in> set ns \<and> cg_vars c n = Some (Some v)"
  by (auto simp: slots_of_def split: option.splits)

lemma cells_hold_iff:
  assumes "\<And>n. n \<in> set ns \<Longrightarrow> \<exists>v. cg_vars c1 n = Some (Some v)" "has_slots (slots_of c1 ns) c"
  shows "cells_hold M c ns st env \<longleftrightarrow> holds M (slots_of c1 ns) st env"
  using assms unfolding cells_hold_def holds_def has_slots_def slots_of_Some by (metis option.inject)

lemma program_code:
  assumes L: "llvm_types L" and M: "llvm_exec M" and core: "core_program (Block ss)"
    and start: "cg_blocks c = [''entry_jit'']" "cg_code c = []" "cg_point c = Some 0" "cg_vars c = Map.empty"
      "cg_stack c = Map.empty" "has_hosts c" "typed_rows L c"
    and slots: "alloca_all put L (Block ss) c = Inr (u, c1)"
  defines "V \<equiv> slots_of c1 (let_names (Block ss))"
  shows "setting L M V" "core_stmt V (Block ss)" "list_all is_alloca (blk c1 0)"
    "\<exists>K nodes. ready K V c1 0 \<and> each_statement_at [] (Block ss) = Inr nodes \<and> list_all (row_known L K) (([], Block ss) # nodes)"
proof -
  note 1 = slot_phase [OF L core start(3-7) slots]
  show "setting L M V"
    using L M 1(1) unfolding setting_def V_def slots_of_Some slotted_def is_slot_def by blast
  from 1(2) start obtain "is" where g: "cg_blocks c1 = [''entry_jit'']" "cg_code c1 = map (Pair 0) is" "has_hosts c1"
    "list_all is_alloca is" by (auto simp: grown_def has_hosts_def)
  then have b: "blk c1 x = (if x = 0 then is else [])" for x by (simp add: blk_def comp_def)
  with g show "list_all is_alloca (blk c1 0)" by simp
  have "has_slots V c1" by (simp add: has_slots_def V_def slots_of_Some)
  with 1(4) g(1,3) b 1(1)
  show "\<exists>K nodes. ready K V c1 0 \<and> each_statement_at [] (Block ss) = Inr nodes \<and> list_all (row_known L K) (([], Block ss) # nodes)"
    by (auto simp: ready_def slotted_def nblocks_def)
  have "V n \<noteq> None" if "named (let_names (Block ss)) n \<noteq> None" for n
    using that 1(3) [of n] by (auto simp: named_def V_def slots_of_def split: if_splits)
  then show "core_stmt V (Block ss)" using core core_dom(3) unfolding core_program_def by blast
qed

lemma same_program:
  assumes "erase_stmt s' = erase_stmt s"
  shows "core_program s' = core_program s" "let_names s' = let_names s" "run_stmt k s' = run_stmt k s"
proof -
  show n: "let_names s' = let_names s" using assms by (metis erase_parts(2))
  show "core_program s' = core_program s" unfolding core_program_def n using assms by (metis erase_core erase_parts(1))
  show "run_stmt k s' = run_stmt k s" using assms by (metis erase_run)
qed

lemma return_reached:
  assumes "reaches M V c1 b1 c2 b2 R" "log_ins (IRet x) c2 = Inr (u, c)" "ready K V c2 b2"
    "holds M V st env" "R env = Some env'"
  shows "\<exists>st2. runs M (blk c) ((b1, length (blk c1 b1)), st) ((b2, length (blk c2 b2)), st2) \<and>
    length (blk c2 b2) < length (blk c b2) \<and> blk c b2 ! length (blk c2 b2) = IRet x \<and> holds M V st2 env'"
proof -
  from assms(2,3) have c: "c = c2\<lparr>cg_code := cg_code c2 @ [(b2, IRet x)]\<rparr>"
    by (auto simp: ready_def log_ins_def modM_def)
  have "extends (blk c) c2" by (auto simp: extends_def c blk_def)
  with assms(1,4,5) obtain st2 where "runs M (blk c) ((b1, length (blk c1 b1)), st) ((b2, length (blk c2 b2)), st2)"
    "holds M V st2 env'" unfolding reaches_def by blast
  moreover have "blk c b2 = blk c2 b2 @ [IRet x]" by (simp add: c blk_def)
  ultimately show ?thesis by auto
qed

text \<open>The slots of all variables.\<close>

definition var_slots :: "'db cg \<Rightarrow> string \<rightharpoonup> llval" where
  "var_slots c n = Option.bind (cg_vars c n) id"

lemma var_slots_setting:
  assumes "llvm_types L" "slotted b c"
  shows "setting L sample_machine (var_slots c)" "has_slots (var_slots c) c" "cg_point c = Some b"
proof -
  have v: "var_slots c n = Some v \<longleftrightarrow> cg_vars c n = Some (Some v)" for n v
    by (auto simp: var_slots_def bind_eq_Some_conv)
  show "setting L sample_machine (var_slots c)"
    using assms sample_llvm_exec unfolding setting_def v slotted_def is_slot_def by blast
  show "has_slots (var_slots c) c" by (simp add: has_slots_def v)
  show "cg_point c = Some b" using assms(2) by (simp add: slotted_def)
qed

lemma cond_typed:
  "setting L M V \<Longrightarrow> has_slots V c \<Longrightarrow> cond_expr V e \<Longrightarrow> get_type L e c = Inr (Some LI64, c)"
  by (induction V e rule: cond_expr.induct) (auto simp: monad_defs int_get_type)

text \<open>The state in which \<open>compile\<close> starts to look at the program, and the stages that follow.\<close>

lemma compile_start:
  "\<exists>c c1 c2. define_functions (cg_new md) = Inr ((), c) \<and> init_types c = Inr ((), c1) \<and> init_functions c1 = Inr ((), c2) \<and>
     cg_ctx c2 = CompilerContext_new \<and> cg_blocks c2 = [] \<and> cg_code c2 = [] \<and> cg_vars c2 = Map.empty \<and> cg_stack c2 = Map.empty \<and>
     has_hosts c2 \<and> typed_rows L c2"
  by (simp add: run_defs has_hosts_def print_fn_def emit_fn_def typed_rows_def named_struct_def row_sign_def)

definition compile_rest ::
    "('db \<Rightarrow> string \<Rightarrow> string \<Rightarrow> 'db) \<Rightarrow> llvm \<Rightarrow> (nat \<Rightarrow> string) \<Rightarrow> 'db cg \<Rightarrow> stmt \<Rightarrow> (unit \<times> 'db cg) res" where
  "compile_rest put L addr c ast =
     bindE (stmt_analyze addr ast (cg_ctx c)) (\<lambda>(ast, x).
     bindM (alloca_all put L ast) (\<lambda>_. bindM (codegen L [] ast) (\<lambda>_. log_ins (IRet (LConst LI1 1))))
       (c\<lparr>cg_ctx := x, cg_blocks := [''entry_jit''], cg_point := Some 0\<rparr>))"

lemma compile_from_start:
  "\<exists>c2. cg_ctx c2 = CompilerContext_new \<and> cg_blocks c2 = [] \<and> cg_code c2 = [] \<and> cg_vars c2 = Map.empty \<and> cg_stack c2 = Map.empty \<and>
     has_hosts c2 \<and> typed_rows L c2 \<and> compile_fresh put L addr md ast = compile_rest put L addr c2 ast"
proof -
  obtain c c1 c2 where r: "define_functions (cg_new md) = Inr ((), c)" "init_types c = Inr ((), c1)" "init_functions c1 = Inr ((), c2)"
    and c2: "cg_ctx c2 = CompilerContext_new" "cg_blocks c2 = []" "cg_code c2 = []" "cg_vars c2 = Map.empty" "cg_stack c2 = Map.empty" "has_hosts c2" "typed_rows L c2"
    using compile_start [of md L] by blast
  have "compile_fresh put L addr md ast = compile_rest put L addr c2 ast"
    using r c2(2) by (simp add: compile_fresh_def compile_def compile_rest_def bindM_def analyzeM_def bindE_assoc BasicBlock_Create_def
        SetInsertPoint_def modM_def case_prod_unfold)
  with c2 show ?thesis by blast
qed

lemma allocas_quiet: "llvm_exec M \<Longrightarrow> list_all is_alloca is \<Longrightarrow> m_out M (fold (m_exec M) is s) = m_out M s"
  by (induction "is" arbitrary: s) (auto simp: llvm_exec_def is_alloca_iff)

lemma allocas_plain: "list_all is_alloca is \<Longrightarrow> list_all (\<lambda>i. \<not> is_terminator i) is"
  by (auto simp: list_all_iff is_alloca_iff)

lemma program_correct:
  assumes "compile_fresh put L addr md (Block ss) = Inr (u, c)" "llvm_types L" "llvm_exec M" "core_program (Block ss)"
  shows "\<exists>n st1 vars. runs M (blk c) ((0, 0), st) ((0, n), st1) \<and> m_out M st1 = m_out M st \<and>
    cells_hold M c (let_names (Block ss)) st1 \<lparr>env_vars = vars, env_out = m_out M st\<rparr> \<and>
    (\<forall>k env env'. cells_hold M c (let_names (Block ss)) st1 env \<longrightarrow> run_block k ss env = Some env' \<longrightarrow>
       (\<exists>b i st2. runs M (blk c) ((0, n), st1) ((b, i), st2) \<and> i < length (blk c b) \<and>
          blk c b ! i = IRet (LConst LI1 1) \<and> cells_hold M c (let_names (Block ss)) st2 env'))"
proof -
  obtain c2 where c2: "cg_ctx c2 = CompilerContext_new" "cg_blocks c2 = []" "cg_code c2 = []" "cg_vars c2 = Map.empty" "cg_stack c2 = Map.empty" "has_hosts c2" "typed_rows L c2"
    and comp: "compile_fresh put L addr md (Block ss) = compile_rest put L addr c2 (Block ss)"
    using compile_from_start by blast
  from assms(1) obtain ast x c6 u7 c7 where an: "stmt_analyze addr (Block ss) CompilerContext_new = Inr (ast, x)"
    and r: "alloca_all put L ast (c2\<lparr>cg_ctx := x, cg_blocks := [''entry_jit''], cg_point := Some 0\<rparr>) = Inr ((), c6)"
      "codegen L [] ast c6 = Inr (u7, c7)" "log_ins (IRet (LConst LI1 1)) c7 = Inr (u, c)"
    by (auto simp: comp compile_rest_def c2(1) bindE_eq_Inr_iff bindM_Inr simp del: stmt_analyze.simps)
  let ?c5 = "c2\<lparr>cg_ctx := x, cg_blocks := [''entry_jit''], cg_point := Some 0\<rparr>"
  have c5: "cg_blocks ?c5 = [''entry_jit'']" "cg_code ?c5 = []" "cg_point ?c5 = Some 0" "cg_vars ?c5 = Map.empty"
    "cg_stack ?c5 = Map.empty" "has_hosts ?c5" "typed_rows L ?c5"
    using c2 by (simp_all add: has_hosts_def typed_rows_def row_struct_def named_struct_def)
  from an obtain ss' where ast: "ast = Block ss'" by (auto simp: bindE_eq_Inr_iff)
  note same = same_program [OF stmt_analyze_erase(1) [OF an]]
  have core: "core_program (Block ss')" using assms(4) same(1) by (simp add: ast)
  note slots = slot_phase [OF assms(2) core c5(3-7) r(1) [unfolded ast]]
  note code = program_code [OF assms(2,3) core c5 r(1) [unfolded ast]]
  let ?ns = "let_names (Block ss)" and ?n = "length (blk c6 0)"
  have ns: "let_names (Block ss') = ?ns" using same(2) by (simp add: ast)
  let ?V = "slots_of c6 ?ns"
  obtain K nodes where K: "ready K ?V c6 0" "each_statement_at [] ast = Inr nodes" "list_all (row_known L K) (([], ast) # nodes)"
    using code(4) unfolding ns ast by blast
  have "setting L M ?V" "core_stmt ?V ast" "leaf_inits ast" using code(1,2) core unfolding ns ast core_program_def by auto
  then have sim: "\<exists>b. ready K ?V c7 b \<and> within {0} c6 c7 \<and> reaches M ?V c6 0 c7 b (run_stmt k (Block ss))" for k
    using core_sim(1) [of L M ?V ast "[]" nodes K k] K r(2) unfolding sim_def same(3) by fastforce
  then have "within {0} c6 c7" "has_slots ?V c7" by (auto simp: ready_def)
  then have F: "prefix (blk c6 0) (blk c 0)" and vars: "has_slots ?V c"
    using within_extends [of "{0}" c6 c7 "blk c"] r(3)
    by (auto simp: log_ins_def modM_def extends_def has_slots_def blk_def split: option.splits)
  have cells: "cells_hold M c ?ns st env \<longleftrightarrow> holds M ?V st env" for st env
    by (rule cells_hold_iff [OF slots(3) [unfolded ns] vars])
  let ?st1 = "fold (m_exec M) (blk c6 0) st"
  have "runs M (blk c) ((0, 0), st) ((0, ?n), ?st1)"
    using runs_list [of "[]" "blk c6 0" "blk c" 0] F allocas_plain [OF code(3)] by simp
  moreover have "\<exists>b i st2. runs M (blk c) ((0, ?n), ?st1) ((b, i), st2) \<and> i < length (blk c b) \<and>
      blk c b ! i = IRet (LConst LI1 1) \<and> holds M ?V st2 env'"
    if "holds M ?V ?st1 env" "run_block k ss env = Some env'" for k env env'
    using sim [of k] return_reached [OF _ r(3) _ that(1)] that(2) by fastforce
  moreover have out: "m_out M ?st1 = m_out M st" by (rule allocas_quiet [OF assms(3) code(3)])
  moreover have "holds M ?V ?st1 \<lparr>env_vars = (\<lambda>n. case ?V n of None \<Rightarrow> 0 | Some v \<Rightarrow> m_cell M ?st1 v), env_out = m_out M st\<rparr>"
    using out by (simp add: holds_def)
  ultimately show ?thesis unfolding cells by blast
qed

section \<open>Properties\<close>

text \<open>
  C2. The code of a compiled core program computes what the program means. From any state the
  code reaches a point where the slots have been allocated and nothing was printed or emitted; from there,
  whenever the reference interpreter takes the values in the slots to \<open>env'\<close>, within any number \<open>k\<close>
  of rounds of its loops, the code reaches the return instruction with the variables of \<open>env'\<close> in
  the slots, its integers printed and its rows emitted.
\<close>

theorem compiled_program_correct:
  assumes "compile_fresh put L addr md (Block ss) = Inr (u, c)" "llvm_types L" "llvm_exec M" "core_program (Block ss)"
  shows "\<exists>n st1. runs M (blk c) ((0, 0), st) ((0, n), st1) \<and> m_out M st1 = m_out M st \<and>
    (\<forall>k env env'. cells_hold M c (let_names (Block ss)) st1 env \<longrightarrow> run_block k ss env = Some env' \<longrightarrow>
       (\<exists>b i st2. runs M (blk c) ((0, n), st1) ((b, i), st2) \<and> i < length (blk c b) \<and>
          blk c b ! i = IRet (LConst LI1 1) \<and> cells_hold M c (let_names (Block ss)) st2 env'))"
  using program_correct [OF assms, of st] by blast

text \<open>A program that adds up 0, 1 and 2 and prints the sum.\<close>

definition demo_sum :: "stmt list" where
  "demo_sum = [Let ''i'' None (int_lit 0), Let ''x'' None (int_lit 0),
     For Null (Ref (BinaryExpression None OP_LESSTHAN (VariableReference None ''i'') (int_lit 3)))
       (Ref (Assign None (VariableReference None ''i'')
          (BinaryExpression None OP_PLUS (VariableReference None ''i'') (int_lit 1))))
       [ExprStatement (Assign None (VariableReference None ''x'')
          (BinaryExpression None OP_PLUS (VariableReference None ''x'') (VariableReference None ''i'')))],
     ExprStatement (FunctionCall None (VariableReference None ''print_int'') [VariableReference None ''x''])]"

lemma int_lit_value [simp]: "int_value (MaybeValue_int w) = Some w"
  by (simp add: int_value_def as_int_def is_int_def MaybeValue_int_def ValueImpl_int_def)

lemma demo_sum_compiles:
  "\<exists>c v w. compile_fresh (\<lambda>db k v. ()) sample_llvm demo_addr \<lparr>md_tables = Map.empty, md_db = ()\<rparr> (Block demo_sum) = Inr ((), c) \<and>
     cg_vars c ''i'' = Some (Some v) \<and> cg_vars c ''x'' = Some (Some w) \<and> v \<noteq> w"
  by (simp add: demo_sum_def analyze_defs opt_analyze_def run_defs find_function_def pass_argument_def isIntegerTy_def)

lemma demo_sum_core: "core_program (Block demo_sum)"
  by (simp add: demo_sum_def core_program_def named_def comparison_def arithmetic_def)

lemma demo_sum_runs: "run_block 4 demo_sum env = Some \<lparr>env_vars = (env_vars env)(''i'' := 3, ''x'' := 3), env_out = env_out env @ [Printed 3]\<rparr>"
  by (simp add: demo_sum_def eval_nat_numeral conditional_def comparison_def assign_def put_out_def fun_eq_iff)

theorem compiled_program_correct_witness:
  "\<exists>c b i st w. compile_fresh (\<lambda>db k v. ()) sample_llvm demo_addr \<lparr>md_tables = Map.empty, md_db = ()\<rparr> (Block demo_sum) =
       Inr ((), c) \<and>
     runs sample_machine (blk c) ((0, 0), sample_start) ((b, i), st) \<and> blk c b ! i = IRet (LConst LI1 1) \<and>
     cg_vars c ''x'' = Some (Some w) \<and> m_cell sample_machine st w = 3 \<and> m_out sample_machine st = [Printed 3]"
proof -
  let ?st = sample_start
  obtain c v w where c: "compile_fresh (\<lambda>db k v. ()) sample_llvm demo_addr \<lparr>md_tables = Map.empty, md_db = ()\<rparr> (Block demo_sum) =
      Inr ((), c)" and v: "cg_vars c ''i'' = Some (Some v)" "cg_vars c ''x'' = Some (Some w)"
    using demo_sum_compiles by blast
  have ns: "let_names (Block demo_sum) = [''i'', ''x'']" by (simp add: demo_sum_def)
  from compiled_program_correct [OF c sample_llvm_types sample_llvm_exec demo_sum_core, of ?st]
  obtain n st1 where 1: "runs sample_machine (blk c) ((0, 0), ?st) ((0, n), st1)" "m_out sample_machine st1 = m_out sample_machine ?st"
    and 2: "\<And>env env'. cells_hold sample_machine c [''i'', ''x''] st1 env \<Longrightarrow> run_block 4 demo_sum env = Some env' \<Longrightarrow>
      \<exists>b i st2. runs sample_machine (blk c) ((0, n), st1) ((b, i), st2) \<and> i < length (blk c b) \<and>
        blk c b ! i = IRet (LConst LI1 1) \<and> cells_hold sample_machine c [''i'', ''x''] st2 env'"
    unfolding ns by blast
  let ?env = "\<lparr>env_vars = (\<lambda>n. if n = ''i'' then m_cell sample_machine st1 v else m_cell sample_machine st1 w), env_out = []\<rparr>"
  have "cells_hold sample_machine c [''i'', ''x''] st1 ?env" using 1(2) by (simp add: cells_hold_def v sample_machine_def sample_start_def)
  from 2 [OF this demo_sum_runs] obtain b i st2 where
    "runs sample_machine (blk c) ((0, n), st1) ((b, i), st2)" "blk c b ! i = IRet (LConst LI1 1)" "m_cell sample_machine st2 w = 3"
    "m_out sample_machine st2 = [Printed 3]"
    by (auto simp: cells_hold_def v)
  with c v(2) runs_trans [OF 1(1)] show ?thesis by blast
qed

text \<open>
  C35. An integer expression has one type: \<open>get_type\<close> says it is a 64-bit integer, and the value
  its code computes has that type in LLVM.
\<close>

theorem int_expr_typed:
  assumes "llvm_types L" "slotted b c" "int_expr (var_slots c) e"
  shows "\<exists>x c'. get_type L e c = Inr (Some LI64, c) \<and> get_value L p e c = Inr (Some x, c') \<and> getType L x = LI64"
  using int_get_type [of L sample_machine "var_slots c" e c] expr_code [of L sample_machine "var_slots c" e c b p]
    var_slots_setting [OF assms(1,2)] assms(3) by (auto simp: computes_def)

theorem int_expr_typed_witness:
  "\<exists>x c'. get_type sample_llvm (BinaryExpression None OP_PLUS (int_lit 1) (int_lit 2)) demo_state = Inr (Some LI64, demo_state) \<and>
     get_value sample_llvm [] (BinaryExpression None OP_PLUS (int_lit 1) (int_lit 2)) demo_state = Inr (Some x, c') \<and>
     getType sample_llvm x = LI64"
  by (rule int_expr_typed [of sample_llvm 0]) (auto simp: sample_llvm_types slotted_def demo_state_def cg_new_def arithmetic_def)

text \<open>
  C36. A comparison, and a short-circuit operator, has two types: \<open>get_type\<close> says it is a 64-bit
  integer, but its value is a truth value, so that a \<open>let\<close> of it stores an \<open>i1\<close> through a pointer
  to \<open>i64\<close>.
\<close>

theorem let_comparison_mistyped:
  assumes "llvm_types L" "slotted b c" "cond_expr (var_slots c) e" "var_slots c n = None"
    "Let_alloca L n e c = Inr (u, c1)" "Let_codegen L p n e c1 = Inr (v, c2)"
    "has_hosts c" "b < nblocks c" "\<And>x. nblocks c \<le> x \<Longrightarrow> blk c x = []"
  shows "\<exists>pre b' x s. cg_code c2 = pre @ [(b', IStore x s)] \<and> getType L s = LPtr LI64 \<and> getType L x = LI1"
proof -
  note c = var_slots_setting [OF assms(1,2)]
  from cond_typed [OF c(1,2) assms(3)] Let_slot [OF assms(2) _ assms(5)]
  have c1: "slotted b c1" "cg_vars c1 = (cg_vars c)(n \<mapsto> Some (LRes (cg_count c) (OpAlloca LI64 n) []))" "grown b c c1" by auto
  note d = var_slots_setting [OF assms(1) c1(1)]
  have "cond_expr (var_slots c1) e"
    by (rule core_dom(2) [OF _ assms(3)]) (auto simp: var_slots_def c1(2))
  note e = this cond_decides [OF d(1) this, of Map.empty "p @ [0]"]
  have "ready Map.empty (var_slots c1) c1 b" using d(2,3) c1(3) assms(7-9)
    by (auto simp: ready_def grown_def has_hosts_def has_rows_def nblocks_def blk_def comp_def)
  with e(2) obtain x c1' b' where x: "bindP (get_value L (p @ [0]) e) returnM c1 = Inr (x, c1')" "getType L x = LI1"
    "ready Map.empty (var_slots c1) c1' b'" unfolding decides_def by blast
  let ?s = "LRes (cg_count c) (OpAlloca LI64 n) []"
  have "cg_vars c1 n = Some (Some ?s)" by (simp add: c1(2))
  with assms(6) x(1,3) cond_typed [OF d(1,2) e(1)] have "cg_code c2 = cg_code c1' @ [(b', IStore x ?s)]"
    by (auto simp: Let_codegen_def bindP_Inr bindM_Inr returnM_def vars_index_def pmap_index_def log_ins_def modM_def ready_def)
  moreover have "getType L ?s = LPtr LI64" using assms(1) by (simp add: llvm_types_def)
  ultimately show ?thesis using x(2) by blast
qed

definition demo_ready_state :: "unit cg" where
  "demo_ready_state = demo_state\<lparr>cg_functions := [''print_int'' \<mapsto> Some print_fn, ''__emit_func'' \<mapsto> Some emit_fn]\<rparr>"

theorem let_comparison_mistyped_witness:
  "\<exists>c1 c2 pre b' x s. Let_alloca sample_llvm ''t'' (BinaryExpression None OP_LESSTHAN (int_lit 1) (int_lit 2)) demo_ready_state = Inr ((), c1) \<and>
     Let_codegen sample_llvm [] ''t'' (BinaryExpression None OP_LESSTHAN (int_lit 1) (int_lit 2)) c1 = Inr ((), c2) \<and>
     cg_code c2 = pre @ [(b', IStore x s)] \<and> getType sample_llvm s = LPtr LI64 \<and> getType sample_llvm x = LI1"
proof -
  let ?e = "BinaryExpression None OP_LESSTHAN (int_lit 1) (int_lit 2)"
  obtain c1 c2 where c: "Let_alloca sample_llvm ''t'' ?e demo_ready_state = Inr ((), c1)" "Let_codegen sample_llvm [] ''t'' ?e c1 = Inr ((), c2)"
    by (simp add: demo_ready_state_def demo_state_def run_defs)
  have "slotted 0 demo_ready_state" "cond_expr (var_slots demo_ready_state) ?e" "var_slots demo_ready_state ''t'' = None"
    by (simp_all add: slotted_def demo_ready_state_def demo_state_def cg_new_def comparison_def var_slots_def)
  moreover have "has_hosts demo_ready_state" "0 < nblocks demo_ready_state" "\<And>x. nblocks demo_ready_state \<le> x \<Longrightarrow> blk demo_ready_state x = []"
    by (simp_all add: demo_ready_state_def demo_state_def has_hosts_def nblocks_def blk_def cg_new_def)
  ultimately show ?thesis using let_comparison_mistyped [OF sample_llvm_types _ _ _ c] c by blast
qed

end
