(* ===== verification/Reir_Progress.thy ===== *)
theory Reir_Progress
  imports Reir_Correct
begin

text \<open>
  Compilation does not fail on the programs it is meant for: a core program that names a variable
  only after its \<open>let\<close> passes analysis, slot allocation and code generation. The order is that of
  the text; a name stays known after the block that declares it, as the compiler's tables are not
  scoped.
\<close>

section \<open>Scoping\<close>

definition block_names :: "stmt list \<Rightarrow> string list" where
  "block_names ss = concat (map let_names ss)"

definition init_names :: "stmt slot \<Rightarrow> string list" where
  "init_names init = (case init of Ref i \<Rightarrow> let_names i | _ \<Rightarrow> [])"

fun scoped :: "string list \<Rightarrow> stmt \<Rightarrow> bool" and scoped_block :: "string list \<Rightarrow> stmt list \<Rightarrow> bool" where
  "scoped A (Block ss) \<longleftrightarrow> scoped_block A ss"
| "scoped A (Let n _ e) \<longleftrightarrow> int_expr (named A) e"
| "scoped A (ExprStatement e) \<longleftrightarrow> (case print_arg e of Some a \<Rightarrow> int_expr (named A) a | None \<Rightarrow> int_expr (named A) e)"
| "scoped A (If c t f) \<longleftrightarrow> (cond_expr (named A) c \<or> int_expr (named A) c) \<and> scoped_block A t \<and>
     (case f of None \<Rightarrow> True | Some f' \<Rightarrow> scoped_block (A @ block_names t) f')"
| "scoped A (For init c every body) \<longleftrightarrow>
     (case init of Uninit \<Rightarrow> False | Null \<Rightarrow> True | Ref i \<Rightarrow> leaf i \<and> scoped A i) \<and>
     (case c of Ref e \<Rightarrow> cond_expr (named (A @ init_names init)) e | _ \<Rightarrow> False) \<and>
     (case every of Uninit \<Rightarrow> False | Null \<Rightarrow> True | Ref e \<Rightarrow> int_expr (named (A @ init_names init)) e) \<and>
     scoped_block (A @ init_names init) body"
| "scoped A (Emit e) \<longleftrightarrow> row_expr (named A) e"
| "scoped A _ \<longleftrightarrow> False"
| "scoped_block A [] \<longleftrightarrow> True"
| "scoped_block A (s # ss) \<longleftrightarrow> scoped A s \<and> scoped_block (A @ let_names s) ss"

text \<open>No \<open>let\<close> carries a type: analysis refuses one on anything but a row.\<close>

fun untyped :: "stmt \<Rightarrow> bool" where
  "untyped (Block ss) \<longleftrightarrow> list_all untyped ss"
| "untyped (Transaction _ ss) \<longleftrightarrow> list_all untyped ss"
| "untyped (For init _ _ ss) \<longleftrightarrow> (case init of Ref i \<Rightarrow> untyped i | _ \<Rightarrow> True) \<and> list_all untyped ss"
| "untyped (Scan _ _ ss) \<longleftrightarrow> list_all untyped ss"
| "untyped (Let _ t _) \<longleftrightarrow> t = None"
| "untyped (If _ t f) \<longleftrightarrow> list_all untyped t \<and> (case f of None \<Rightarrow> True | Some f' \<Rightarrow> list_all untyped f')"
| "untyped _ \<longleftrightarrow> True"

lemma block_names_simps [simp]: "block_names [] = []" "block_names (s # ss) = let_names s @ block_names ss"
  by (simp_all add: block_names_def)

lemma let_names_blocks:
  "let_names (Block ss) = block_names ss" "let_names (For init c e ss) = init_names init @ block_names ss"
  "let_names (If d t f) = block_names t @ (case f of None \<Rightarrow> [] | Some f' \<Rightarrow> block_names f')"
  by (auto simp: block_names_def init_names_def split: option.split)

declare let_names.simps(1,3,6) [simp del] let_names_blocks [simp]

lemma erase_names:
  "block_names (map erase_stmt ss) = block_names ss"
  "init_names (case init of Ref i \<Rightarrow> Ref (erase_stmt i) | Null \<Rightarrow> Null | Uninit \<Rightarrow> Uninit) = init_names init"
  by (auto simp: block_names_def init_names_def comp_def erase_parts(2) split: slot.splits)

lemma erase_scoped: "scoped A (erase_stmt s) = scoped A s" "scoped_block A (map erase_stmt ss) = scoped_block A ss"
proof (induction A s and A ss rule: scoped_scoped_block.induct)
  case (3 A e)
  then show ?case by (cases "print_arg e") (auto simp: erase_core_expr erase_print)
next
  case (4 A c t f)
  then show ?case by (cases f) (auto simp: erase_core_expr erase_names)
next
  case (5 A init c every body)
  then show ?case
    by (cases init; cases c; cases every) (auto simp: erase_core_expr erase_names init_names_def erase_leaf erase_parts(2))
qed (auto simp: erase_core_expr erase_row erase_parts(2))

lemma named_dom:
  assumes "set A \<subseteq> set B"
  shows "int_expr (named A) e \<Longrightarrow> int_expr (named B) e" "cond_expr (named A) e \<Longrightarrow> cond_expr (named B) e"
    "row_expr (named A) e \<Longrightarrow> row_expr (named B) e"
proof -
  have "named A n \<noteq> None \<Longrightarrow> named B n \<noteq> None" for n using assms by (auto simp: named_def split: if_splits)
  then show "int_expr (named A) e \<Longrightarrow> int_expr (named B) e" "cond_expr (named A) e \<Longrightarrow> cond_expr (named B) e"
    "row_expr (named A) e \<Longrightarrow> row_expr (named B) e"
    using core_dom(1,2,4) by blast+
qed

lemma scoped_core:
  "scoped A s \<Longrightarrow> set A \<union> set (let_names s) \<subseteq> set B \<Longrightarrow> core_stmt (named B) s \<and> leaf_inits s"
  "scoped_block A ss \<Longrightarrow> set A \<union> set (block_names ss) \<subseteq> set B \<Longrightarrow> list_all (core_stmt (named B)) ss \<and> list_all leaf_inits ss"
proof (induction A s and A ss rule: scoped_scoped_block.induct)
  case (2 A n t e)
  then show ?case using named_dom(1) [of A B e] by (simp add: named_def [of B n])
next
  case (3 A e)
  then show ?case using named_dom(1) [of A B] by (cases "print_arg e") auto
next
  case (4 A c t f)
  then show ?case using named_dom [of A B c] by (cases f) (auto simp: let_names_blocks)
next
  case (5 A init c every body)
  then show ?case using named_dom [of "A @ init_names init" B]
    by (cases init; cases c; cases every) (auto simp: let_names_blocks init_names_def)
next
  case (6 A e)
  then show ?case using named_dom(3) [of A B e] by simp
qed (auto simp: let_names_blocks)

lemma scoped_program: "scoped [] (Block ss) \<Longrightarrow> core_program (Block ss)"
  using scoped_core(1) [of "[]" "Block ss" "let_names (Block ss)"] by (simp add: core_program_def)

section \<open>Analysis\<close>

definition knows :: "string list \<Rightarrow> cctx \<Rightarrow> bool" where
  "knows A x \<longleftrightarrow> builtin_types x \<and> (\<forall>n \<in> set A. cx_variable_type x n = Some (Some (PrimaryType TY_INTEGER)))"

lemma binary_analyzed:
  assumes "knows A x" "expr_analyze addr l x = Inr (l', x)" "expr_analyze addr r x = Inr (r', x)"
    "e_type l' = Some lt" "e_type r' = Some rt" "op_result lt rt op = Some t"
  shows "\<exists>e'. expr_analyze addr (BinaryExpression u op l r) x = Inr (e', x) \<and> e_type e' = Some t"
proof -
  have "operate lt rt op x = Inr (Some t, x)" using operate_result [of x lt rt op "Some t" x] assms(1,6) by (simp add: knows_def)
  with assms(2-5) show ?thesis by simp
qed

lemma int_analyzed:
  "int_expr (named A) e \<Longrightarrow> knows A x \<Longrightarrow> \<exists>e'. expr_analyze addr e x = Inr (e', x) \<and> e_type e' = Some (PrimaryType TY_INTEGER)"
proof (induction "named A" e rule: int_expr.induct)
  case (1 t v)
  then show ?case
    by (auto simp: int_value_def PrimaryExpression_analyze_def type_index_builtin knows_def split: if_splits)
next
  case (2 t n)
  then show ?case by (auto simp: VariableReference_analyze_def knows_def named_def split: if_splits)
next
  case (3 t op l r)
  then obtain l' r' where "expr_analyze addr l x = Inr (l', x)" "e_type l' = Some (PrimaryType TY_INTEGER)"
    "expr_analyze addr r x = Inr (r', x)" "e_type r' = Some (PrimaryType TY_INTEGER)" by auto
  with "3.prems" binary_analyzed [OF "3.prems"(2)] show ?case by (auto simp: op_result_def)
next
  case (4 t u n e)
  then show ?case by (auto simp: VariableReference_analyze_def knows_def named_def split: if_splits)
qed simp_all

lemma cond_analyzed:
  "cond_expr (named A) e \<Longrightarrow> knows A x \<Longrightarrow> \<exists>e'. expr_analyze addr e x = Inr (e', x) \<and> e_type e' = Some (PrimaryType TY_BOOL)"
proof (induction "named A" e rule: cond_expr.induct)
  case (1 t op l r)
  have "\<exists>l' lt r' rt. expr_analyze addr l x = Inr (l', x) \<and> expr_analyze addr r x = Inr (r', x) \<and>
      e_type l' = Some lt \<and> e_type r' = Some rt \<and> op_result lt rt op = Some (PrimaryType TY_BOOL)"
  proof (cases "op \<in> comparison")
    case True
    then have "op \<notin> conditional" "op \<notin> arithmetic" by (auto simp: comparison_def conditional_def arithmetic_def)
    with 1 True int_analyzed [of A l x addr] int_analyzed [of A r x addr] show ?thesis by (fastforce simp: op_result_def)
  next
    case False
    with "1.prems" have "op \<in> conditional" by simp
    then have "op \<notin> arithmetic" by (auto simp: conditional_def arithmetic_def)
    with 1 False \<open>op \<in> conditional\<close> int_analyzed [of A l x addr] int_analyzed [of A r x addr] show ?thesis
      by (fastforce simp: op_result_def conditional_def)
  qed
  with binary_analyzed [OF "1.prems"(2)] show ?case by blast
qed simp_all

lemma Let_analyzed:
  assumes "int_expr (named A) e" "knows A x"
  shows "\<exists>s' x'. stmt_analyze addr (Let n None e) x = Inr (s', x') \<and> knows (A @ [n]) x'"
proof -
  from int_analyzed [OF assms, of addr] obtain e' where
    e': "expr_analyze addr e x = Inr (e', x)" "e_type e' = Some (PrimaryType TY_INTEGER)" by blast
  have "int_expr (named A) e'" using assms(1) expr_analyze_erase(1) [OF e'(1)] by (metis erase_core_expr(1))
  then have "Let_analyze n None e' x = Inr (Let n (e_type e') e', set_variable n (e_type e') x)"
    by (cases e') (auto simp: Let_analyze_def)
  with e' assms(2) show ?thesis by (auto simp: knows_def set_variable_def builtin_types_def)
qed

lemma print_analyzed:
  assumes "int_expr (named A) a" "knows A x"
  shows "\<exists>e'. expr_analyze addr (FunctionCall t p [a]) x = Inr (e', x)"
  using int_analyzed [OF assms, of addr] assms(2) by (auto simp: knows_def type_index_builtin)

lemma row_analyzed:
  assumes "row_expr (named A) e" "knows A x"
  shows "\<exists>e' x'. expr_analyze addr e x = Inr (e', x') \<and> knows A x'"
proof -
  from assms(1) obtain t es where e: "e = RowLiteral t es" "list_all (int_expr (named A)) es"
    using row_elements_Some by (auto simp: row_expr_def split: option.splits)
  from e(2) have "\<exists>es'. exprs_analyze addr True es x = Inr (es', x)"
  proof (induction es)
    case (Cons d es)
    with int_analyzed [of A d x addr] assms(2) show ?case by (fastforce simp: guardE_def)
  qed simp
  moreover have "knows A (set_type (''__TupleLiteral:'' @ n) u (x\<lparr>cx_fresh := k\<rparr>))" for n u k
    using assms(2) by (simp add: knows_def set_type_def builtin_types_def builtins_def)
  ultimately show ?thesis by (auto simp: e(1) Let_def)
qed

lemma slot_analyzed:
  assumes "knows A x" "case e of Uninit \<Rightarrow> False | Null \<Rightarrow> True | Ref e \<Rightarrow> int_expr (named A) e \<or> cond_expr (named A) e"
  shows "\<exists>e'. opt_analyze (expr_analyze addr) e x = Inr (e', x)"
proof (cases e)
  case (Ref d)
  with assms obtain d' where "expr_analyze addr d x = Inr (d', x)"
    using int_analyzed [of A d x addr] cond_analyzed [of A d x addr] by auto
  with Ref show ?thesis by (simp add: opt_analyze_def)
qed (use assms in \<open>simp_all add: opt_analyze_def\<close>)

lemma scoped_analyzed:
  "scoped A s \<Longrightarrow> untyped s \<Longrightarrow> knows A x \<Longrightarrow> \<exists>s' x'. stmt_analyze addr s x = Inr (s', x') \<and> knows (A @ let_names s) x'"
  "scoped_block A ss \<Longrightarrow> list_all untyped ss \<Longrightarrow> knows A x \<Longrightarrow>
   \<exists>ss' x'. block_analyze addr ss x = Inr (ss', x') \<and> knows (A @ block_names ss) x'"
proof (induction A s and A ss arbitrary: x and x rule: scoped_scoped_block.induct)
  case (1 A ss)
  then show ?case by (fastforce simp: let_names_blocks)
next
  case (2 A n t e)
  then show ?case using Let_analyzed [of A e x addr n] by simp
next
  case (3 A e)
  show ?case
  proof (cases "print_arg e")
    case None
    with 3 show ?thesis using int_analyzed [of A e x addr] by auto
  next
    case (Some a)
    then obtain e' where "expr_analyze addr e x = Inr (e', x)"
      using 3 print_arg_Some [OF Some] print_analyzed [of A a x addr] by fastforce
    with 3 show ?thesis by simp
  qed
next
  case (4 A c t f)
  then obtain c' where c: "expr_analyze addr c x = Inr (c', x)"
    using int_analyzed [of A c x addr] cond_analyzed [of A c x addr] by auto
  from 4 obtain t' x1 where t: "block_analyze addr t x = Inr (t', x1)" "knows (A @ block_names t) x1" by fastforce
  show ?case
  proof (cases f)
    case None
    with c t show ?thesis by (auto simp: let_names_blocks)
  next
    case (Some f')
    with 4 t(2) obtain f'' x2 where "block_analyze addr f' x1 = Inr (f'', x2)" "knows ((A @ block_names t) @ block_names f') x2"
      by fastforce
    with c t Some show ?thesis by (auto simp: let_names_blocks)
  qed
next
  case (5 A init c every body)
  let ?B = "A @ init_names init"
  have "\<exists>init' x1. (case init of Uninit \<Rightarrow> Inl Undefined | Null \<Rightarrow> Inr (Null, x)
       | Ref i \<Rightarrow> bindE (stmt_analyze addr i x) (\<lambda>(i, c). Inr (Ref i, c))) = Inr (init', x1) \<and> knows ?B x1"
    using 5 by (cases init) (fastforce simp: init_names_def)+
  then obtain init' x1 where i: "(case init of Uninit \<Rightarrow> Inl Undefined | Null \<Rightarrow> Inr (Null, x)
       | Ref i \<Rightarrow> bindE (stmt_analyze addr i x) (\<lambda>(i, c). Inr (Ref i, c))) = Inr (init', x1)" "knows ?B x1" by blast
  from slot_analyzed [OF i(2), of c addr] 5 obtain c' where c: "opt_analyze (expr_analyze addr) c x1 = Inr (c', x1)"
    by (auto split: slot.splits)
  from slot_analyzed [OF i(2), of every addr] 5 obtain e' where e: "opt_analyze (expr_analyze addr) every x1 = Inr (e', x1)"
    by (auto split: slot.splits)
  from 5 i(2) obtain b' x2 where "block_analyze addr body x1 = Inr (b', x2)" "knows (?B @ block_names body) x2" by fastforce
  with i(1) c e show ?case by (simp add: let_names_blocks)
next
  case (6 A e)
  then obtain e' x' where "expr_analyze addr e x = Inr (e', x')" "knows A x'" using row_analyzed [of A e x addr] by auto
  then show ?case by simp
next
  case (8 A)
  then show ?case by simp
next
  case (9 A s ss)
  then obtain s' x1 where s: "stmt_analyze addr s x = Inr (s', x1)" "knows (A @ let_names s) x1" by fastforce
  with 9 obtain ss' x2 where "block_analyze addr ss x1 = Inr (ss', x2)" "knows ((A @ let_names s) @ block_names ss) x2" by fastforce
  with s show ?case by simp
qed simp_all

section \<open>Slots\<close>

definition allocated :: "llvm \<Rightarrow> string list \<Rightarrow> nat \<Rightarrow> 'db cg \<Rightarrow> bool" where
  "allocated L A b c \<longleftrightarrow> slotted b c \<and> has_hosts c \<and> typed_rows L c \<and> (\<forall>n \<in> set A. \<exists>v. cg_vars c n = Some (Some v))"

lemma int_typed:
  assumes "llvm_types L" "allocated L A b c" "int_expr (named A) e"
  shows "get_type L e c = Inr (Some LI64, c)"
proof -
  have "slotted b c" using assms(2) by (simp add: allocated_def)
  note V = var_slots_setting [OF assms(1) this]
  have "int_expr (var_slots c) e"
    using assms(2) by (intro core_dom(1) [OF _ assms(3)]) (auto simp: named_def var_slots_def allocated_def split: if_splits)
  from int_get_type [OF V(1) this V(2)] show ?thesis .
qed

lemma int_visited: "int_expr V e \<Longrightarrow> \<exists>xs. each_value_at p e = Inr xs"
proof (induction V e arbitrary: p rule: int_expr.induct)
  case (4 V t u n e)
  then obtain xs where "each_value_at (p @ [1]) e = Inr xs" by fastforce
  then show ?case by simp
qed simp_all

lemma values_allocated:
  assumes "llvm_types L" "allocated L A b c"
  shows "list_all (\<lambda>(q, e). int_expr (named A) e) xs \<Longrightarrow> eachM (value_alloca L) xs c = Inr ((), c)"
proof (induction xs)
  case (Cons x xs)
  obtain q e where x: "x = (q, e)" by (cases x)
  with Cons.prems int_typed [OF assms, of e] have "value_alloca L x c = Inr ((), c)"
    by (simp add: value_alloca_def monad_defs)
  with Cons show ?case by (simp add: monad_defs)
qed (simp add: returnM_def)

lemma expr_allocated:
  assumes "llvm_types L" "allocated L A b c" "int_expr (named A) e"
  shows "ExprStatement_alloca L q e c = Inr ((), c)"
proof -
  from int_visited [OF assms(3)] obtain xs where xs: "each_value_at (q @ [0]) e = Inr xs" by blast
  from values_allocated [OF assms(1,2) int_values [OF assms(3) xs]] int_typed [OF assms] xs show ?thesis
    by (simp add: ExprStatement_alloca_def monad_defs)
qed

lemma print_allocated:
  assumes "llvm_types L" "allocated L A b c" "int_expr (named A) a"
  shows "ExprStatement_alloca L q (FunctionCall t (VariableReference u ''print_int'') [a]) c = Inr ((), c)"
proof -
  from int_visited [OF assms(3)] obtain xs where xs: "each_value_at (q @ [0] @ [1]) a = Inr xs" by blast
  with assms(3) int_values [OF assms(3) xs] have "list_all (\<lambda>(q, e). int_expr (named A) e) ((q @ [0] @ [1], a) # xs)" by simp
  from values_allocated [OF assms(1,2) this] print_type [of c L t u "[a]"] assms(2) xs show ?thesis
    by (simp add: ExprStatement_alloca_def allocated_def monad_defs del: get_type.simps eachM.simps)
qed

lemma Let_allocated:
  assumes "llvm_types L" "allocated L A b c" "int_expr (named A) e"
  shows "\<exists>c'. Let_alloca L n e c = Inr ((), c') \<and> allocated L (A @ [n]) b c'"
proof -
  note t = int_typed [OF assms]
  have s: "slotted b c" "cg_point c = Some b" using assms(2) by (simp_all add: allocated_def slotted_def)
  from t s(2) obtain c' where c': "Let_alloca L n e c = Inr ((), c')"
    by (simp add: Let_alloca_def monad_defs run_emit set_vars_def)
  from assms(2) have "placed L Map.empty b c" by (simp add: placed_def allocated_def stacked_def)
  from placed_Let [OF this t c'] assms(2) c' show ?thesis by (auto simp: allocated_def placed_def)
qed

lemma signature_found: "llvm_types L \<Longrightarrow> allocated L A b c \<Longrightarrow> list_all (int_expr (named A)) es \<Longrightarrow>
    (\<exists>sg. get_type_signature L es c = Inr (sg, c)) \<and> (\<exists>ts. element_types L es c = Inr (ts, c))"
proof (induction es)
  case (Cons e es)
  with int_typed [of L A b c e] show ?case by (auto simp: bindP_def monad_defs)
qed (simp add: returnM_def)

lemma Emit_allocated:
  assumes "llvm_types L" "allocated L A b c" "row_expr (named A) e"
  shows "\<exists>c'. Emit_alloca L q e c = Inr ((), c') \<and> allocated L A b c'"
proof -
  from assms(3) obtain t es where e: "e = RowLiteral t es" "list_all (int_expr (named A)) es"
    using row_elements_Some by (auto simp: row_expr_def split: option.splits)
  from assms(2) have s: "slotted b c" "typed_rows L c" by (simp_all add: allocated_def)
  from signature_found [OF assms(1,2) e(2)] obtain sg ts where "get_type_signature L es c = Inr (sg, c)" "element_types L es c = Inr (ts, c)"
    by blast
  then have "\<exists>r c1. get_type L e c = Inr (r, c1)"
    by (cases "cg_types c (''{'' @ sg @ ''}'')") (auto simp: e(1) monad_defs Let_def StructType_create_def set_types_def)
  then obtain r c1 where g: "get_type L e c = Inr (r, c1)" by blast
  from row_struct_made [OF s(1) assms(1) e(2) s(2) g [unfolded e(1)]] obtain t' where "r = Some t'" by blast
  with g obtain c' where c': "Emit_alloca L q e c = Inr ((), c')"
    by (auto simp: Emit_alloca_def bindP_def bindM_def needM_def emit_val_def freshM_def log_ins_def modM_def returnM_def set_stack_def)
  from Emit_slot [OF s assms(1,3) c'] assms(2) have "allocated L A b c'" by (auto simp: allocated_def has_hosts_def)
  with c' show ?thesis by blast
qed

lemma eachM_append: "eachM f (xs @ ys) c = bindE (eachM f xs c) (\<lambda>(_, c). eachM f ys c)"
  by (induction xs arbitrary: c) (auto simp: bindM_def bindE_def returnM_def split: sum.splits prod.splits)

lemma leaf_allocated:
  assumes "llvm_types L" "scoped A s" "leaf s" "allocated L A b c"
  shows "\<exists>c'. alloca_stack put L q s c = Inr ((), c') \<and> allocated L (A @ let_names s) b c'"
proof (cases s)
  case (ExprStatement e)
  show ?thesis
  proof (cases "print_arg e")
    case None
    with assms ExprStatement expr_allocated [OF assms(1,4)] show ?thesis by simp
  next
    case (Some a)
    with assms ExprStatement print_arg_Some [OF Some] print_allocated [OF assms(1,4)] show ?thesis by auto
  qed
qed (use assms Let_allocated [OF assms(1,4)] Emit_allocated [OF assms(1,4)] in auto)

lemma scoped_allocated:
  assumes L: "llvm_types L"
  shows "scoped A s \<Longrightarrow> allocated L A b c \<Longrightarrow> \<exists>nodes c'. each_statement_at p s = Inr nodes \<and>
      eachM (\<lambda>(p, n). alloca_stack put L p n) ((p, s) # nodes) c = Inr ((), c') \<and> allocated L (A @ let_names s) b c'"
    "scoped_block A ss \<Longrightarrow> allocated L A b c \<Longrightarrow> \<exists>nodes c'. block_statement_at q i ss = Inr nodes \<and>
      eachM (\<lambda>(p, n). alloca_stack put L p n) nodes c = Inr ((), c') \<and> allocated L (A @ block_names ss) b c'"
proof (induction A s and A ss arbitrary: c p and c q i rule: scoped_scoped_block.induct)
  case (1 A ss)
  then show ?case by (fastforce simp: bindM_def returnM_def)
next
  case (2 A n t e)
  then show ?case using leaf_allocated [OF L, of A "Let n t e" b c put p] by (auto simp: bindM_def returnM_def)
next
  case (3 A e)
  then show ?case using leaf_allocated [OF L, of A "ExprStatement e" b c put p] by (auto simp: bindM_def returnM_def)
next
  case (4 A d t f)
  from 4 obtain xs c1 where t: "block_statement_at (p @ [1]) 0 t = Inr xs"
    "eachM (\<lambda>(p, n). alloca_stack put L p n) xs c = Inr ((), c1)" "allocated L (A @ block_names t) b c1" by fastforce
  show ?case
  proof (cases f)
    case None
    with t show ?thesis by (simp add: bindM_def returnM_def)
  next
    case (Some f')
    with 4 t(3) obtain ys c2 where "block_statement_at (p @ [2]) 0 f' = Inr ys"
      "eachM (\<lambda>(p, n). alloca_stack put L p n) ys c1 = Inr ((), c2)" "allocated L ((A @ block_names t) @ block_names f') b c2"
      by fastforce
    with Some t show ?thesis by (simp add: bindM_def returnM_def eachM_append)
  qed
next
  case (5 A init d every body)
  let ?f = "\<lambda>(p, n). alloca_stack put L p n"
  have "\<exists>xs c1. (case init of Uninit \<Rightarrow> Inl Undefined | Null \<Rightarrow> Inr [] | Ref i \<Rightarrow> Inr [(p @ [0], i)]) = Inr xs \<and>
      eachM ?f ((p, For init d every body) # xs) c = Inr ((), c1) \<and> allocated L (A @ init_names init) b c1"
  proof (cases init)
    case (Ref j)
    with 5 leaf_allocated [OF L, of A j b c put "p @ [0]"] obtain c1 where
      c1: "alloca_stack put L (p @ [0]) j c = Inr ((), c1)" "allocated L (A @ let_names j) b c1" by auto
    then have "allocated L A b c1" by (simp add: allocated_def)
    with 5 Ref leaf_allocated [OF L, of A j b c1 put "p @ [0]"] obtain c2 where
      "alloca_stack put L (p @ [0]) j c1 = Inr ((), c2)" "allocated L (A @ let_names j) b c2" by auto
    with Ref c1 show ?thesis by (auto simp: init_names_def bindM_def returnM_def)
  qed (use 5 in \<open>auto simp: init_names_def bindM_def returnM_def\<close>)
  then obtain xs c1 where x: "(case init of Uninit \<Rightarrow> Inl Undefined | Null \<Rightarrow> Inr [] | Ref i \<Rightarrow> Inr [(p @ [0], i)]) = Inr xs"
    "eachM ?f ((p, For init d every body) # xs) c = Inr ((), c1)" "allocated L (A @ init_names init) b c1" by blast
  with 5 obtain ys c2 where "block_statement_at (p @ [3]) 0 body = Inr ys" "eachM ?f ys c1 = Inr ((), c2)"
    "allocated L ((A @ init_names init) @ block_names body) b c2" by fastforce
  with x eachM_append [of ?f "(p, For init d every body) # xs" ys c] show ?case by simp
next
  case (6 A e)
  then show ?case using leaf_allocated [OF L, of A "Emit e" b c put p] by (auto simp: bindM_def returnM_def)
next
  case (9 A s ss)
  from 9 obtain xs c1 where s: "each_statement_at (q @ [i]) s = Inr xs"
    "eachM (\<lambda>(p, n). alloca_stack put L p n) ((q @ [i], s) # xs) c = Inr ((), c1)" "allocated L (A @ let_names s) b c1" by fastforce
  with 9 obtain ys c2 where "block_statement_at q (Suc i) ss = Inr ys"
    "eachM (\<lambda>(p, n). alloca_stack put L p n) ys c1 = Inr ((), c2)" "allocated L ((A @ let_names s) @ block_names ss) b c2"
    by fastforce
  with s eachM_append [of "\<lambda>(p, n). alloca_stack put L p n" "(q @ [i], s) # xs" ys c] show ?case by simp
qed (simp_all add: returnM_def)

section \<open>Whole programs\<close>

lemma scoped_compiles:
  assumes L: "llvm_types L" and ss: "scoped [] (Block ss)" "untyped (Block ss)"
  shows "\<exists>c. compile_fresh put L addr md (Block ss) = Inr ((), c)"
proof -
  obtain c2 where c2: "cg_ctx c2 = CompilerContext_new" "cg_blocks c2 = []" "cg_code c2 = []" "cg_vars c2 = Map.empty"
    "cg_stack c2 = Map.empty" "has_hosts c2" "typed_rows L c2"
    and comp: "compile_fresh put L addr md (Block ss) = compile_rest put L addr c2 (Block ss)"
    using compile_from_start by blast
  have "knows [] CompilerContext_new" using builtin_types_new by (simp add: knows_def)
  from scoped_analyzed(1) [OF ss this, of addr] obtain ast x where an: "stmt_analyze addr (Block ss) CompilerContext_new = Inr (ast, x)"
    by blast
  then obtain ss' where ast: "ast = Block ss'" by (auto simp: bindE_eq_Inr_iff)
  let ?c5 = "c2\<lparr>cg_ctx := x, cg_blocks := [''entry_jit''], cg_point := Some 0\<rparr>"
  have sc: "scoped [] (Block ss')" using ss(1) stmt_analyze_erase(1) [OF an] by (metis ast erase_scoped(1))
  have p: "has_hosts ?c5" "typed_rows L ?c5"
    using c2(6,7) by (simp_all add: has_hosts_def typed_rows_def row_struct_def named_struct_def)
  then have "allocated L [] 0 ?c5" using c2(4) by (simp add: allocated_def slotted_def)
  from scoped_allocated(1) [OF L sc this, of "[]" put] obtain c6 where al: "alloca_all put L ast ?c5 = Inr ((), c6)"
    by (auto simp: ast alloca_all_def bindM_def liftM_def returnM_def)
  let ?V = "slots_of c6 (let_names (Block ss'))"
  note code = program_code [OF L sample_llvm_exec scoped_program [OF sc] _ _ _ _ _ p al [unfolded ast]]
  have "setting L sample_machine ?V" "core_stmt ?V ast" "leaf_inits ast" and
    "\<exists>K nodes. ready K ?V c6 0 \<and> each_statement_at [] ast = Inr nodes \<and> list_all (row_known L K) (([], ast) # nodes)"
    using code scoped_program [OF sc] c2 unfolding ast core_program_def by simp_all
  then obtain c7 where "codegen L [] ast c6 = Inr ((), c7)"
    using core_sim(1) [of L sample_machine ?V ast "[]" _ _ 0] unfolding sim_def by metis
  with an al show ?thesis unfolding comp
    by (auto simp: compile_rest_def c2(1) bindM_def log_ins_def modM_def simp del: stmt_analyze.simps)
qed

lemma scoped_ok:
  "scoped A s \<Longrightarrow> ok_stmt False UNIV s" "scoped_block A ss \<Longrightarrow> list_all (ok_stmt False UNIV) ss"
proof (induction A s and A ss rule: scoped_scoped_block.induct)
  case (4 A c t f)
  then show ?case by (cases f) auto
next
  case (5 A init c every body)
  then show ?case by (cases init; cases c) auto
qed auto

section \<open>Properties\<close>

text \<open>
  C3. Compilation does not fail on well-scoped programs: a program of the core language that uses
  a variable only after its \<open>let\<close>, in the order of the text, and gives no types to its variables
  is analysed and compiled without an error, and every block of the code ends with its only
  terminator.
\<close>

theorem scoped_program_compiles:
  assumes "llvm_types L" "scoped [] (Block ss)" "untyped (Block ss)"
  shows "\<exists>c. compile_fresh put L addr md (Block ss) = Inr ((), c) \<and>
    (\<forall>b < nblocks c. \<exists>body t. blk c b = body @ [t] \<and> is_terminator t \<and> opened body \<and> targets t \<subseteq> {..<nblocks c})"
proof -
  from scoped_compiles [OF assms, of put addr md] obtain c where c: "compile_fresh put L addr md (Block ss) = Inr ((), c)" by blast
  then obtain v c0 where "define_functions (cg_new md) = Inr (v, c0)" "compile put L addr (Block ss) c0 = Inr ((), c)"
    by (auto simp: compile_fresh_def bindM_Inr)
  with fresh_engine scoped_ok(1) [OF assms(2)] have "ended c {}" using compile_writing by blast
  with c ended_blocks [of c] show ?thesis by metis
qed

text \<open>A variable declared in a branch is known after it.\<close>

definition demo_scope :: "stmt list" where
  "demo_scope =
     [If (BinaryExpression None OP_CONDITIONAL_OR (int_lit 0) (BinaryExpression None OP_EQUAL (int_lit 1) (int_lit 2)))
        [Let ''x'' None (int_lit 1)] (Some [Let ''x'' None (int_lit 2)]),
      For (Ref (Let ''i'' None (VariableReference None ''x'')))
        (Ref (BinaryExpression None OP_MOREEQUAL (VariableReference None ''i'') (int_lit 0)))
        (Ref (Assign None (VariableReference None ''i'') (BinaryExpression None OP_MINUS (VariableReference None ''i'') (int_lit 1)))) []]"

theorem scoped_program_compiles_witness:
  "\<exists>c. compile_fresh (\<lambda>db k v. ()) sample_llvm demo_addr \<lparr>md_tables = Map.empty, md_db = ()\<rparr> (Block demo_scope) = Inr ((), c) \<and>
    (\<forall>b < nblocks c. \<exists>body t. blk c b = body @ [t] \<and> is_terminator t \<and> opened body \<and> targets t \<subseteq> {..<nblocks c})"
  by (rule scoped_program_compiles [OF sample_llvm_types])
     (simp_all add: demo_scope_def named_def init_names_def conditional_def comparison_def arithmetic_def)

end
