(* ===== verification/Reir_Init.thy ===== *)
theory Reir_Init
  imports Reir_Progress
begin

text \<open>
  Definite initialisation: programs whose result does not depend on what the stack slots of their
  variables hold before they are first written. The compiler does not check it, and a slot is not
  cleared; the functions here follow the order in which the reference interpreter evaluates.
\<close>

section \<open>The analysis\<close>

text \<open>The variables that have a value after an expression, if it reads no other than those of \<open>A\<close>.\<close>

fun init_expr :: "string list \<Rightarrow> expr \<Rightarrow> string list option" where
  "init_expr A (PrimaryExpression _ v) = Some A"
| "init_expr A (VariableReference _ n) = (if n \<in> set A then Some A else None)"
| "init_expr A (BinaryExpression _ op l r) = Option.bind (init_expr A l) (\<lambda>B. init_expr B r)"
| "init_expr A (Assign _ (VariableReference _ n) e) = map_option (\<lambda>B. n # B) (init_expr A e)"
| "init_expr A _ = None"

text \<open>The right operand of a short-circuit operator may not run.\<close>

fun init_cond :: "string list \<Rightarrow> expr \<Rightarrow> string list option" where
  "init_cond A (BinaryExpression t op l r) =
     (if op \<in> conditional
      then Option.bind (init_cond A l) (\<lambda>B. map_option (\<lambda>_. B) (init_cond B r))
      else init_expr A (BinaryExpression t op l r))"
| "init_cond A e = init_expr A e"

definition init_slot :: "string list \<Rightarrow> expr slot \<Rightarrow> string list option" where
  "init_slot A x = (case x of Uninit \<Rightarrow> None | Null \<Rightarrow> Some A | Ref e \<Rightarrow> init_expr A e)"

text \<open>An element of a row is evaluated twice.\<close>

fun init_row :: "string list \<Rightarrow> expr list \<Rightarrow> string list option" where
  "init_row A [] = Some A"
| "init_row A (e # es) = Option.bind (init_expr A e) (\<lambda>B. Option.bind (init_expr B e) (\<lambda>C. init_row C es))"

definition common :: "string list \<Rightarrow> string list \<Rightarrow> string list" where
  "common A B = filter (\<lambda>n. n \<in> set B) A"

text \<open>The body of a loop may not run; its condition runs at least once.\<close>

fun init_stmt :: "string list \<Rightarrow> stmt \<Rightarrow> string list option"
and init_block :: "string list \<Rightarrow> stmt list \<Rightarrow> string list option" where
  "init_stmt A (Block ss) = init_block A ss"
| "init_stmt A (Let n _ e) = map_option (\<lambda>B. n # B) (init_expr A e)"
| "init_stmt A (ExprStatement e) =
     (case print_arg e of Some a \<Rightarrow> init_expr A a | None \<Rightarrow> init_expr A e)"
| "init_stmt A (If c t f) =
     Option.bind (init_cond A c) (\<lambda>B.
     Option.bind (init_block B t) (\<lambda>T.
     map_option (\<lambda>F. common T F) (case f of None \<Rightarrow> Some B | Some f' \<Rightarrow> init_block B f')))"
| "init_stmt A (For init c every body) =
     Option.bind (case init of Uninit \<Rightarrow> None | Null \<Rightarrow> Some A | Ref i \<Rightarrow> init_stmt A i) (\<lambda>B.
     Option.bind (case c of Ref e \<Rightarrow> init_cond B e | _ \<Rightarrow> None) (\<lambda>C.
     Option.bind (init_block C body) (\<lambda>D.
     map_option (\<lambda>_. C) (init_slot D every))))"
| "init_stmt A (Emit e) = Option.bind (row_elements e) (init_row A)"
| "init_stmt A _ = None"
| "init_block A [] = Some A"
| "init_block A (s # ss) = Option.bind (init_stmt A s) (\<lambda>B. init_block B ss)"

section \<open>Soundness\<close>

text \<open>Two environments with the same output that agree on \<open>A\<close>.\<close>

definition agree :: "string list \<Rightarrow> env \<Rightarrow> env \<Rightarrow> bool" where
  "agree A x y \<longleftrightarrow> (\<forall>n \<in> set A. env_vars x n = env_vars y n) \<and> env_out x = env_out y"

lemma agree_mono: "agree A x y \<Longrightarrow> set B \<subseteq> set A \<Longrightarrow> agree B x y"
  by (auto simp: agree_def)

lemma agree_assign: "agree A x y \<Longrightarrow> agree (n # A) (assign n w x) (assign n w y)"
  by (auto simp: agree_def assign_def)

lemma agree_put: "agree A x y \<Longrightarrow> agree A (put_out w x) (put_out w y)"
  by (auto simp: agree_def put_out_def)

abbreviation same_value :: "string list \<Rightarrow> ('v \<times> env) option \<Rightarrow> ('v \<times> env) option \<Rightarrow> bool" where
  "same_value B \<equiv> rel_option (\<lambda>(w1, x) (w2, y). w1 = w2 \<and> agree B x y)"

lemma init_expr_grows: "init_expr A e = Some B \<Longrightarrow> set A \<subseteq> set B"
proof (induction A e arbitrary: B rule: init_expr.induct)
  case (3 A t op l r)
  then show ?case by (fastforce simp: bind_eq_Some_conv)
qed (auto split: if_splits)

lemma init_expr_sound:
  "init_expr A e = Some B \<Longrightarrow> agree A x y \<Longrightarrow> same_value B (eval_expr x e) (eval_expr y e)"
proof (induction A e arbitrary: B x y rule: init_expr.induct)
  case (1 A t v)
  then show ?case by (cases "int_value v") auto
next
  case (2 A t n)
  then show ?case by (auto simp: agree_def split: if_splits)
next
  case (3 A t op l r)
  then obtain C where C: "init_expr A l = Some C" "init_expr C r = Some B" by (auto simp: bind_eq_Some_conv)
  from "3.IH"(1) [OF C(1) "3.prems"(2)] show ?case
  proof (cases rule: option.rel_cases)
    case (Some p q)
    then obtain w x1 y1 where p: "eval_expr x l = Some (w, x1)" "eval_expr y l = Some (w, y1)" "agree C x1 y1" by auto
    from "3.IH"(2) [OF C(1,2) p(3)] p(1,2) show ?thesis
      by (cases rule: option.rel_cases) (auto simp: option.rel_map intro: option.rel_refl_strong)
  qed simp
next
  case (4 A t u n e)
  then obtain C where C: "init_expr A e = Some C" "B = n # C" by auto
  from "4.IH" [OF C(1) "4.prems"(2)] show ?case
    by (cases rule: option.rel_cases) (auto simp: C(2) agree_assign)
qed simp_all

lemma init_cond_grows: "init_cond A e = Some B \<Longrightarrow> set A \<subseteq> set B"
proof (induction A e arbitrary: B rule: init_cond.induct)
  case (1 A t op l r)
  show ?case
  proof (cases "op \<in> conditional")
    case True
    with "1.prems" have "init_cond A l = Some B" by (auto simp: bind_eq_Some_conv)
    with 1 True show ?thesis by blast
  next
    case False
    with "1.prems" show ?thesis using init_expr_grows [of A "BinaryExpression t op l r"] by simp
  qed
qed (simp_all add: init_expr_grows del: init_expr.simps)

lemma truth_same: "same_value B p q \<Longrightarrow> same_value B (truth p) (truth q)"
  by (cases p; cases q) (auto simp: truth_def)

lemma init_cond_sound:
  "init_cond A e = Some B \<Longrightarrow> agree A x y \<Longrightarrow> same_value B (eval_cond x e) (eval_cond y e)"
proof (induction A e arbitrary: B x y rule: init_cond.induct)
  case (1 A t op l r)
  consider "op \<in> conditional" | "op \<notin> conditional" "op \<in> comparison" | "op \<notin> conditional" "op \<notin> comparison" by blast
  then show ?case
  proof cases
    case 1
    with "1.prems"(1) obtain C where C: "init_cond A l = Some B" "init_cond B r = Some C" by (auto simp: bind_eq_Some_conv)
    from "1.IH"(1) [OF 1 C(1) "1.prems"(2)] show ?thesis
    proof (cases rule: option.rel_cases)
      case (Some p q)
      then obtain a x1 y1 where p: "eval_cond x l = Some (a, x1)" "eval_cond y l = Some (a, y1)" "agree B x1 y1" by auto
      from "1.IH"(2) [OF 1 C p(3)] have "same_value B (eval_cond x1 r) (eval_cond y1 r)"
        by (rule option.rel_mono_strong) (use init_cond_grows [OF C(2)] agree_mono in blast)
      with p 1 show ?thesis by simp
    qed (use 1 in simp)
  next
    case 2
    with "1.prems"(1) obtain C where C: "init_expr A l = Some C" "init_expr C r = Some B" by (auto simp: bind_eq_Some_conv)
    from init_expr_sound [OF C(1) "1.prems"(2)] show ?thesis
    proof (cases rule: option.rel_cases)
      case (Some p q)
      then obtain w x1 y1 where p: "eval_expr x l = Some (w, x1)" "eval_expr y l = Some (w, y1)" "agree C x1 y1" by auto
      from init_expr_sound [OF C(2) p(3)] p(1,2) 2 show ?thesis
        by (cases rule: option.rel_cases) (auto simp: option.rel_map intro: option.rel_refl_strong)
    qed (use 2 in simp)
  next
    case 3
    with "1.prems"(1) have "init_expr A (BinaryExpression t op l r) = Some B" by simp
    from truth_same [OF init_expr_sound [OF this "1.prems"(2)]] 3 show ?thesis by (simp del: eval_expr.simps)
  qed
qed (simp_all add: truth_same init_expr_sound del: init_expr.simps eval_expr.simps)

abbreviation same_env :: "string list \<Rightarrow> env option \<Rightarrow> env option \<Rightarrow> bool" where
  "same_env B \<equiv> rel_option (agree B)"

lemma init_slot_sound: "init_slot A e = Some B \<Longrightarrow> agree A x y \<Longrightarrow> same_env B (run_step e x) (run_step e y)"
  by (cases e) (auto simp: init_slot_def option.rel_map dest: init_expr_sound elim!: option.rel_mono_strong)

lemma init_slot_grows: "init_slot A e = Some B \<Longrightarrow> set A \<subseteq> set B"
  by (cases e) (auto simp: init_slot_def dest: init_expr_grows)

lemma loop_sound:
  assumes cond: "\<And>x y. agree A x y \<Longrightarrow> same_value B (cond x) (cond y)"
    and body: "\<And>x y. agree B x y \<Longrightarrow> same_env C (body x) (body y)"
    and step: "\<And>x y. agree C x y \<Longrightarrow> same_env D (step x) (step y)" and sub: "set A \<subseteq> set D"
  shows "agree A x y \<Longrightarrow> same_env B (run_loop k cond body step x) (run_loop k cond body step y)"
proof (induction k arbitrary: x y)
  case (Suc k)
  from cond [OF Suc.prems] show ?case
  proof (cases rule: option.rel_cases)
    case (Some p q)
    then obtain t x1 y1 where 1: "cond x = Some (t, x1)" "cond y = Some (t, y1)" "agree B x1 y1" by auto
    show ?thesis
    proof (cases t)
      case True
      from body [OF 1(3)] show ?thesis
      proof (cases rule: option.rel_cases)
        case (Some x2 y2)
        from step [OF Some(3)] show ?thesis
        proof (cases rule: option.rel_cases)
          case S: (Some x3 y3)
          with Suc.IH [OF agree_mono [OF S(3) sub]] Some 1 True show ?thesis by simp
        qed (use Some 1 True in simp)
      qed (use 1 True in simp)
    qed (use 1 in simp)
  qed simp
qed simp

lemma init_row_grows: "init_row A es = Some B \<Longrightarrow> set A \<subseteq> set B"
proof (induction A es arbitrary: B rule: init_row.induct)
  case (2 A e es)
  then obtain C D where "init_expr A e = Some C" "init_expr C e = Some D" "init_row D es = Some B" by (auto simp: bind_eq_Some_conv)
  with "2.IH" [of C D B] init_expr_grows [of A e C] init_expr_grows [of C e D] show ?case by blast
qed simp

lemma init_row_sound:
  "init_row A es = Some B \<Longrightarrow> agree A x y \<Longrightarrow> same_value B (eval_row x es) (eval_row y es)"
proof (induction A es arbitrary: B x y rule: init_row.induct)
  case (2 A e es)
  then obtain C D where C: "init_expr A e = Some C" "init_expr C e = Some D" "init_row D es = Some B"
    by (auto simp: bind_eq_Some_conv)
  from init_expr_sound [OF C(1) "2.prems"(2)] show ?case
  proof (cases rule: option.rel_cases)
    case (Some p q)
    then obtain v x1 y1 where 1: "eval_expr x e = Some (v, x1)" "eval_expr y e = Some (v, y1)" "agree C x1 y1" by auto
    from init_expr_sound [OF C(2) 1(3)] show ?thesis
    proof (cases rule: option.rel_cases)
      case (Some p q)
      then obtain w x2 y2 where 2: "eval_expr x1 e = Some (w, x2)" "eval_expr y1 e = Some (w, y2)" "agree D x2 y2" by auto
      from "2.IH" [OF C 2(3)] 1(1,2) 2(1,2) show ?thesis by (cases rule: option.rel_cases) auto
    qed (use 1 in simp)
  qed simp
qed simp

lemma common_set [simp]: "set (common A B) = set A \<inter> set B"
  by (auto simp: common_def)

lemma init_stmt_grows:
  "init_stmt A s = Some B \<Longrightarrow> set A \<subseteq> set B" "init_block A ss = Some B \<Longrightarrow> set A \<subseteq> set B"
proof (induction A s and A ss arbitrary: B and B rule: init_stmt_init_block.induct)
  case (2 A n t e)
  then obtain C where "init_expr A e = Some C" "B = n # C" by auto
  with init_expr_grows show ?case by fastforce
next
  case (3 A e)
  then show ?case by (auto split: option.splits dest: init_expr_grows)
next
  case (4 A c t f)
  then obtain C T F where C: "init_cond A c = Some C" "init_block C t = Some T"
    "(case f of None \<Rightarrow> Some C | Some f' \<Rightarrow> init_block C f') = Some F" "B = common T F" by (auto simp: bind_eq_Some_conv)
  have "set C \<subseteq> set F" using C(1,2,3) "4.IH"(2) by (auto split: option.splits)
  with init_cond_grows [OF C(1)] "4.IH"(1) [OF C(1,2)] C(4) show ?case by auto
next
  case (5 A init c every body)
  then obtain C where C: "(case init of Uninit \<Rightarrow> None | Null \<Rightarrow> Some A | Ref i \<Rightarrow> init_stmt A i) = Some C"
    "(case c of Ref e \<Rightarrow> init_cond C e | _ \<Rightarrow> None) = Some B" by (auto simp: bind_eq_Some_conv)
  have "set A \<subseteq> set C" using C(1) "5.IH"(1) by (cases init) auto
  with C(2) show ?case by (cases c) (auto dest: init_cond_grows)
next
  case (6 A e)
  then show ?case by (auto simp: bind_eq_Some_conv dest: init_row_grows)
next
  case (9 A s ss)
  then show ?case by (fastforce simp: bind_eq_Some_conv)
qed simp_all

lemma init_stmt_sound:
  "init_stmt A s = Some B \<Longrightarrow> agree A x y \<Longrightarrow> same_env B (run_stmt k s x) (run_stmt k s y)"
  "init_block A ss = Some B \<Longrightarrow> agree A x y \<Longrightarrow> same_env B (run_block k ss x) (run_block k ss y)"
proof (induction A s and A ss arbitrary: B x y and B x y rule: init_stmt_init_block.induct)
  case (2 A n t e)
  then obtain C where C: "init_expr A e = Some C" "B = n # C" by auto
  from init_expr_sound [OF C(1) "2.prems"(2)] show ?case
    by (cases rule: option.rel_cases) (auto simp: C(2) agree_assign)
next
  case (3 A e)
  show ?case
  proof (cases "print_arg e")
    case None
    with 3 have "init_expr A e = Some B" by simp
    from init_expr_sound [OF this "3.prems"(2)] None show ?thesis by (cases rule: option.rel_cases) auto
  next
    case (Some a)
    with 3 have "init_expr A a = Some B" by simp
    from init_expr_sound [OF this "3.prems"(2)] Some show ?thesis by (cases rule: option.rel_cases) (auto simp: agree_put)
  qed
next
  case (4 A c t f)
  then obtain C T F where C: "init_cond A c = Some C" "init_block C t = Some T"
    "(case f of None \<Rightarrow> Some C | Some f' \<Rightarrow> init_block C f') = Some F" "B = common T F" by (auto simp: bind_eq_Some_conv)
  from init_cond_sound [OF C(1) "4.prems"(2)] show ?case
  proof (cases rule: option.rel_cases)
    case (Some p q)
    then obtain b x1 y1 where 1: "eval_cond x c = Some (b, x1)" "eval_cond y c = Some (b, y1)" "agree C x1 y1" by auto
    have "same_env T (run_block k t x1) (run_block k t y1)" by (rule "4.IH"(1) [OF C(1,2) 1(3)])
    moreover have "same_env F (case f of None \<Rightarrow> Some x1 | Some f' \<Rightarrow> run_block k f' x1)
        (case f of None \<Rightarrow> Some y1 | Some f' \<Rightarrow> run_block k f' y1)"
      using C 1(3) "4.IH"(2) [OF C(1,2)] by (cases f) auto
    ultimately have "same_env B (run_block k t x1) (run_block k t y1)" "same_env B (case f of None \<Rightarrow> Some x1 | Some f' \<Rightarrow> run_block k f' x1)
        (case f of None \<Rightarrow> Some y1 | Some f' \<Rightarrow> run_block k f' y1)"
      by (auto simp: C(4) elim!: option.rel_mono_strong agree_mono)
    with 1 show ?thesis by (cases b) simp_all
  qed simp
next
  case (5 A init c every body)
  then obtain I D E where I: "(case init of Uninit \<Rightarrow> None | Null \<Rightarrow> Some A | Ref i \<Rightarrow> init_stmt A i) = Some I"
    "(case c of Ref e \<Rightarrow> init_cond I e | _ \<Rightarrow> None) = Some B" "init_block B body = Some D" "init_slot D every = Some E"
    by (auto simp: bind_eq_Some_conv)
  from I(2) obtain e where e: "c = Ref e" "init_cond I e = Some B" by (cases c) auto
  have sub: "set I \<subseteq> set E" using init_cond_grows [OF e(2)] init_stmt_grows(2) [OF I(3)] init_slot_grows [OF I(4)] by blast
  have "same_env I (case init of Uninit \<Rightarrow> None | Null \<Rightarrow> Some x | Ref i \<Rightarrow> run_stmt k i x)
      (case init of Uninit \<Rightarrow> None | Null \<Rightarrow> Some y | Ref i \<Rightarrow> run_stmt k i y)"
    using I(1) "5.IH"(1) "5.prems"(2) by (cases init) auto
  then show ?case
  proof (cases rule: option.rel_cases)
    case (Some x1 y1)
    have "same_env B (run_loop k (\<lambda>v. eval_cond v e) (run_block k body) (run_step every) x1)
        (run_loop k (\<lambda>v. eval_cond v e) (run_block k body) (run_step every) y1)"
      by (rule loop_sound [OF _ _ _ sub Some(3)])
        (use init_cond_sound [OF e(2)] "5.IH"(2) [OF I(1,2,3)] init_slot_sound [OF I(4)] in blast)+
    with Some e(1) show ?thesis by simp
  qed simp
next
  case (6 A e)
  then obtain es where es: "row_elements e = Some es" "init_row A es = Some B" by (auto simp: bind_eq_Some_conv)
  from init_row_sound [OF es(2) "6.prems"(2)] es(1) show ?case by (cases rule: option.rel_cases) (auto simp: agree_put)
next
  case (9 A s ss)
  then obtain C where C: "init_stmt A s = Some C" "init_block C ss = Some B" by (auto simp: bind_eq_Some_conv)
  from "9.IH"(1) [OF C(1) "9.prems"(2)] show ?case
    by (cases rule: option.rel_cases) (use "9.IH"(2) [OF C] in auto)
qed simp_all

text \<open>What an initialised program prints, and whether it ends, is the same from all starts.\<close>

lemma init_output:
  assumes "init_block [] ss = Some B" "run_block k ss \<lparr>env_vars = v, env_out = out\<rparr> = Some env"
  shows "\<exists>env'. run_block k ss \<lparr>env_vars = v', env_out = out\<rparr> = Some env' \<and> agree B env env'"
proof -
  have "agree [] \<lparr>env_vars = v, env_out = out\<rparr> \<lparr>env_vars = v', env_out = out\<rparr>" by (simp add: agree_def)
  from init_stmt_sound(2) [OF assms(1) this, of k] assms(2) show ?thesis by (auto simp: option_rel_Some1)
qed

end
