(* ===== verification/Reir_Driver.thy ===== *)
theory Reir_Driver
  imports Reir_Foedus Reir_Compiler Reir_Parse_Stmt
begin

text \<open>
  The way from a command line to a run: \<^verbatim>\<open>src/reir/reirc.cpp\<close>, \<^verbatim>\<open>reir_context.cpp\<close>,
  \<^verbatim>\<open>foedus_runner.cpp\<close>, \<^verbatim>\<open>executor.cpp\<close>, \<open>compile_and_exec\<close> of \<^verbatim>\<open>compiler.cpp\<close> with the
  functions the generated code may call, and \<^verbatim>\<open>db_handle\<close>. The JIT, the thread pool of the
  engine, the file system and the option parser are arguments. What is printed only when
  \<open>NDEBUG\<close> is not defined is left out.
\<close>

section \<open>Functions for generated code\<close>

definition print_string :: "string \<Rightarrow> nat \<Rightarrow> ('e, 'z, unit) iost" where
  "print_string data len = bindM (liftM (buf_read data 0 len)) (\<lambda>s. printM s)"

definition print_int :: "64 word \<Rightarrow> ('e, 'z, unit) iost" where
  "print_int s = printM (show_int (sint s) @ endl)"

text \<open>The random device is an argument; the distribution requires \<open>from <= to\<close>.\<close>

definition rand_int :: "(int \<Rightarrow> int \<Rightarrow> 'e \<Rightarrow> int \<times> 'e) \<Rightarrow> 64 word \<Rightarrow> 64 word \<Rightarrow> ('e, 'z, 64 word) iost" where
  "rand_int dist from to =
     (if sint from \<le> sint to
      then bindM (engineM (dist (sint from) (sint to))) (\<lambda>i. returnM (word_of_int i))
      else throwM Undefined)"

fun print_value :: "nat \<Rightarrow> maybe_value list \<Rightarrow> ('e, 'z, unit) iost" where
  "print_value i [] = returnM ()"
| "print_value i (v # vs) =
     bindM (printM (show_nat i @ ''->'' @ mv_dump v @ endl)) (\<lambda>_. print_value (Suc i) vs)"

definition value_at :: "maybe_value list \<Rightarrow> nat \<Rightarrow> ('e, 'z, maybe_value) iost" where
  "value_at v idx =
     (if idx < length v
      then bindM (printM (''key may be: '' @ mv_dump (v ! idx) @ endl)) (\<lambda>_. returnM (v ! idx))
      else throwM Undefined)"

definition get_int_value :: "maybe_value \<Rightarrow> 64 word res" where
  "get_int_value v =
     (if \<not> mv_exists v then Inl (RuntimeError ''key is null'')
      else bindE (mv_get v) (\<lambda>val.
           if \<not> is_int val then Inl (RuntimeError ''key is not integer'')
           else as_int val))"

text \<open>\<open>char\<close> is signed.\<close>

definition char_int :: "char \<Rightarrow> int" where
  "char_int c = (let n = int (of_char c) in if n < 128 then n else n - 256)"

definition debug_string :: "string \<Rightarrow> ('e, 'z, 64 word) iost" where
  "debug_string v =
     bindM (liftM (buf_read v 0 13)) (\<lambda>bs.
     bindM (printM (concat (map (\<lambda>c. show_int (char_int c) @ '' '') bs) @ endl)) (\<lambda>_.
     returnM 0))"

definition emit_row :: "string \<Rightarrow> nat \<Rightarrow> cctx \<Rightarrow> cctx res" where
  "emit_row buff len ctx = get_output buff len ctx"

section \<open>Compiling and running\<close>

record ('db, 'e) session = "'e io" +
  ss_md :: "'db metadata"

type_synonym ('db, 'e, 'a) run = "(('db, 'e) session, 'a) st"

text \<open>
  What the JIT makes of a module: nothing when it has no address for the function, else the
  result of the call and the rows emitted.
\<close>

type_synonym ('db, 'e) jit = "'db cg \<Rightarrow> ('db, 'e, (bool \<times> string list) option) run"

fun show_outputs :: "string list \<Rightarrow> string" where
  "show_outputs [] = []"
| "show_outputs [r] = RawRow_show r"
| "show_outputs (r # rs) = RawRow_show r @ endl @ show_outputs rs"

definition compile_and_exec ::
    "('db \<Rightarrow> string \<Rightarrow> string \<Rightarrow> 'db) \<Rightarrow> llvm \<Rightarrow> (nat \<Rightarrow> string) \<Rightarrow> ('db, 'e) jit \<Rightarrow> stmt option \<Rightarrow> ('db, 'e, unit) run" where
  "compile_and_exec put L addr jit ast =
     (case ast of
        None \<Rightarrow> returnM ()
      | Some ast \<Rightarrow>
          bindM (getM ss_md) (\<lambda>md.
          bindM (liftM (compile_fresh put L addr md ast)) (\<lambda>(_, ctx).
          bindM (modM (\<lambda>s. s\<lparr>ss_md := cg_md ctx\<rparr>)) (\<lambda>_.
          bindM (jit ctx) (\<lambda>ret.
          case ret of
            None \<Rightarrow> printM (''failed to compile '' @ endl)
          | Some (a, outputs) \<Rightarrow> printM (''emitted values: '' @ show_outputs outputs @ endl))))))"

definition Executor_execute ::
    "('db \<Rightarrow> string \<Rightarrow> string \<Rightarrow> 'db) \<Rightarrow> llvm \<Rightarrow> (nat \<Rightarrow> string) \<Rightarrow> ('db, 'e) jit \<Rightarrow> stmt option \<Rightarrow> bool \<Rightarrow> ('db, 'e, unit) run" where
  "Executor_execute put L addr jit_compiler ast jit =
     (if jit then compile_and_exec put L addr jit_compiler ast
      else throwM (RuntimeError ''executor not implemented for ''))"

section \<open>The runner\<close>

text \<open>The options of the engine that are set, and the number of threads for a number of CPUs.\<close>

record engine_options =
  use_numa_alloc :: bool
  page_pool_size_mb_per_node :: nat
  private_page_pool_initial_grab :: nat
  snapshot_folder_path_pattern :: string
  log_folder_path_pattern :: string
  group_count :: nat
  thread_count_per_group :: nat
  log_buffer_kb :: nat
  flush_at_shutdown :: bool
  snapshot_cache_size_mb_per_node :: nat
  private_snapshot_cache_initial_grab :: nat
  max_write_set_size :: nat
  log_mapper_io_buffer_mb :: nat
  log_reducer_buffer_mb :: nat
  log_reducer_dump_io_buffer_mb :: nat
  snapshot_writer_page_pool_size_mb :: nat
  snapshot_writer_intermediate_pool_size_mb :: nat
  max_storages :: nat

definition FoedusRunner_options :: "int \<Rightarrow> engine_options res" where
  "FoedusRunner_options cpus =
     (let path = ''./'';
          path = (if path ! (length path - 1) \<noteq> CHR ''/'' then path @ ''/'' else path);
          threads = 1 :: int
      in if cpus = 0 then Inl Undefined
         else let use_nodes = (threads - 1) div cpus + 1;
                  threads_per_node = (threads + (use_nodes - 1)) div use_nodes
              in Inr \<lparr>use_numa_alloc = True, page_pool_size_mb_per_node = 32, private_page_pool_initial_grab = 8,
                   snapshot_folder_path_pattern = path @ ''snapshot/node_$NODE$'',
                   log_folder_path_pattern = path @ ''log/node_$NODE$/logger_$LOGGER$'',
                   group_count = nat (use_nodes mod 2 ^ 16), thread_count_per_group = nat threads_per_node,
                   log_buffer_kb = 512, flush_at_shutdown = True, snapshot_cache_size_mb_per_node = 2,
                   private_snapshot_cache_initial_grab = 16, max_write_set_size = 4096, log_mapper_io_buffer_mb = 2,
                   log_reducer_buffer_mb = 2, log_reducer_dump_io_buffer_mb = 4, snapshot_writer_page_pool_size_mb = 4,
                   snapshot_writer_intermediate_pool_size_mb = 2, max_storages = 128\<rparr>)"

definition FoedusRunner_new ::
    "(engine_options \<Rightarrow> 'e) \<Rightarrow> (string \<Rightarrow> 'e \<Rightarrow> bool) \<Rightarrow> (string \<Rightarrow> 'e \<Rightarrow> 'e) \<Rightarrow> int \<Rightarrow> 'e io res" where
  "FoedusRunner_new make_engine exists create_storage cpus =
     bindE (FoedusRunner_options cpus) (\<lambda>options.
     let e = make_engine options; out = ''engine initialized'' @ endl
     in Inr (if \<not> exists ''db'' e then \<lparr>io_engine = create_storage ''db'' e, io_out = out\<rparr>
             else \<lparr>io_engine = e, io_out = out @ ''massstree already exist'' @ endl\<rparr>))"

definition FoedusRunner_delete :: "('e \<Rightarrow> 'e) \<Rightarrow> ('e, 'z, unit) iost" where
  "FoedusRunner_delete uninitialize =
     bindM (engine_do uninitialize) (\<lambda>_. printM (''foedus engine successfully uninitialized.'' @ endl))"

text \<open>
  The procedure registered as \<open>func\<close> finds the runner by the pointer in its input and calls
  its function; the thread pool runs a registered procedure. What either returns is not looked at.
\<close>

definition trampoline :: "('db, 'e, unit) run \<Rightarrow> ('db, 'e, unit) run" where
  "trampoline f = bindM f (\<lambda>_. returnM ())"

definition FoedusRunner_run ::
    "(string \<Rightarrow> ('db, 'e, unit) run \<Rightarrow> ('db, 'e, unit) run) \<Rightarrow> ('db, 'e, unit) run \<Rightarrow> ('db, 'e, unit) run" where
  "FoedusRunner_run impersonate f = impersonate ''func'' (trampoline f)"

definition reir_context_execute ::
    "(string \<Rightarrow> ('db, 'e, unit) run \<Rightarrow> ('db, 'e, unit) run) \<Rightarrow> nat \<Rightarrow> ('db \<Rightarrow> string \<Rightarrow> string \<Rightarrow> 'db) \<Rightarrow> llvm \<Rightarrow>
     (nat \<Rightarrow> string) \<Rightarrow> ('db, 'e) jit \<Rightarrow> string \<Rightarrow> ('db, 'e, unit) run" where
  "reir_context_execute impersonate k put L addr jit code =
     FoedusRunner_run impersonate
       (bindM (liftM (parse k code)) (\<lambda>ast. compile_and_exec put L addr jit (Some ast)))"

section \<open>The command line\<close>

text \<open>The options as the parser of the command line has them, the files that can be opened, and the run of a program.\<close>

record cmdline =
  cl_exist :: "string \<Rightarrow> bool"
  cl_get :: "string \<Rightarrow> string"

definition reirc_main ::
    "cmdline \<Rightarrow> (string \<rightharpoonup> string) \<Rightarrow> (string \<Rightarrow> ('e, 'z, unit) iost) \<Rightarrow> ('e, 'z, int) iost" where
  "reirc_main a files execute =
     (if cl_exist a ''version'' then bindM (printM (''reir-0.1dev'' @ endl)) (\<lambda>_. returnM 0)
      else if cl_exist a ''file''
      then case files (cl_get a ''file'') of
             Some code \<Rightarrow> bindM (execute code) (\<lambda>_. returnM 0)
           | None \<Rightarrow> bindM (printM (''file '' @ cl_get a ''file'' @ '' does not exist'' @ endl)) (\<lambda>_. returnM 1)
      else if cl_exist a ''exec'' then bindM (execute (cl_get a ''exec'')) (\<lambda>_. returnM 0)
      else bindM (printM (''specify -e or -f option to execute some reir'' @ endl)) (\<lambda>_. returnM 0))"

section \<open>Handles\<close>

text \<open>The pointer of a handle is not initialised.\<close>

record 'p db_handle =
  dh_name :: string
  dh_ptr :: "'p option"

definition DBHandle_new :: "string \<Rightarrow> 'p db_handle res" where
  "DBHandle_new name =
     (if name = ''foedus'' then Inr \<lparr>dh_name = name, dh_ptr = None\<rparr>
      else Inl (RuntimeError (''unknown db type: '' @ name)))"

definition DBHandle_set :: "'p \<Rightarrow> 'p db_handle \<Rightarrow> 'p db_handle" where
  "DBHandle_set p h = h\<lparr>dh_ptr := Some p\<rparr>"

definition DBHandle_get_name :: "'p db_handle \<Rightarrow> string" where
  "DBHandle_get_name h = dh_name h"

definition handle_ptr :: "'p db_handle \<Rightarrow> 'p res" where
  "handle_ptr h = (case dh_ptr h of None \<Rightarrow> Inl Undefined | Some p \<Rightarrow> Inr p)"

definition get_foedus_engine :: "'p db_handle \<Rightarrow> 'p res" where
  "get_foedus_engine h = bindE (guardE (dh_name h = ''foedus'') AssertFailed) (\<lambda>_. handle_ptr h)"

definition get_leveldb :: "'p db_handle \<Rightarrow> 'p res" where
  "get_leveldb h = bindE (guardE (dh_name h = ''leveldb'') AssertFailed) (\<lambda>_. handle_ptr h)"

section \<open>The catalogue's start and listing\<close>

text \<open>
  Opening the database is an argument, and so are the outcome of the walk over it and the order in
  which the hash table of the tables is walked.
\<close>

definition MetaData_new :: "(string \<Rightarrow> 'db option) \<Rightarrow> 'db metadata res" where
  "MetaData_new open_db =
     (case open_db ''/tmp/hoge'' of
        None \<Rightarrow> Inl AssertFailed
      | Some db \<Rightarrow> Inr \<lparr>md_tables = Map.empty, md_db = db\<rparr>)"

definition show_tables :: "bool \<Rightarrow> string list \<Rightarrow> 'db metadata \<Rightarrow> string res" where
  "show_tables status_ok order md =
     bindE (guardE status_ok AssertFailed) (\<lambda>_.
     Inr (concat (map (\<lambda>k. case md_tables md k of None \<Rightarrow> [] | Some sc \<Rightarrow> k @ '' -> '' @ sc_show sc @ endl) order)))"

section \<open>Facts\<close>

lemma runner_one_thread:
  "cpus \<noteq> 0 \<Longrightarrow> \<exists>o'. FoedusRunner_options cpus = Inr o' \<and> group_count o' = 1 \<and> thread_count_per_group o' = 1"
  by (simp add: FoedusRunner_options_def)

lemma leveldb_handle_impossible: "DBHandle_new name = Inr h \<Longrightarrow> get_leveldb (DBHandle_set p h) = Inl AssertFailed"
  by (auto simp: DBHandle_new_def DBHandle_set_def get_leveldb_def split: if_splits)

text \<open>Words in a row, as decimals with commas.\<close>

fun commas :: "string list \<Rightarrow> string" where
  "commas [] = []"
| "commas [x] = x"
| "commas (x # xs) = x @ '', '' @ commas xs"

lemma length_words: "length (concat (map bytes_of_u64 ws)) = 8 * length ws"
  by (induction ws) simp_all

lemma show_words_commas:
  "show_words first (length ws) (concat (map bytes_of_u64 ws)) =
     (if first \<or> ws = [] then [] else '', '') @ commas (map (\<lambda>w. show_nat (unat w)) ws)"
proof (induction ws arbitrary: first)
  case (Cons w ws)
  then show ?case by (cases ws) simp_all
qed simp

text \<open>
  Emitted integers are printed as unsigned decimals: a row of words appears in brackets with commas,
  whatever their sign as integers of the language.
\<close>

lemma raw_row_words: "RawRow_show (concat (map bytes_of_u64 ws)) = ''['' @ commas (map (\<lambda>w. show_nat (unat w)) ws) @ '']''"
  by (simp add: RawRow_show_def length_words show_words_commas)

end
