(* ===== verification/Reir_Execute.thy ===== *)
theory Reir_Execute
  imports Reir_Init Reir_Driver
begin

text \<open>
  The call of the compiled function. What the JIT does with the code of a module is an argument of
  the driver; \<open>jit_runs\<close> says that it runs that code on a machine, and an interpreter of the machine
  is such a JIT.
\<close>

section \<open>The output\<close>

text \<open>What the calls of \<open>print_int\<close> print, and the bytes of the rows emitted.\<close>

fun printed :: "event list \<Rightarrow> string" where
  "printed [] = []"
| "printed (Printed w # es) = show_int (sint w) @ endl @ printed es"
| "printed (Emitted ws # es) = printed es"

fun rows_out :: "event list \<Rightarrow> string list" where
  "rows_out [] = []"
| "rows_out (Printed w # es) = rows_out es"
| "rows_out (Emitted ws # es) = concat (map bytes_of_u64 ws) # rows_out es"

text \<open>
  The host functions, called in the order of the events; \<open>__emit_func\<close> is given the row's bytes and
  keeps a copy of them in the context.
\<close>

fun host_calls :: "event list \<Rightarrow> cctx \<Rightarrow> ('e, 'z, cctx) iost" where
  "host_calls [] ctx = returnM ctx"
| "host_calls (Printed w # es) ctx = bindM (print_int w) (\<lambda>_. host_calls es ctx)"
| "host_calls (Emitted ws # es) ctx =
     bindM (liftM (emit_row (concat (map bytes_of_u64 ws)) (8 * length ws) ctx)) (\<lambda>ctx. host_calls es ctx)"

lemma host_calls_run:
  "host_calls es ctx s = Inr (ctx\<lparr>cx_outputs := cx_outputs ctx @ rows_out es\<rparr>, s\<lparr>io_out := io_out s @ printed es\<rparr>)"
  by (induction es arbitrary: ctx s rule: printed.induct)
    (simp_all add: print_int_def printM_def modM_def bindM_def returnM_def liftM_def emit_row_def get_output_def buf_read_def length_words)

section \<open>The call\<close>

text \<open>
  A run of the code from its entry to the return of true is what the call does: the calls of host
  functions on the way, in a context that has no output at first, and the rows of that context as the
  result.
\<close>

definition jit_runs :: "'s machine \<Rightarrow> (('db, 'e) session \<Rightarrow> 's) \<Rightarrow> ('db, 'e) jit \<Rightarrow> bool" where
  "jit_runs M enter jit \<longleftrightarrow> (\<forall>s. m_out M (enter s) = []) \<and>
     (\<forall>c s b i st. runs M (blk c) ((0, 0), enter s) ((b, i), st) \<longrightarrow> i < length (blk c b) \<longrightarrow>
        blk c b ! i = IRet (LConst LI1 1) \<longrightarrow>
        (\<exists>ctx s1 s'. host_calls (m_out M st) CompilerContext_new s = Inr (ctx, s1) \<and>
           jit c s = Inr (Some (True, cx_outputs ctx), s') \<and> io_out s' = io_out s1))"

text \<open>
  A compiled program without output so far runs from its entry to the return of true and has printed
  then what the interpreter prints, whatever its slots hold at first.
\<close>

lemma returning_run:
  assumes "compile_fresh put L addr md (Block ss) = Inr (u, c)" "llvm_types L" "llvm_exec M"
    "scoped [] (Block ss)" "init_block [] ss = Some B" "m_out M st = []" "run_block j ss \<lparr>env_vars = vars, env_out = []\<rparr> = Some env"
  shows "\<exists>b i st'. runs M (blk c) ((0, 0), st) ((b, i), st') \<and> i < length (blk c b) \<and> blk c b ! i = IRet (LConst LI1 1) \<and>
    cells_hold M c (filter (\<lambda>n. n \<in> set B) (let_names (Block ss))) st' env"
proof -
  let ?ns = "let_names (Block ss)"
  from program_correct [OF assms(1-3) scoped_program [OF assms(4)], of st] obtain n st1 v where
    1: "runs M (blk c) ((0, 0), st) ((0, n), st1)" "cells_hold M c ?ns st1 \<lparr>env_vars = v, env_out = []\<rparr>"
    and 2: "\<And>env env'. cells_hold M c ?ns st1 env \<Longrightarrow> run_block j ss env = Some env' \<Longrightarrow>
      \<exists>b i st2. runs M (blk c) ((0, n), st1) ((b, i), st2) \<and> i < length (blk c b) \<and>
          blk c b ! i = IRet (LConst LI1 1) \<and> cells_hold M c ?ns st2 env'"
    unfolding assms(6) by blast
  from init_output [OF assms(5,7)] obtain env' where e: "run_block j ss \<lparr>env_vars = v, env_out = []\<rparr> = Some env'" "agree B env env'"
    by blast
  have "cells_hold M c (filter (\<lambda>n. n \<in> set B) ?ns) st2 env" if "cells_hold M c ?ns st2 env'" for st2
    using that e(2) by (auto simp: cells_hold_def agree_def)
  with 2 [OF 1(2) e(1)] runs_trans [OF 1(1)] show ?thesis by meson
qed

section \<open>An interpreter of the machine\<close>

text \<open>From a position to a return, with the value returned; without a result when it runs forever.\<close>

partial_function (option) machine_run :: "'s machine \<Rightarrow> (nat \<Rightarrow> ins list) \<Rightarrow> nat \<Rightarrow> nat \<Rightarrow> 's \<Rightarrow> (llval \<times> 's) option" where
  "machine_run M F b i s =
     (if i < length (F b)
      then (case F b ! i of
              IRet v \<Rightarrow> Some (v, s)
            | IBr x \<Rightarrow> machine_run M F x 0 (m_enter M (F x) b s)
            | ICondBr v t f \<Rightarrow>
                (let x = if m_val M s v \<noteq> 0 then t else f in machine_run M F x 0 (m_enter M (F x) b s))
            | _ \<Rightarrow> if is_terminator (F b ! i) then None else machine_run M F b (Suc i) (m_exec M (F b ! i) s))
      else None)"

lemma machine_run_step:
  assumes "i < length (F b)"
  shows "\<not> is_terminator (F b ! i) \<Longrightarrow> machine_run M F b i s = machine_run M F b (Suc i) (m_exec M (F b ! i) s)"
    "F b ! i = IBr x \<Longrightarrow> machine_run M F b i s = machine_run M F x 0 (m_enter M (F x) b s)"
    "F b ! i = ICondBr v t f \<Longrightarrow> x = (if m_val M s v \<noteq> 0 then t else f) \<Longrightarrow>
       machine_run M F b i s = machine_run M F x 0 (m_enter M (F x) b s)"
    "F b ! i = IRet v \<Longrightarrow> machine_run M F b i s = Some (v, s)"
  using assms by (subst machine_run.simps; auto simp: Let_def split: ins.splits)+

lemma runs_machine_run:
  "runs M F p q \<Longrightarrow> machine_run M F (fst (fst p)) (snd (fst p)) (snd p) = machine_run M F (fst (fst q)) (snd (fst q)) (snd q)"
proof (induction rule: runs.induct)
  case (plain i b s y)
  then show ?case by (simp add: machine_run_step(1))
next
  case (branch i b x s y)
  then show ?case by (simp add: machine_run_step(2))
next
  case (choice i b v t f x s y)
  then show ?case by (simp add: machine_run_step(3))
qed simp

definition machine_jit :: "'s machine \<Rightarrow> (('db, 'e) session \<Rightarrow> 's) \<Rightarrow> ('db, 'e) jit" where
  "machine_jit M enter c s =
     (case machine_run M (blk c) 0 0 (enter s) of
        None \<Rightarrow> Inl Undefined
      | Some (v, st) \<Rightarrow>
          bindM (host_calls (m_out M st) CompilerContext_new) (\<lambda>ctx. returnM (Some (m_val M st v \<noteq> 0, cx_outputs ctx))) s)"

lemma machine_jit_runs:
  fixes enter :: "('db, 'e) session \<Rightarrow> 's"
  assumes "llvm_exec M" "\<And>s. m_out M (enter s) = []"
  shows "jit_runs M enter (machine_jit M enter)"
  unfolding jit_runs_def
proof (intro conjI allI impI assms(2))
  fix c :: "'db cg" and s b i st
  assume r: "runs M (blk c) ((0, 0), enter s) ((b, i), st)" "i < length (blk c b)" "blk c b ! i = IRet (LConst LI1 1)"
  have "machine_run M (blk c) 0 0 (enter s) = Some (LConst LI1 1, st)"
    using runs_machine_run [OF r(1)] machine_run_step(4) [where F = "blk c", OF r(2,3)] by simp
  moreover have "m_val M st (LConst LI1 1) = 1" using assms(1) unfolding llvm_exec_def by (elim conjE) simp
  ultimately show "\<exists>ctx s1 s'. host_calls (m_out M st) CompilerContext_new s = Inr (ctx, s1) \<and>
      machine_jit M enter c s = Inr (Some (True, cx_outputs ctx), s') \<and> io_out s' = io_out s1"
    by (simp add: machine_jit_def host_calls_run bindM_def returnM_def)
qed

section \<open>Properties\<close>

definition emit_next :: "64 word \<Rightarrow> stmt list" where
  "emit_next w = [Let ''x'' None (int_lit w),
     Emit (RowLiteral None [Assign None (VariableReference None ''x'')
       (BinaryExpression None OP_PLUS (VariableReference None ''x'') (int_lit 1))])]"

lemma emit_next_facts:
  "scoped [] (Block (emit_next w))" "untyped (Block (emit_next w))" "\<exists>B. init_block [] (emit_next w) = Some B"
  "run_block k (emit_next w) \<lparr>env_vars = v, env_out = []\<rparr> = Some \<lparr>env_vars = v(''x'' := w + 2), env_out = [Emitted [w + 2]]\<rparr>"
  by (simp_all add: emit_next_def row_expr_def named_def arithmetic_def assign_def put_out_def add.commute)



end
