(* ===== verification/Spec2Isabelle.thy ===== *)
theory Spec2Isabelle
  imports Reir_Print_Stmt Reir_Metadata Reir_Typing Reir_Slice Reir_Query Reir_Execute
begin

text \<open>
  \<^bold>\<open>Reir: a compiler and catalogue for a transactional intermediate language.\<close>

  Reir reads a small imperative language with tables, rows and transactions, parses it,
  resolves its types, compiles it with LLVM and runs it against a key/value engine (FOEDUS);
  table definitions are kept in a catalogue backed by LevelDB. The data flow is
  \<^verbatim>\<open>tokenize -> TokenStream -> parse -> Node::analyze -> alloca_stack/codegen -> JIT\<close>;
  generated code calls back into the FOEDUS glue, and \<^verbatim>\<open>reir_context::execute\<close> drives the whole;
  the code generator and the catalogue share \<^verbatim>\<open>Schema\<close>, \<^verbatim>\<open>Attribute\<close>, \<^verbatim>\<open>AttrType\<close>
  and \<^verbatim>\<open>Value\<close>, which fix the bytes of keys and rows.

  \<^bold>\<open>Theories and the code they model\<close> (paths below \<^verbatim>\<open>src/src/\<close>):

  \<^item> \<^verbatim>\<open>Reir_Prelude\<close>: the result type \<open>err + 'a\<close> with \<open>bindE\<close> (every throw, assertion, abort and
    undefined behaviour is a value of \<open>err\<close>), little-endian bytes of 64-bit words, decimal
    printing and reading (\<^verbatim>\<open>std::to_string\<close>, \<^verbatim>\<open>stoi\<close>, \<^verbatim>\<open>stoll\<close>), buffers, tables of
    pointers with \<^verbatim>\<open>operator[]\<close>.
  \<^item> \<^verbatim>\<open>Reir_Token\<close>: \<^verbatim>\<open>reir/exec/token.hpp\<close>, token types, reserved words, symbol and
    operator tables, \<^verbatim>\<open>TokenStream\<close> (its cursor is \<open>ts_idx\<close>).
  \<^item> \<^verbatim>\<open>Reir_Tokenize\<close>: \<^verbatim>\<open>reir/exec/tokenize.hpp\<close>, the lexer loop as \<open>lex_step\<close> on the
    record \<open>lexer\<close> of its local variables, \<open>lex_run\<close>, \<open>lex_finish\<close>, \<open>tokenize\<close>.
  \<^item> \<^verbatim>\<open>Reir_Ast\<close>: \<^verbatim>\<open>reir/exec/ast_node.hpp\<close>, \<^verbatim>\<open>ast_expression.hpp\<close>,
    \<^verbatim>\<open>ast_statement.hpp\<close>, \<^verbatim>\<open>util/blank.hpp\<close>: types, expressions and statements, their
    dumps and traversals. A pointer that the constructors may leave unset is a \<open>slot\<close>.
  \<^item> \<^verbatim>\<open>Reir_Parse_Expr\<close>: \<^verbatim>\<open>reir/exec/ast_node_parser.cpp\<close> and
    \<^verbatim>\<open>ast_expression_parser.cpp\<close>; \<^verbatim>\<open>Reir_Parse_Stmt\<close>:
    \<^verbatim>\<open>ast_statement_parser.cpp\<close> and \<^verbatim>\<open>parser.cpp\<close>.
  \<^item> \<^verbatim>\<open>Reir_Print_Expr\<close>, \<^verbatim>\<open>Reir_Source\<close>, \<^verbatim>\<open>Reir_Print_Stmt\<close>: printers for expressions and for
    statements, as lexemes and as text, against which the parser and the lexer are specified.
  \<^item> \<^verbatim>\<open>Reir_Codec\<close>: the interface \<open>codec\<close> of a byte encoding (write, read back, exact length).
  \<^item> \<^verbatim>\<open>Reir_Value\<close>: \<^verbatim>\<open>reir/db/value.hpp\<close>, \<^verbatim>\<open>value.cpp\<close>, \<^verbatim>\<open>maybe_value.hpp\<close>;
    \<^verbatim>\<open>Reir_Attribute\<close>: \<^verbatim>\<open>attr_type.hpp/.cpp\<close>, \<^verbatim>\<open>attribute.hpp/.cpp\<close>;
    \<^verbatim>\<open>Reir_Schema\<close>: \<^verbatim>\<open>schema.hpp/.cpp\<close>; \<^verbatim>\<open>Reir_Metadata\<close>: \<^verbatim>\<open>metadata.hpp/.cpp\<close>,
    with LevelDB's \<^verbatim>\<open>Put\<close> and \<^verbatim>\<open>Get\<close> as arguments.
  \<^item> \<^verbatim>\<open>Reir_Context\<close>: \<^verbatim>\<open>reir/exec/compiler_context.hpp/.cpp\<close>, type tables, loop stack,
    emitted rows; \<^verbatim>\<open>Reir_Analyze\<close>: \<^verbatim>\<open>ast_node.cpp\<close> and the \<^verbatim>\<open>analyze\<close> methods;
    \<^verbatim>\<open>Reir_Typing\<close>: the typing rules and what analysis guarantees.
  \<^item> \<^verbatim>\<open>Reir_Llvm\<close>: the calls the generator makes into LLVM, as a log, with the LLVM members and
    tables of \<^verbatim>\<open>CompilerContext\<close> as the record \<open>cg\<close>. What LLVM answers (the type of a value, the
    text and size of a type) is an argument, the record \<open>llvm\<close>, with the documented typing as the
    hypothesis \<open>llvm_types\<close>. \<^verbatim>\<open>Reir_Codegen_Expr\<close>: \<^verbatim>\<open>ast_expression_codegen.cpp\<close>;
    \<^verbatim>\<open>Reir_Db_Interface\<close>: \<^verbatim>\<open>db_interface.cpp\<close>; \<^verbatim>\<open>Reir_Codegen_Stmt\<close>:
    \<^verbatim>\<open>ast_statement_codegen.cpp\<close> (slots, then code); \<^verbatim>\<open>Reir_Compiler\<close>: \<^verbatim>\<open>compiler.cpp\<close>,
    \<open>compile\<close> and \<open>compile_fresh\<close>. A node of the tree is named by its path.
  \<^item> \<^verbatim>\<open>Reir_Invariants\<close>, \<^verbatim>\<open>Reir_Flow\<close>, \<^verbatim>\<open>Reir_Steps\<close>, \<^verbatim>\<open>Reir_Programs\<close>: invariants of the
    generator, its basic blocks, and what they give for whole programs.
  \<^item> \<^verbatim>\<open>Reir_Layout\<close>, \<^verbatim>\<open>Reir_Storage\<close>, \<^verbatim>\<open>Reir_Range\<close>: the bytes that generated inserts and scans
    move, against the encoder of \<^verbatim>\<open>Reir_Schema\<close>, and the range of keys a scan asks for.
  \<^item> \<^verbatim>\<open>Reir_Foedus\<close>: \<^verbatim>\<open>reir/engine/foedus_interface.cpp\<close> and \<^verbatim>\<open>foedus_executor.cpp\<close>, the
    functions generated code calls. The engine is the argument \<open>foedus\<close>, with what its documentation
    promises of records and cursors as \<open>foedus_laws\<close>; a map from keys to values satisfies them.
    \<^verbatim>\<open>Reir_Query\<close>: an insert in a transaction followed by a scan, down to the bytes.
  \<^item> \<^verbatim>\<open>Reir_Driver\<close>: the functions of \<^verbatim>\<open>compiler.cpp\<close> that generated code calls to print and emit,
    \<^verbatim>\<open>compile_and_exec\<close> with the JIT as an argument, \<^verbatim>\<open>executor.cpp\<close>, \<^verbatim>\<open>db_handle.hpp/.cpp\<close>,
    \<^verbatim>\<open>foedus_runner.cpp\<close>, \<^verbatim>\<open>reir_context.cpp\<close> and \<^verbatim>\<open>reirc.cpp\<close>, on the record \<open>session\<close> of the
    engine, the catalogue and the output.
  \<^item> \<^verbatim>\<open>Reir_Semantics\<close>, \<^verbatim>\<open>Reir_Simulation\<close>, \<^verbatim>\<open>Reir_Slots\<close>, \<^verbatim>\<open>Reir_Correct\<close>: a reference
    interpreter for the core language (integers, variables, assignment, comparisons, the short-circuit operators, \<open>let\<close>,
    \<open>if\<close>, \<open>for\<close>, \<open>print_int\<close>, \<open>emit\<close> of a row of integers), the machine that runs the code with the documented meaning of the
    instructions, PHI and struct values included, as \<open>llvm_exec\<close>, the simulation between them, the
    stack slots of variables and rows, and the correctness of \<open>compile\<close>. \<^verbatim>\<open>Reir_Progress\<close>: which programs compile. \<^verbatim>\<open>Reir_Init\<close>: definite initialisation,
    after which what a program prints does not depend on what its slots held. \<^verbatim>\<open>Reir_Execute\<close>: the
    call of the compiled function, with what the JIT does as \<open>jit_runs\<close>; an interpreter of the machine
    satisfies it.
  \<^item> \<^verbatim>\<open>Reir_Slice\<close>: \<^verbatim>\<open>util/slice.hpp\<close>.

  \<^bold>\<open>Interfaces.\<close> \<open>codec\<close> is interpreted by values, optional values, column types and columns;
  \<open>bounded_parser\<close>, \<open>type_parser\<close>, \<open>expr_parser\<close> and \<open>stmt_parser\<close> state what a parsing function
  promises its callers (it stays inside the token list, it advances) and are interpreted by
  the parser's own functions at every recursion depth and at the fixed point. \<open>expr_inv\<close>,
  \<open>codegen_inv\<close>, \<open>alloca_inv\<close> and \<open>step_inv\<close> state what the builder has to keep for the whole
  generator to keep an invariant; they are interpreted for closed basic blocks, the loop
  stack, the growth of the code, the slots of variables, the node registers and the global
  strings. \<open>record_cursor\<close> is what a scan relies on in a cursor (it shows the records of its range
  in order and then ends); it is interpreted for the cursor functions of the glue.

  \<^bold>\<open>What the lemmas show.\<close> Lexing loses no byte, classifies every token, keeps positions in
  range and fails only in two ways; printing and lexing are inverse. The recursive-descent
  parser is total: the functions with the suffix \<open>_f\<close> have the number of unread tokens as a
  bound on the recursion depth, more depth never changes a result, and the functions without
  the suffix satisfy the recursion equations of the code without any bound. Expressions,
  statements and whole programs are printed and parsed back exactly. \<open>parse\<close> itself is a loop with fuel; it is proved that one
  turn per token is enough whenever it ends at all, and which inputs make it run forever.
  Values, columns and schemas survive their encodings; keys and rows have exactly the lengths
  the code computes for fixed-size columns, and keys of different tables or rows differ. The
  catalogue refines a finite map. Analysis implements the typing rules and changes nothing
  but annotations. Generated code has well-formed basic blocks as long as the program does not
  jump, finds a slot for every variable, and for core programs computes what the interpreter
  computes: the interpreter runs a loop for at most \<open>k\<close> rounds and has no result when that is
  too few, and the theorem holds for every \<open>k\<close>. A well-scoped core program always compiles, and
  executing its text runs it and prints exactly the lines the interpreter prints and the rows it emits. Inserts write the bytes of the row encoder and
  scans read them back, also through the engine: a scan after an insert goes through exactly the
  rows of the table. Where the code departs from its documentation or runs into undefined
  behaviour, the theorem states what it does.

  \<^bold>\<open>Not modelled.\<close> LLVM itself: creating the JIT, optimising and linking the module (the layers of
  \<^verbatim>\<open>Compiler\<close>); the generators of \<^verbatim>\<open>compiler.cpp\<close> that nothing calls (those before
  \<^verbatim>\<open>init_functions\<close>, and \<^verbatim>\<open>insert_codegen\<close>, whose body is commented out); \<^verbatim>\<open>storage.cpp\<close> and
  \<^verbatim>\<open>leveldb_compiler\<close>, which the build leaves out; \<^verbatim>\<open>tuple.hpp\<close> and \<^verbatim>\<open>util/slide.hpp\<close>, an
  unused copy of \<^verbatim>\<open>util/slice.hpp\<close>; the command line parser \<^verbatim>\<open>cmdline.h\<close>, which is vendored.
  Correctness of generated code by running it on the machine is proved for the core language; for
  inserts and scans the code is followed only through its instructions that move bytes, and row variables,
  calls other than of \<open>print_int\<close>, arrays, transactions and jumps are generated by the model but not run. Memory management
  (destructors, leaks) has no counterpart.
\<close>

section \<open>Lexer and parser together\<close>

text \<open>
  From tree to text and back: the text of an expression of the grammar, its lexemes
  separated by spaces, is accepted by \<open>tokenize\<close>, and \<open>parse_expr\<close> on the resulting token
  stream rebuilds exactly that expression and leaves no token unread.
\<close>

theorem source_text_roundtrip:
  assumes "source_expr e" "spellable e"
  shows "\<exists>ts. tokenize (print_lexemes (lex_expr False e)) = Inr ts \<and>
           parse_expr (token_stream_new ts) = Inr (e, stream ts [])"
proof -
  obtain ts where ts: "tokenize (print_lexemes (lex_expr False e)) = Inr ts" "map token_lexeme ts = lex_expr False e"
    using tokenize_print_lexemes spelled_expr [OF assms, of False] unfolding spelled_def by blast
  have "parse_expr (stream [] (ts @ [])) = Inr (e, stream ([] @ ts) [])"
    using source_expr_reads [OF assms(1)] ts(2) by (intro reads_exprD) (simp_all add: stops_def)
  with ts(1) show ?thesis by (simp add: stream_def token_stream_new_def)
qed

theorem source_text_roundtrip_witness:
  "\<exists>ts. tokenize ''( x + 1 ) * f ( x ) '' = Inr ts \<and>
     parse_expr (token_stream_new ts) = Inr (BinaryExpression None OP_MULTIPLE
       (BinaryExpression None OP_PLUS (VariableReference None ''x'') (PrimaryExpression None (MaybeValue_int 1)))
       (FunctionCall None (VariableReference None ''f'') [VariableReference None ''x'']), stream ts [])"
proof -
  let ?e = "BinaryExpression None OP_MULTIPLE
       (BinaryExpression None OP_PLUS (VariableReference None ''x'') (PrimaryExpression None (MaybeValue_int 1)))
       (FunctionCall None (VariableReference None ''f'') [VariableReference None ''x''])"
  have "source_expr ?e" by (simp add: MaybeValue_int_def ValueImpl_int_def)
  moreover have "lexeme TK_IDENTIFIER ''x''" "lexeme TK_IDENTIFIER ''f''" by code_simp+
  then have "spellable ?e" by (simp add: MaybeValue_int_def ValueImpl_int_def)
  ultimately have "\<exists>ts. tokenize (print_lexemes (lex_expr False ?e)) = Inr ts \<and>
      parse_expr (token_stream_new ts) = Inr (?e, stream ts [])"
    by (rule source_text_roundtrip)
  moreover have "print_lexemes (lex_expr False ?e) = ''( x + 1 ) * f ( x ) ''"
    by (simp add: print_lexemes_def lexeme_image_def paren_def MaybeValue_int_def ValueImpl_int_def show_nat.simps digit_char_def
       char_of_def bit_numeral_rec bit_Suc_0_iff)
  ultimately show ?thesis by simp
qed

section \<open>From text to a run\<close>


definition demo_if :: "stmt list" where
  "demo_if = [Let ''x'' None (int_lit 1),
     If (BinaryExpression None OP_CONDITIONAL_AND
           (BinaryExpression None OP_LESSTHAN (VariableReference None ''x'') (int_lit 2)) (VariableReference None ''x''))
       [ExprStatement (Assign None (VariableReference None ''x'') (BinaryExpression None OP_PLUS (VariableReference None ''x'') (int_lit 4)))]
       None,
     ExprStatement (FunctionCall None (VariableReference None ''print_int'') [VariableReference None ''x'']),
     Emit (RowLiteral None [VariableReference None ''x'', int_lit 7])]"

lemma demo_if_facts:
  "source_block demo_if" "list_all spellable_stmt demo_if" "length demo_if < 5" "scoped [] (Block demo_if)" "untyped (Block demo_if)"
  "\<exists>B. init_block [] demo_if = Some B \<and> ''x'' \<in> set B"
  "run_block 0 demo_if \<lparr>env_vars = v, env_out = []\<rparr> = Some \<lparr>env_vars = v(''x'' := 5), env_out = [Printed 5, Emitted [5, 7]]\<rparr>"
proof -
  show "source_block demo_if"
    by (simp add: demo_if_def first_kind_def kw_def MaybeValue_int_def ValueImpl_int_def paren_def)
  have "lexeme TK_IDENTIFIER ''x''" "lexeme TK_IDENTIFIER ''print_int''" by code_simp+
  then show "list_all spellable_stmt demo_if" by (simp add: demo_if_def MaybeValue_int_def ValueImpl_int_def)
  show "length demo_if < 5" by (simp add: demo_if_def)
  show "scoped [] (Block demo_if)" by (simp add: demo_if_def named_def comparison_def arithmetic_def conditional_def row_expr_def)
  show "untyped (Block demo_if)" by (simp add: demo_if_def)
  show "\<exists>B. init_block [] demo_if = Some B \<and> ''x'' \<in> set B"
    by (simp add: demo_if_def common_def conditional_def comparison_def)
  show "run_block 0 demo_if \<lparr>env_vars = v, env_out = []\<rparr> = Some \<lparr>env_vars = v(''x'' := 5), env_out = [Printed 5, Emitted [5, 7]]\<rparr>"
    by (simp add: demo_if_def conditional_def comparison_def truth_def assign_def put_out_def)
qed


end
